(* ===== verification/RtcPrelude.thy ===== *)
theory RtcPrelude
  imports Main "HOL-Library.Word"
begin

text \<open>
  Shared vocabulary of the development: machine integers and byte strings, the outcomes of C++
  code that does not return normally, checked reads of memory behind a pointer, text of numbers,
  and the generic lemmas the component theories rest on.
\<close>

unbundle bit_operations_syntax

subsection \<open>Types\<close>

type_synonym u8 = "8 word"
type_synonym u16 = "16 word"
type_synonym u32 = "32 word"
type_synonym bytes = "u8 list"

text \<open>
  The ways a C++ function of the program can fail to return: undefined behaviour (a read outside
  the memory behind a pointer, a null dereference), the exceptions its library calls throw, and
  \<open>NoReturn\<close> for a loop that has not ended within the random draws it was given.
\<close>

datatype cpp_error =
    OutOfBounds
  | NullDeref
  | BadFunctionCall
  | LengthError
  | InvalidArgument
  | OutOfRange
  | TypeError
  | SystemError
  | NoReturn

type_synonym 'a cpp = "cpp_error + 'a"

named_theorems cpp_simps \<open>equations that run the outcome type\<close>
named_theorems byte_simps \<open>equations about bytes, characters and their sizes\<close>

fun cbind :: "'a cpp \<Rightarrow> ('a \<Rightarrow> 'b cpp) \<Rightarrow> 'b cpp" where
  "cbind (Inl e) f = Inl e"
| "cbind (Inr x) f = f x"

lemma cbind_assoc: "cbind (cbind m f) g = cbind m (\<lambda>x. cbind (f x) g)"
  by (cases m) auto

lemma cbind_eq_Inr [cpp_simps]:
  "cbind m f = Inr y \<longleftrightarrow> (\<exists>x. m = Inr x \<and> f x = Inr y)"
  by (cases m) auto

lemma cbind_eq_Inl [cpp_simps]:
  "cbind m f = Inl e \<longleftrightarrow> m = Inl e \<or> (\<exists>x. m = Inr x \<and> f x = Inl e)"
  by (cases m) auto

lemma cbind_cong [fundef_cong]:
  "m = m' \<Longrightarrow> (\<And>x. m' = Inr x \<Longrightarrow> f x = g x) \<Longrightarrow> cbind m f = cbind m' g"
  by (cases m') auto

text \<open>\<open>safe m\<close>: the code returns normally.\<close>

definition safe :: "'a cpp \<Rightarrow> bool" where
  "safe m \<longleftrightarrow> (case m of Inl _ \<Rightarrow> False | Inr _ \<Rightarrow> True)"

lemma safe_simps [simp]: "safe (Inr x)" "\<not> safe (Inl e)"
  by (simp_all add: safe_def)

lemma safe_cbind: "safe (cbind m f) \<longleftrightarrow> (\<exists>x. m = Inr x \<and> safe (f x))"
  by (cases m) auto

lemma safe_iff: "safe m \<longleftrightarrow> (\<exists>x. m = Inr x)"
  by (cases m) auto

lemma safeE:
  assumes "safe m"
  obtains x where "m = Inr x"
  using assms by (auto simp: safe_iff)

subsection \<open>Handlers\<close>

text \<open>
  Code that runs on a state and makes calls of other objects: it returns the new state and the calls,
  in order, or fails. \<open>andThen\<close> runs one piece of code after another.
\<close>

type_synonym ('s, 'a) handler = "'s \<Rightarrow> ('s \<times> 'a list) cpp"

definition andThen :: "('s, 'a) handler \<Rightarrow> ('s, 'a) handler \<Rightarrow> ('s, 'a) handler" where
  "andThen m k s = cbind (m s) (\<lambda>(s1, a1). cbind (k s1) (\<lambda>(s2, a2). Inr (s2, a1 @ a2)))"

definition skip :: "('s, 'a) handler" where
  "skip s = Inr (s, [])"

definition emit :: "'a list \<Rightarrow> ('s, 'a) handler" where
  "emit acts s = Inr (s, acts)"

definition modify :: "('s \<Rightarrow> 's) \<Rightarrow> ('s, 'a) handler" where
  "modify f s = Inr (f s, [])"

definition guarded :: "bool \<Rightarrow> ('s, 'a) handler \<Rightarrow> ('s, 'a) handler" where
  "guarded b m = (if b then m else skip)"

definition fail :: "cpp_error \<Rightarrow> ('s, 'a) handler" where
  "fail e s = Inl e"

fun for_each :: "('x \<Rightarrow> ('s, 'a) handler) \<Rightarrow> 'x list \<Rightarrow> ('s, 'a) handler" where
  "for_each f [] = skip"
| "for_each f (x # xs) = andThen (f x) (for_each f xs)"

named_theorems handler_simps \<open>equations that run handlers\<close>

lemma andThen_run [handler_simps]:
  "m s = Inr (s1, a1) \<Longrightarrow> k s1 = Inr (s2, a2) \<Longrightarrow> andThen m k s = Inr (s2, a1 @ a2)"
  by (simp add: andThen_def)

lemma andThen_Inr: "andThen m k s = Inr (s', acts) \<longleftrightarrow>
    (\<exists>s1 a1 a2. m s = Inr (s1, a1) \<and> k s1 = Inr (s', a2) \<and> acts = a1 @ a2)"
  by (auto simp: andThen_def cbind_eq_Inr split: prod.splits)

lemma cbind_pair_Nil: "cbind m (\<lambda>(s2, a2). Inr (s2, [] @ a2)) = m"
  by (cases m) auto

lemma handler_steps [handler_simps]:
  "andThen skip k s = k s"
  "andThen (emit []) k s = k s"
  "andThen (modify f) k s = k (f s)"
  "andThen (fail e) k s = Inl e"
  "guarded True m = m" "guarded False m = skip"
  by (simp_all add: andThen_def skip_def emit_def modify_def fail_def guarded_def
      cbind_pair_Nil [simplified])

lemma handler_ends [handler_simps]:
  "skip s = Inr (s, [])" "emit acts s = Inr (s, acts)" "modify f s = Inr (f s, [])" "fail e s = Inl e"
  by (simp_all add: skip_def emit_def modify_def fail_def)

lemma safe_andThen:
  "safe (andThen m k s) \<longleftrightarrow> (\<exists>s1 a1. m s = Inr (s1, a1) \<and> safe (k s1))"
proof (cases "m s")
  case (Inr r)
  obtain s1 a1 where "r = (s1, a1)" by (cases r)
  with Inr show ?thesis by (cases "k s1") (auto simp: andThen_def)
qed (simp add: andThen_def)

lemma safe_handlers [simp]: "safe (skip s)" "safe (emit acts s)" "safe (modify f s)" "\<not> safe (fail e s)"
  by (simp_all add: skip_def emit_def modify_def fail_def)

lemma andThen_assoc: "andThen (andThen m k) h = andThen m (andThen k h)"
proof (rule ext)
  fix s
  show "andThen (andThen m k) h s = andThen m (andThen k h) s"
  proof (cases "m s")
    case (Inr r)
    obtain s1 a1 where r: "r = (s1, a1)" by (cases r)
    show ?thesis
    proof (cases "k s1")
      case (Inr r')
      obtain s2 a2 where "r' = (s2, a2)" by (cases r')
      with r \<open>m s = Inr r\<close> Inr show ?thesis by (cases "h s2") (auto simp: andThen_def)
    qed (simp add: andThen_def Inr r)
  qed (simp add: andThen_def)
qed

lemma for_each_append: "for_each f (xs @ ys) = andThen (for_each f xs) (for_each f ys)"
proof (induction xs)
  case Nil
  show ?case by (rule ext) (simp add: handler_steps)
qed (simp add: andThen_assoc)

subsection \<open>Reads of memory behind a pointer\<close>

text \<open>
  A pointer argument is the list of bytes that are there from the pointer on; the length the code
  is told is a separate number. A read past the end of the list is \<open>OutOfBounds\<close>.
\<close>

definition rd :: "bytes \<Rightarrow> nat \<Rightarrow> u8 cpp" where
  "rd m i = (if i < length m then Inr (m ! i) else Inl OutOfBounds)"

definition rd_range :: "bytes \<Rightarrow> nat \<Rightarrow> nat \<Rightarrow> bytes cpp" where
  "rd_range m off n =
     (if off + n \<le> length m then Inr (take n (drop off m)) else Inl OutOfBounds)"

lemma rd_in [cpp_simps]: "i < length m \<Longrightarrow> rd m i = Inr (m ! i)"
  by (simp add: rd_def)

lemma rd_range_in [cpp_simps]:
  "off + n \<le> length m \<Longrightarrow> rd_range m off n = Inr (take n (drop off m))"
  by (simp add: rd_range_def)

lemma rd_range_all [simp]: "rd_range m 0 (length m) = Inr m"
  by (simp add: rd_range_def)

lemma rd_eq_Inr: "rd m i = Inr b \<longleftrightarrow> i < length m \<and> b = m ! i"
  by (auto simp: rd_def)

lemma rd_range_eq_Inr:
  "rd_range m off n = Inr b \<longleftrightarrow> off + n \<le> length m \<and> b = take n (drop off m)"
  by (auto simp: rd_range_def)

text \<open>Subtraction on \<open>size_t\<close>: 64 bits, wrapping below zero.\<close>

definition size_sub :: "nat \<Rightarrow> nat \<Rightarrow> nat" where
  "size_sub a b = (if b \<le> a then a - b else 2 ^ 64 + a - b)"

lemma size_sub_le [simp]: "b \<le> a \<Longrightarrow> size_sub a b = a - b"
  by (simp add: size_sub_def)

subsection \<open>Characters and bytes\<close>

text \<open>\<open>std::string\<close> holds bytes; the program casts between \<open>char\<close> and \<open>uint8_t\<close> pointers.\<close>

definition byte_of_char :: "char \<Rightarrow> u8" where
  "byte_of_char c = word_of_nat (of_char c)"

definition char_of_byte :: "u8 \<Rightarrow> char" where
  "char_of_byte b = char_of (unat b)"

lemma char_of_byte_of_char [simp, byte_simps]: "char_of_byte (byte_of_char c) = c"
proof -
  have "(of_char c :: nat) < 256" by simp
  then show ?thesis
    by (simp add: byte_of_char_def char_of_byte_def unat_of_nat take_bit_nat_eq_self)
qed

lemma byte_of_char_of_byte [simp, byte_simps]: "byte_of_char (char_of_byte b) = b"
proof -
  have "unat b < 2 ^ LENGTH(8)" by (rule unsigned_less)
  then show ?thesis
    by (simp add: byte_of_char_def char_of_byte_def)
qed

definition bytes_of_string :: "string \<Rightarrow> bytes" where
  "bytes_of_string s = map byte_of_char s"

definition string_of_bytes :: "bytes \<Rightarrow> string" where
  "string_of_bytes bs = map char_of_byte bs"

lemma string_of_bytes_of_string [simp, byte_simps]: "string_of_bytes (bytes_of_string s) = s"
  by (simp add: bytes_of_string_def string_of_bytes_def o_def)

lemma bytes_of_string_of_bytes [simp, byte_simps]: "bytes_of_string (string_of_bytes b) = b"
  by (simp add: bytes_of_string_def string_of_bytes_def o_def)

lemma length_bytes_of_string [simp]: "length (bytes_of_string s) = length s"
  by (simp add: bytes_of_string_def)

lemma length_string_of_bytes [simp]: "length (string_of_bytes s) = length s"
  by (simp add: string_of_bytes_def)

lemma bytes_of_string_append [simp]:
  "bytes_of_string (a @ b) = bytes_of_string a @ bytes_of_string b"
  by (simp add: bytes_of_string_def)

lemma bytes_of_string_eq_Nil [simp]: "bytes_of_string s = [] \<longleftrightarrow> s = []"
  by (simp add: bytes_of_string_def)

lemma bytes_of_string_inject [simp]: "bytes_of_string a = bytes_of_string b \<longleftrightarrow> a = b"
  by (metis string_of_bytes_of_string)

subsection \<open>Numbers as text\<close>

text \<open>
  The digits of a number in a base, most significant first: what \<open>std::to_string\<close>, the
  \<open>%d\<close> of a byte and the \<open>%zx\<close> of a size print for a number that is not negative.
\<close>

fun radix_digits :: "nat \<Rightarrow> nat \<Rightarrow> nat list" where
  "radix_digits b n = (if b < 2 \<or> n < b then [n] else radix_digits b (n div b) @ [n mod b])"

declare radix_digits.simps [simp del]

definition digit_char :: "nat \<Rightarrow> char" where
  "digit_char d = ''0123456789abcdef'' ! d"

definition dec_string :: "nat \<Rightarrow> string" where
  "dec_string n = map digit_char (radix_digits 10 n)"

definition hex_string :: "nat \<Rightarrow> string" where
  "hex_string n = map digit_char (radix_digits 16 n)"

definition digit_val :: "char \<Rightarrow> nat option" where
  "digit_val c =
     (let v = of_char c :: nat in
      if 48 \<le> v \<and> v \<le> 57 then Some (v - 48)
      else if 97 \<le> v \<and> v \<le> 102 then Some (v - 87)
      else if 65 \<le> v \<and> v \<le> 70 then Some (v - 55)
      else None)"

text \<open>\<open>isspace\<close> and \<open>isdigit\<close> in the C locale.\<close>

definition is_space :: "char \<Rightarrow> bool" where
  "is_space c \<longleftrightarrow> c = CHR '' '' \<or> (9 \<le> (of_char c :: nat) \<and> (of_char c :: nat) \<le> 13)"

definition is_digit :: "char \<Rightarrow> bool" where
  "is_digit c \<longleftrightarrow> 48 \<le> (of_char c :: nat) \<and> (of_char c :: nat) \<le> 57"

definition radix_value :: "nat \<Rightarrow> string \<Rightarrow> nat" where
  "radix_value b s = foldl (\<lambda>a c. a * b + the (digit_val c)) 0 s"

lemma radix_digits_bound: "2 \<le> b \<Longrightarrow> d \<in> set (radix_digits b n) \<Longrightarrow> d < b"
proof (induction b n rule: radix_digits.induct)
  case (1 b n)
  then show ?case
    by (subst (asm) (2) radix_digits.simps) (auto split: if_splits)
qed

lemma radix_digits_value:
  "2 \<le> b \<Longrightarrow> foldl (\<lambda>a d. a * b + d) 0 (radix_digits b n) = n"
proof (induction b n rule: radix_digits.induct)
  case (1 b n)
  then show ?case
    by (cases "n < b") (simp_all add: radix_digits.simps [of b n])
qed

lemma radix_digits_nonempty [simp]: "radix_digits b n \<noteq> []"
  by (simp add: radix_digits.simps)

lemma less_16_cases:
  "(d::nat) < 16 \<Longrightarrow> d = 0 \<or> d = 1 \<or> d = 2 \<or> d = 3 \<or> d = 4 \<or> d = 5 \<or> d = 6 \<or> d = 7 \<or>
     d = 8 \<or> d = 9 \<or> d = 10 \<or> d = 11 \<or> d = 12 \<or> d = 13 \<or> d = 14 \<or> d = 15"
  by arith

lemma digit_val_digit_char: "d < 16 \<Longrightarrow> digit_val (digit_char d) = Some d"
  by (drule less_16_cases) (auto simp: digit_char_def digit_val_def)

lemma foldl_digit_chars:
  assumes "\<forall>d\<in>set ds. d < 16"
  shows "foldl (\<lambda>a c. a * b + the (digit_val c)) z (map digit_char ds) = foldl (\<lambda>a d. a * b + d) z ds"
  using assms by (induction ds arbitrary: z) (auto simp: digit_val_digit_char)

lemma radix_value_digits:
  assumes "2 \<le> b" "b \<le> 16"
  shows "radix_value b (map digit_char (radix_digits b n)) = n"
proof -
  have "\<forall>d\<in>set (radix_digits b n). d < 16"
    using radix_digits_bound [OF assms(1)] assms(2) by fastforce
  then show ?thesis
    unfolding radix_value_def
    by (simp add: foldl_digit_chars radix_digits_value [OF assms(1)])
qed

lemma radix_value_dec_string [simp]: "radix_value 10 (dec_string n) = n"
  by (simp add: dec_string_def radix_value_digits)

lemma radix_value_hex_string [simp]: "radix_value 16 (hex_string n) = n"
  by (simp add: hex_string_def radix_value_digits)

lemma dec_string_inject [simp]: "dec_string a = dec_string b \<longleftrightarrow> a = b"
  by (metis radix_value_dec_string)

lemma dec_string_nonempty [simp]: "dec_string n \<noteq> []"
  by (simp add: dec_string_def)

lemma hex_string_nonempty [simp]: "hex_string n \<noteq> []"
  by (simp add: hex_string_def)

lemma digit_char_range: "d < 16 \<Longrightarrow> digit_char d \<in> set ''0123456789abcdef''"
  by (drule less_16_cases) (auto simp: digit_char_def)

lemma digit_char_dec: "d < 10 \<Longrightarrow> digit_char d \<in> set ''0123456789''"
proof -
  assume "d < 10"
  then have "d = 0 \<or> d = 1 \<or> d = 2 \<or> d = 3 \<or> d = 4 \<or> d = 5 \<or> d = 6 \<or> d = 7 \<or> d = 8 \<or> d = 9"
    by arith
  then show ?thesis by (auto simp: digit_char_def)
qed

lemma set_dec_string: "set (dec_string n) \<subseteq> set ''0123456789''"
  using radix_digits_bound [of 10 _ n] digit_char_dec by (auto simp: dec_string_def)

lemma set_hex_string: "set (hex_string n) \<subseteq> set ''0123456789abcdef''"
  using radix_digits_bound [of 16 _ n] digit_char_range by (auto simp: hex_string_def)

lemma radix_digits_length: "n < b ^ Suc k \<Longrightarrow> 2 \<le> b \<Longrightarrow> length (radix_digits b n) \<le> Suc k"
proof (induction k arbitrary: n)
  case 0
  then show ?case by (simp add: radix_digits.simps)
next
  case (Suc k)
  have "n div b < b ^ Suc k"
    using Suc.prems by (simp add: less_mult_imp_div_less mult.commute)
  with Suc show ?case by (subst radix_digits.simps) auto
qed

lemma length_dec_byte: "length (dec_string (unat (b :: u8))) \<le> 3"
proof -
  have "unat b < 2 ^ LENGTH(8)" by (rule unsigned_less)
  then have "unat b < 10 ^ Suc 2" by simp
  from radix_digits_length [OF this] show ?thesis by (simp add: dec_string_def)
qed

text \<open>The text of an IPv4 address, \<open>%d.%d.%d.%d\<close> of its bytes.\<close>

definition ipv4_text :: "u8 \<Rightarrow> u8 \<Rightarrow> u8 \<Rightarrow> u8 \<Rightarrow> string" where
  "ipv4_text a b c d =
     dec_string (unat a) @ ''.'' @ dec_string (unat b) @ ''.'' @ dec_string (unat c) @ ''.'' @
     dec_string (unat d)"

lemma length_ipv4_text: "length (ipv4_text a b c d) \<le> 15"
  using length_dec_byte [of a] length_dec_byte [of b] length_dec_byte [of c] length_dec_byte [of d]
  by (simp add: ipv4_text_def)

subsection \<open>Searching strings\<close>

text \<open>\<open>s.find(c, pos)\<close>: the first position from \<open>pos\<close> on, \<open>None\<close> for \<open>npos\<close>.\<close>

fun find_char :: "char \<Rightarrow> string \<Rightarrow> nat option" where
  "find_char c [] = None"
| "find_char c (x # xs) = (if x = c then Some 0 else map_option Suc (find_char c xs))"

definition str_find :: "string \<Rightarrow> char \<Rightarrow> nat \<Rightarrow> nat option" where
  "str_find s c pos = map_option (\<lambda>i. i + pos) (find_char c (drop pos s))"

lemma find_char_None: "find_char c s = None \<longleftrightarrow> c \<notin> set s"
  by (induction s) auto

lemma find_char_Some:
  "find_char c s = Some i \<Longrightarrow> i < length s \<and> s ! i = c \<and> c \<notin> set (take i s)"
  by (induction s arbitrary: i) (auto split: if_splits)

lemma find_char_append:
  "c \<notin> set a \<Longrightarrow> find_char c (a @ b) = map_option (\<lambda>i. i + length a) (find_char c b)"
  by (induction a) (auto simp: option.map_comp o_def option.map_ident)

lemma str_find_Some:
  "str_find s c pos = Some i \<Longrightarrow> pos \<le> i \<and> i < length s \<and> s ! i = c"
  by (auto simp: str_find_def add.commute dest!: find_char_Some)

subsection \<open>Interface: a codec\<close>

text \<open>
  What the two ends of a link rely on: on the values the sender produces, the encoder returns
  normally and the decoder gives the value back. The clients are the ends of the tunnel; the
  providers are the payload formats, the length prefix and the frames of the multiplexer.
\<close>

locale codec =
  fixes enc :: "'a \<Rightarrow> bytes cpp"
    and dec :: "bytes \<Rightarrow> 'a option cpp"
    and valid :: "'a \<Rightarrow> bool"
  assumes enc_returns: "valid a \<Longrightarrow> \<exists>bs. enc a = Inr bs"
    and dec_enc: "valid a \<Longrightarrow> enc a = Inr bs \<Longrightarrow> dec bs = Inr (Some a)"
begin

lemma transfer: "valid a \<Longrightarrow> cbind (enc a) dec = Inr (Some a)"
  using enc_returns dec_enc by fastforce

lemma enc_inject: "valid a \<Longrightarrow> valid b \<Longrightarrow> enc a = enc b \<Longrightarrow> a = b"
  using enc_returns dec_enc by (metis old.sum.inject(2) option.inject)

lemma transfer_all:
  "\<forall>a\<in>set as. valid a \<Longrightarrow> map (\<lambda>a. cbind (enc a) dec) as = map (\<lambda>a. Inr (Some a)) as"
  by (induction as) (simp_all add: transfer)

end

subsection \<open>Interface: a table of objects by id\<close>

text \<open>
  The program keeps its live objects in maps from an id (\<open>SessionManager\<close>, \<open>SocksServer\<close>,
  the server's tunnels and clients). A history of stores and erasures determines every lookup.
\<close>

datatype ('k, 'v) table_op = Store 'k 'v | Erase 'k

locale id_table =
  fixes lookup :: "'s \<Rightarrow> 'k \<Rightarrow> 'v option"
    and store :: "'k \<Rightarrow> 'v \<Rightarrow> 's \<Rightarrow> 's"
    and erase :: "'k \<Rightarrow> 's \<Rightarrow> 's"
  assumes lookup_store: "lookup (store k v s) = (lookup s)(k \<mapsto> v)"
    and lookup_erase: "lookup (erase k s) = (lookup s)(k := None)"
begin

fun apply_op :: "('k, 'v) table_op \<Rightarrow> 's \<Rightarrow> 's" where
  "apply_op (Store k v) s = store k v s"
| "apply_op (Erase k) s = erase k s"

fun last_op :: "'k \<Rightarrow> ('k, 'v) table_op list \<Rightarrow> 'v option \<Rightarrow> 'v option" where
  "last_op k [] d = d"
| "last_op k (Store k' v # ops) d = last_op k ops (if k = k' then Some v else d)"
| "last_op k (Erase k' # ops) d = last_op k ops (if k = k' then None else d)"

lemma lookup_history: "lookup (fold apply_op ops s) k = last_op k ops (lookup s k)"
  by (induction k ops "lookup s k" arbitrary: s rule: last_op.induct)
    (auto simp: lookup_store lookup_erase)

lemma lookup_erased: "lookup (erase k s) k = None"
  by (simp add: lookup_erase)

lemma lookup_other: "k \<noteq> k' \<Longrightarrow> lookup (store k' v s) k = lookup s k"
  by (simp add: lookup_store)

lemma dom_store: "dom (lookup (store k v s)) = insert k (dom (lookup s))"
  by (simp add: lookup_store)

lemma dom_erase: "dom (lookup (erase k s)) = dom (lookup s) - {k}"
  by (simp add: lookup_erase)

end

subsection \<open>Interface: a queue written one message at a time\<close>

text \<open>
  Both sockets queue what they are asked to send and keep one asynchronous write in flight: the
  message at the head. \<open>enqueue\<close> and \<open>complete\<close> (the write succeeded) say whether they start the
  next write.
\<close>

locale serial_writer =
  fixes queue :: "'s \<Rightarrow> 'm list"
    and sending :: "'s \<Rightarrow> bool"
    and enqueue :: "'m \<Rightarrow> 's \<Rightarrow> 's"
    and complete :: "'s \<Rightarrow> 's"
    and ready :: "'s \<Rightarrow> bool"
  assumes queue_enqueue: "ready s \<Longrightarrow> queue (enqueue m s) = queue s @ [m]"
    and sending_enqueue: "ready s \<Longrightarrow> sending (enqueue m s)"
    and ready_enqueue: "ready s \<Longrightarrow> ready (enqueue m s)"
    and queue_complete: "queue s \<noteq> [] \<Longrightarrow> queue (complete s) = tl (queue s)"
    and sending_complete: "queue s \<noteq> [] \<Longrightarrow> sending s \<Longrightarrow> sending (complete s) = (tl (queue s) \<noteq> [])"
begin

text \<open>A busy writer has a head to write, an idle one has nothing left.\<close>

definition coherent :: "'s \<Rightarrow> bool" where
  "coherent s \<longleftrightarrow> sending s = (queue s \<noteq> [])"

lemma coherent_enqueue: "ready s \<Longrightarrow> coherent (enqueue m s)"
  by (simp add: coherent_def queue_enqueue sending_enqueue)

lemma coherent_complete: "coherent s \<Longrightarrow> queue s \<noteq> [] \<Longrightarrow> coherent (complete s)"
  by (simp add: coherent_def queue_complete sending_complete)

fun completes :: "nat \<Rightarrow> 's \<Rightarrow> 's" where
  "completes 0 s = s"
| "completes (Suc n) s = completes n (complete s)"

fun written :: "nat \<Rightarrow> 's \<Rightarrow> 'm list" where
  "written 0 s = []"
| "written (Suc n) s = hd (queue s) # written n (complete s)"

lemma queue_completes: "n \<le> length (queue s) \<Longrightarrow> queue (completes n s) = drop n (queue s)"
proof (induction n arbitrary: s)
  case (Suc n)
  then have "queue s \<noteq> []" by auto
  with Suc show ?case by (simp add: queue_complete drop_Suc)
qed simp

text \<open>The messages leave in the order they entered, each exactly once.\<close>

lemma written_take: "n \<le> length (queue s) \<Longrightarrow> written n s = take n (queue s)"
proof (induction n arbitrary: s)
  case (Suc n)
  then have "queue s \<noteq> []" by auto
  with Suc show ?case by (simp add: queue_complete take_Suc)
qed simp

lemma coherent_completes: "coherent s \<Longrightarrow> n \<le> length (queue s) \<Longrightarrow> coherent (completes n s)"
proof (induction n arbitrary: s)
  case (Suc n)
  then have q: "queue s \<noteq> []" by auto
  have "coherent (complete s)" using coherent_complete Suc.prems(1) q by blast
  with Suc q show ?case by (simp add: queue_complete)
qed simp

lemma drained:
  assumes "coherent s"
  shows "queue (completes (length (queue s)) s) = [] \<and> \<not> sending (completes (length (queue s)) s) \<and>
    written (length (queue s)) s = queue s"
  using coherent_completes [OF assms order_refl] queue_completes [of "length (queue s)" s]
    written_take [of "length (queue s)" s]
  by (simp add: coherent_def)

lemma queue_enqueues: "ready s \<Longrightarrow> queue (fold enqueue ms s) = queue s @ ms \<and> ready (fold enqueue ms s)"
  by (induction ms arbitrary: s) (auto simp: queue_enqueue ready_enqueue)

end

end
