(* ===== verification/SessionProtocol.thy ===== *)
theory SessionProtocol
  imports RtcPrelude
begin

text \<open>
  \<open>Src/common/include/session_protocol.h\<close> and \<open>Src/common/src/session_protocol.cpp\<close>: the frame
  header, the payloads of SYN and UDP frames, the length prefix of a data channel message and the
  rewriting of a request target. The host is little-endian (x86, ARM): \<open>memcpy\<close> of a
  \<open>uint32_t\<close> is \<open>le_store32\<close>/\<open>le_load32\<close>. Every read of an input buffer is a checked read, so
  the theorems can say that no decoder reads past the bytes it was given.
\<close>

subsection \<open>Enumerations\<close>

text \<open>
  An \<open>enum class\<close> over \<open>uint8_t\<close> can hold any byte, since the decoder casts the byte it read.
  The bytes with no enumerator are the last constructor.
\<close>

datatype write_queue_status = Danger | Safety

datatype ctrl_type = CtrlReceive | CtrlPause | CtrlOther u8

datatype frame_type = SYN | SYNACK | DATA | FIN | DATA_CTRL | FrameOther u8

datatype protocol =
  Unknown | Socks5Connect | HttpPlain | HttpsConnect | UdpAssociate | ProtocolOther u8

datatype phase =
    WaitGreetingVersion
  | WaitSocksMethods
  | WaitSocksTCP
  | WaitSocksUDP
  | WaitSocksIpv4
  | WaitSocksDomain
  | WaitSocksUdpAddr
  | WaitHttpRequestHeaders
  | Connecting
  | Connected
  | Closed

definition ctrl_of_byte :: "u8 \<Rightarrow> ctrl_type" where
  "ctrl_of_byte b = (if b = 0 then CtrlReceive else if b = 1 then CtrlPause else CtrlOther b)"

fun frame_code :: "frame_type \<Rightarrow> u8" where
  "frame_code SYN = 0x01"
| "frame_code SYNACK = 0x02"
| "frame_code DATA = 0x03"
| "frame_code FIN = 0x04"
| "frame_code DATA_CTRL = 0x0D"
| "frame_code (FrameOther b) = b"

definition frame_of_byte :: "u8 \<Rightarrow> frame_type" where
  "frame_of_byte b =
     (if b = 0x01 then SYN else if b = 0x02 then SYNACK else if b = 0x03 then DATA
      else if b = 0x04 then FIN else if b = 0x0D then DATA_CTRL else FrameOther b)"

fun protocol_code :: "protocol \<Rightarrow> u8" where
  "protocol_code Unknown = 0"
| "protocol_code Socks5Connect = 1"
| "protocol_code HttpPlain = 2"
| "protocol_code HttpsConnect = 3"
| "protocol_code UdpAssociate = 4"
| "protocol_code (ProtocolOther b) = b"

definition protocol_of_byte :: "u8 \<Rightarrow> protocol" where
  "protocol_of_byte b =
     (if b = 0 then Unknown else if b = 1 then Socks5Connect else if b = 2 then HttpPlain
      else if b = 3 then HttpsConnect else if b = 4 then UdpAssociate else ProtocolOther b)"

text \<open>A value that stands for its byte: not an enumerator's byte spelt as an unnamed one.\<close>

definition wf_frame_type :: "frame_type \<Rightarrow> bool" where
  "wf_frame_type t \<longleftrightarrow> frame_of_byte (frame_code t) = t"

definition wf_protocol :: "protocol \<Rightarrow> bool" where
  "wf_protocol p \<longleftrightarrow> protocol_of_byte (protocol_code p) = p"

lemma frame_code_of_byte [simp]: "frame_code (frame_of_byte b) = b"
  by (simp add: frame_of_byte_def)

lemma protocol_code_of_byte [simp]: "protocol_code (protocol_of_byte b) = b"
  by (simp add: protocol_of_byte_def)

lemma wf_frame_type_named [simp]:
  "wf_frame_type SYN" "wf_frame_type SYNACK" "wf_frame_type DATA" "wf_frame_type FIN"
  "wf_frame_type DATA_CTRL" "wf_frame_type (frame_of_byte b)"
  by (simp_all add: wf_frame_type_def) (simp_all add: frame_of_byte_def)

lemma wf_protocol_named [simp]:
  "wf_protocol Unknown" "wf_protocol Socks5Connect" "wf_protocol HttpPlain"
  "wf_protocol HttpsConnect" "wf_protocol UdpAssociate" "wf_protocol (protocol_of_byte b)"
  by (simp_all add: wf_protocol_def) (simp_all add: protocol_of_byte_def)

subsection \<open>The frame header\<close>

record frame_header =
  fh_stream_id :: u32
  fh_type :: frame_type
  fh_protocol :: protocol

definition kSize :: nat where
  "kSize = 6"

text \<open>\<open>memcpy\<close> between a \<open>uint32_t\<close> and four bytes on a little-endian host.\<close>

definition le_store32 :: "u32 \<Rightarrow> bytes" where
  "le_store32 v = [ucast v, ucast (drop_bit 8 v), ucast (drop_bit 16 v), ucast (drop_bit 24 v)]"

definition le_load32 :: "bytes \<Rightarrow> u32" where
  "le_load32 bs = ucast (bs ! 0) OR push_bit 8 (ucast (bs ! 1)) OR push_bit 16 (ucast (bs ! 2))
     OR push_bit 24 (ucast (bs ! 3))"

definition hton32 :: "u32 \<Rightarrow> u32" where
  "hton32 v =
     push_bit 24 (v AND 0x000000FF) OR push_bit 8 (v AND 0x0000FF00) OR
     drop_bit 8 (v AND 0x00FF0000) OR drop_bit 24 (v AND 0xFF000000)"

definition FrameHeader_encode :: "frame_header \<Rightarrow> bytes" where
  "FrameHeader_encode h =
     le_store32 (hton32 (fh_stream_id h)) @ [frame_code (fh_type h), protocol_code (fh_protocol h)]"

definition FrameHeader_decode :: "bytes \<Rightarrow> nat \<Rightarrow> frame_header option cpp" where
  "FrameHeader_decode data len =
     (if len < kSize then Inr None
      else cbind (rd_range data 0 4) (\<lambda>sid.
           cbind (rd data 4) (\<lambda>t.
           cbind (rd data 5) (\<lambda>p.
           Inr (Some \<lparr>fh_stream_id = hton32 (le_load32 sid),
                      fh_type = frame_of_byte t, fh_protocol = protocol_of_byte p\<rparr>)))))"

definition make_frame :: "u32 \<Rightarrow> frame_type \<Rightarrow> protocol \<Rightarrow> bytes \<Rightarrow> bytes" where
  "make_frame stream_id t p payload =
     FrameHeader_encode \<lparr>fh_stream_id = stream_id, fh_type = t, fh_protocol = p\<rparr> @ payload"

lemma le_load_store32 [simp]: "le_load32 (le_store32 v) = v"
proof (rule bit_word_eqI)
  fix n assume "n < LENGTH(32)"
  then show "bit (le_load32 (le_store32 v)) n \<longleftrightarrow> bit v n"
    by (cases "24 \<le> n"; cases "16 \<le> n"; cases "8 \<le> n")
      (auto simp: le_load32_def le_store32_def bit_simps)
qed

lemma length_le_store32 [simp]: "length (le_store32 v) = 4"
  by (simp add: le_store32_def)

lemma byte_no_bit: "8 \<le> n \<Longrightarrow> \<not> bit (b::u8) n"
  using bit_imp_le_length [of b n] by auto

lemma le_store_load32:
  assumes "length bs = 4"
  shows "le_store32 (le_load32 bs) = bs"
proof -
  from assms obtain a b c d where bs: "bs = [a, b, c, d]"
    by (auto simp: length_Suc_conv numeral_eq_Suc)
  let ?w = "le_load32 bs"
  have "ucast ?w = a" "ucast (drop_bit 8 ?w) = b" "ucast (drop_bit 16 ?w) = c"
    "ucast (drop_bit 24 ?w) = d"
    by (rule bit_word_eqI; auto simp: bs le_load32_def bit_simps byte_no_bit)+
  then show ?thesis by (simp add: le_store32_def bs)
qed

lemma byte_masks:
  "(0x000000FF :: u32) = mask 8" "(0x0000FF00 :: u32) = push_bit 8 (mask 8)"
  "(0x00FF0000 :: u32) = push_bit 16 (mask 8)" "(0xFF000000 :: u32) = push_bit 24 (mask 8)"
  by (simp_all add: mask_eq_exp_minus_1 push_bit_eq_mult)

text \<open>The byte swap of the code is the reversal of the four bytes.\<close>

lemma hton32_rev: "hton32 v = le_load32 (rev (le_store32 v))"
  unfolding hton32_def byte_masks
  by (rule bit_word_eqI) (auto simp: le_load32_def le_store32_def bit_simps)

lemma le_store_hton32: "le_store32 (hton32 v) = rev (le_store32 v)"
  by (simp add: hton32_rev le_store_load32)

lemma hton32_hton32 [simp]: "hton32 (hton32 v) = v"
  by (simp add: hton32_rev [of "hton32 v"] le_store_hton32)

text \<open>On the wire the stream id is big-endian.\<close>

lemma FrameHeader_encode_bytes:
  "FrameHeader_encode h =
     [ucast (drop_bit 24 (fh_stream_id h)), ucast (drop_bit 16 (fh_stream_id h)),
      ucast (drop_bit 8 (fh_stream_id h)), ucast (fh_stream_id h),
      frame_code (fh_type h), protocol_code (fh_protocol h)]"
  by (simp add: FrameHeader_encode_def le_store_hton32) (simp add: le_store32_def)

lemma length_FrameHeader_encode [simp]: "length (FrameHeader_encode h) = 6"
  by (simp add: FrameHeader_encode_bytes)

lemma length_make_frame [simp]: "length (make_frame sid t p pl) = 6 + length pl"
  by (simp add: make_frame_def)

lemma drop_make_frame [simp]: "drop kSize (make_frame sid t p pl) = pl"
  by (simp add: make_frame_def kSize_def)

lemma FrameHeader_decode_make_frame:
  assumes "wf_frame_type t" "wf_protocol p" "6 + length pl \<le> len"
  shows "FrameHeader_decode (make_frame sid t p pl) len =
    Inr (Some \<lparr>fh_stream_id = sid, fh_type = t, fh_protocol = p\<rparr>)"
proof -
  have len: "length (le_store32 (hton32 sid)) = 4" by simp
  show ?thesis
    using assms len
    by (simp add: FrameHeader_decode_def make_frame_def FrameHeader_encode_def kSize_def
        rd_range_def rd_def nth_append wf_frame_type_def wf_protocol_def)
qed

lemma FrameHeader_decode_short: "len < 6 \<Longrightarrow> FrameHeader_decode data len = Inr None"
  by (simp add: FrameHeader_decode_def kSize_def)

lemma FrameHeader_decode_safe: "len \<le> length data \<Longrightarrow> safe (FrameHeader_decode data len)"
  by (auto simp: FrameHeader_decode_def kSize_def rd_range_def rd_def)

lemma FrameHeader_decode_Some:
  assumes "FrameHeader_decode data len = Inr (Some h)" "len \<le> length data"
  shows "6 \<le> len \<and> FrameHeader_encode h = take 6 data"
proof -
  from assms have len: "6 \<le> len" by (auto simp: FrameHeader_decode_def kSize_def split: if_splits)
  with assms have h: "h = \<lparr>fh_stream_id = hton32 (le_load32 (take 4 data)),
      fh_type = frame_of_byte (data ! 4), fh_protocol = protocol_of_byte (data ! 5)\<rparr>"
    by (auto simp: FrameHeader_decode_def kSize_def rd_range_def rd_def)
  have "take 6 data = take 4 data @ [data ! 4, data ! 5]"
    using len assms(2) by (simp add: take_Suc_conv_app_nth numeral_eq_Suc)
  with h len assms(2) show ?thesis
    by (simp add: FrameHeader_encode_def le_store_load32)
qed

subsection \<open>SYN payloads\<close>

definition encode_syn_payload :: "string \<Rightarrow> u16 \<Rightarrow> bytes" where
  "encode_syn_payload host port =
     [word_of_nat (length host)] @ bytes_of_string host @
     [ucast (drop_bit 8 port), ucast (port AND 0xFF)]"

definition port_of_bytes :: "u8 \<Rightarrow> u8 \<Rightarrow> u16" where
  "port_of_bytes hi lo = push_bit 8 (ucast hi) OR ucast lo"

definition decode_syn_payload :: "bytes \<Rightarrow> nat \<Rightarrow> (string \<times> u16) option cpp" where
  "decode_syn_payload data len =
     (if len < 1 then Inr None
      else cbind (rd data 0) (\<lambda>b. let hlen = unat b in
      if len < 1 + hlen + 2 then Inr None
      else cbind (rd_range data 1 hlen) (\<lambda>host.
           cbind (rd data (1 + hlen)) (\<lambda>hi.
           cbind (rd data (2 + hlen)) (\<lambda>lo.
           Inr (Some (string_of_bytes host, port_of_bytes hi lo)))))))"

lemma port_of_bytes_split [simp]:
  "port_of_bytes (ucast (drop_bit 8 port)) (ucast (port AND 0xFF)) = port"
proof (rule bit_word_eqI)
  fix n assume n: "n < LENGTH(16)"
  have m: "(0xFF :: u16) = mask 8" by (simp add: mask_eq_exp_minus_1)
  from n show "bit (port_of_bytes (ucast (drop_bit 8 port)) (ucast (port AND 0xFF))) n = bit port n"
    unfolding m by (cases "8 \<le> n") (auto simp: port_of_bytes_def bit_simps byte_no_bit)
qed

lemma split_port_of_bytes:
  "ucast (drop_bit 8 (port_of_bytes hi lo)) = hi" "ucast (port_of_bytes hi lo AND 0xFF) = lo"
proof -
  have m: "(0xFF :: u16) = mask 8" by (simp add: mask_eq_exp_minus_1)
  show "ucast (drop_bit 8 (port_of_bytes hi lo)) = hi"
    by (rule bit_word_eqI) (auto simp: port_of_bytes_def bit_simps byte_no_bit)
  show "ucast (port_of_bytes hi lo AND 0xFF) = lo"
    unfolding m by (rule bit_word_eqI) (auto simp: port_of_bytes_def bit_simps byte_no_bit)
qed

lemma length_encode_syn_payload [simp]: "length (encode_syn_payload host port) = length host + 3"
  by (simp add: encode_syn_payload_def)

lemma unat_host_len: "unat (word_of_nat n :: u8) = n mod 256"
  by (simp add: unat_of_nat take_bit_eq_mod)

text \<open>
  The decoder on the bytes of the encoder: the host comes back cut to its length modulo 256,
  because the length field is one byte.
\<close>

lemma decode_encode_syn_host:
  assumes "decode_syn_payload (encode_syn_payload host port @ rest) len = Inr (Some (h, p))"
  shows "h = take (length host mod 256) host"
  using assms
  by (auto simp: decode_syn_payload_def encode_syn_payload_def rd_def rd_range_def Let_def
      unat_host_len bytes_of_string_def string_of_bytes_def take_map o_def cpp_simps split: if_splits)

lemma decode_long_host:
  assumes "256 \<le> length host"
  shows "decode_syn_payload (encode_syn_payload host port) (length (encode_syn_payload host port)) =
    Inr (Some (take (length host mod 256) host,
      port_of_bytes (bytes_of_string host ! (length host mod 256)) (bytes_of_string host ! (length host mod 256 + 1))))"
proof -
  let ?n = "length host mod 256"
  have n: "?n + 256 \<le> length host" using assms by (metis add.commute add_le_mono1 div_greater_zero_iff div_mod_decomp mult_le_mono1 nat_mult_1 less_eq_Suc_le One_nat_def zero_less_numeral)
  then show ?thesis
    by (simp add: decode_syn_payload_def encode_syn_payload_def rd_def rd_range_def Let_def unat_host_len nth_append
        bytes_of_string_def string_of_bytes_def take_map o_def)
qed

lemma decode_syn_payload_safe: "len \<le> length data \<Longrightarrow> safe (decode_syn_payload data len)"
  by (auto simp: decode_syn_payload_def rd_def rd_range_def Let_def)

lemma rd_append_nth: "i < length a \<Longrightarrow> rd (a @ b) i = rd a i"
  by (simp add: rd_def nth_append)

lemma decode_encode_syn_payload_eq:
  assumes "length host < 256" "length host + 3 \<le> len"
  shows "decode_syn_payload (encode_syn_payload host port @ rest) len = Inr (Some (host, port))"
proof -
  let ?pl = "encode_syn_payload host port @ rest"
  have len: "unat (word_of_nat (length host) :: u8) = length host"
    using assms(1) by (simp add: unat_host_len)
  have hi: "?pl ! (1 + length host) = ucast (drop_bit 8 port)"
    and lo: "?pl ! (2 + length host) = ucast (port AND 0xFF)"
    by (simp_all add: encode_syn_payload_def nth_append)
  have host: "take (length host) (drop 1 ?pl) = bytes_of_string host"
    by (simp add: encode_syn_payload_def)
  have z: "?pl ! 0 = word_of_nat (length host)" by (simp add: encode_syn_payload_def)
  show ?thesis
    using assms(2)
    by (simp add: decode_syn_payload_def rd_def rd_range_def Let_def len hi [simplified] lo [simplified]
        host [simplified] z [simplified] encode_syn_payload_def nth_append)
qed

lemma decode_syn_payload_short:
  "len = 0 \<or> len < unat (data ! 0) + 3 \<Longrightarrow> data \<noteq> [] \<Longrightarrow> decode_syn_payload data len = Inr None"
  by (auto simp: decode_syn_payload_def rd_def Let_def)

subsection \<open>UDP payloads\<close>

text \<open>
  \<open>data_len\<close> is a \<open>size_t\<close>; the length field keeps its low 32 bits. Copying the range
  \<open>[data, data + data_len)\<close> reads that many bytes.
\<close>

definition encode_udp_payload :: "string \<Rightarrow> u16 \<Rightarrow> bytes \<Rightarrow> nat \<Rightarrow> bytes cpp" where
  "encode_udp_payload host port data data_len =
     (let dlen = word_of_nat data_len :: u32 in
      cbind (rd_range data 0 data_len) (\<lambda>body.
      Inr ([word_of_nat (length host)] @ bytes_of_string host @
           [ucast (drop_bit 8 port), ucast (port AND 0xFF)] @
           [ucast (drop_bit 24 dlen AND 0xFF), ucast (drop_bit 16 dlen AND 0xFF),
            ucast (drop_bit 8 dlen AND 0xFF), ucast (dlen AND 0xFF)] @ body)))"

definition be_word32 :: "u8 \<Rightarrow> u8 \<Rightarrow> u8 \<Rightarrow> u8 \<Rightarrow> u32" where
  "be_word32 a b c d =
     push_bit 24 (ucast a) OR push_bit 16 (ucast b) OR push_bit 8 (ucast c) OR ucast d"

text \<open>
  The result is the C++ return value and its out-parameters: \<open>None\<close> for \<open>false\<close>. The
  vector behind \<open>data\<close> is allocated before any check, so a failing call leaves it empty; callers
  that ignore the result see that (\<open>UdpClient::revP2pData\<close>).
\<close>

definition decode_udp_payload :: "bytes \<Rightarrow> nat \<Rightarrow> (string \<times> u16 \<times> bytes) option cpp" where
  "decode_udp_payload buf len =
     (if len < 1 then Inr None
      else cbind (rd buf 0) (\<lambda>b. let host_len = unat b in
      if len - 1 < host_len + 2 + 4 then Inr None
      else cbind (rd_range buf 1 host_len) (\<lambda>host.
           cbind (rd buf (1 + host_len)) (\<lambda>hi.
           cbind (rd buf (2 + host_len)) (\<lambda>lo.
           cbind (rd buf (3 + host_len)) (\<lambda>d3.
           cbind (rd buf (4 + host_len)) (\<lambda>d2.
           cbind (rd buf (5 + host_len)) (\<lambda>d1.
           cbind (rd buf (6 + host_len)) (\<lambda>d0.
           let data_len = unat (be_word32 d3 d2 d1 d0); pos = 7 + host_len in
           if data_len > len - pos then Inr None
           else cbind (rd_range buf pos data_len) (\<lambda>body.
             Inr (Some (string_of_bytes host, port_of_bytes hi lo, body))))))))))))"

lemma be_word32_split [simp]:
  "be_word32 (ucast (drop_bit 24 w AND 0xFF)) (ucast (drop_bit 16 w AND 0xFF))
     (ucast (drop_bit 8 w AND 0xFF)) (ucast (w AND 0xFF)) = w"
proof -
  have m: "ucast (x AND 0xFF) = (ucast x :: u8)" for x :: u32
    by (rule bit_word_eqI) (auto simp: byte_masks(1) bit_simps)
  have "be_word32 (ucast (drop_bit 24 w)) (ucast (drop_bit 16 w)) (ucast (drop_bit 8 w)) (ucast w)
      = le_load32 (le_store32 w)"
    by (simp add: be_word32_def le_load32_def le_store32_def or.commute or.left_commute or.assoc)
  then show ?thesis by (simp add: m)
qed

lemma encode_udp_payload_ok:
  "data_len \<le> length data \<Longrightarrow> \<exists>pl. encode_udp_payload host port data data_len = Inr pl"
  by (auto simp: encode_udp_payload_def rd_range_def Let_def)

lemma unat_data_len: "n < 2 ^ 32 \<Longrightarrow> unat (word_of_nat n :: u32) = n"
  by (simp add: unat_of_nat take_bit_nat_eq_self)

lemma decode_encode_udp_payload_eq:
  assumes "length host < 256" "length data < 2 ^ 32"
    and "encode_udp_payload host port data (length data) = Inr pl"
  shows "decode_udp_payload (pl @ rest) (length pl + length rest) = Inr (Some (host, port, data))"
proof -
  let ?d = "word_of_nat (length data) :: u32"
  let ?h = "length host"
  have pl: "pl = word_of_nat ?h # bytes_of_string host @
      [ucast (drop_bit 8 port), ucast (port AND 0xFF),
       ucast (drop_bit 24 ?d AND 0xFF), ucast (drop_bit 16 ?d AND 0xFF),
       ucast (drop_bit 8 ?d AND 0xFF), ucast (?d AND 0xFF)] @ data"
    using assms(3) by (auto simp: encode_udp_payload_def Let_def)
  have len: "unat (word_of_nat ?h :: u8) = ?h"
    using assms(1) by (simp add: unat_host_len)
  have nths: "(pl @ rest) ! (1 + ?h) = ucast (drop_bit 8 port)"
      "(pl @ rest) ! (2 + ?h) = ucast (port AND 0xFF)"
      "(pl @ rest) ! (3 + ?h) = ucast (drop_bit 24 ?d AND 0xFF)"
      "(pl @ rest) ! (4 + ?h) = ucast (drop_bit 16 ?d AND 0xFF)"
      "(pl @ rest) ! (5 + ?h) = ucast (drop_bit 8 ?d AND 0xFF)"
      "(pl @ rest) ! (6 + ?h) = ucast (?d AND 0xFF)"
      "(pl @ rest) ! 0 = word_of_nat ?h"
    by (simp_all add: pl nth_append)
  define hd where "hd = word_of_nat ?h # bytes_of_string host @
      [ucast (drop_bit 8 port), ucast (port AND 0xFF),
       ucast (drop_bit 24 ?d AND 0xFF), ucast (drop_bit 16 ?d AND 0xFF),
       ucast (drop_bit 8 ?d AND 0xFF), ucast (?d AND 0xFF)]"
  have hd: "pl = hd @ data" "length hd = 7 + ?h"
    by (simp_all add: pl hd_def)
  have parts: "take ?h (drop 1 pl) = bytes_of_string host"
      "take (length data) (drop (7 + ?h) pl) = data"
    by (simp add: pl) (simp add: hd)
  have lpl: "length pl = 7 + ?h + length data" by (simp add: pl)
  show ?thesis
    unfolding decode_udp_payload_def Let_def
    by (simp add: rd_def rd_range_def lpl len nths [simplified] parts(1) [simplified] parts(2)
        unat_data_len [OF assms(2)] del: be_word32_split)
      (simp add: unat_data_len [OF assms(2)] parts(2))
qed

lemma decode_udp_payload_safe: "len \<le> length buf \<Longrightarrow> safe (decode_udp_payload buf len)"
  by (auto simp: decode_udp_payload_def rd_def rd_range_def Let_def)

subsection \<open>Data channel messages\<close>

definition htonl :: "u32 \<Rightarrow> u32" where
  "htonl v = le_load32 (rev (le_store32 v))"

definition packMessage :: "bytes \<Rightarrow> nat \<Rightarrow> bytes cpp" where
  "packMessage data len =
     (if len > 0xFFFFFFFF then Inl LengthError
      else cbind (rd_range data 0 len) (\<lambda>body.
           Inr (le_store32 (htonl (word_of_nat len)) @ body)))"

definition unpackMessage :: "bytes \<Rightarrow> nat \<Rightarrow> (bytes \<times> u32) option cpp" where
  "unpackMessage data sz =
     (if sz < 4 then Inr None
      else cbind (rd_range data 0 4) (\<lambda>n.
           let len = htonl (le_load32 n) in
           if unat len > sz - 4 then Inr None
           else Inr (Some (drop 4 data, len))))"

lemma htonl_htonl [simp]: "htonl (htonl v) = v"
  by (simp add: htonl_def le_store_load32)

lemma unpackMessage_safe: "sz \<le> length data \<Longrightarrow> safe (unpackMessage data sz)"
  by (auto simp: unpackMessage_def rd_range_def Let_def)

lemma packMessage_eq:
  "length data < 2 ^ 32 \<Longrightarrow>
   packMessage data (length data) = Inr (le_store32 (htonl (word_of_nat (length data))) @ data)"
  by (simp add: packMessage_def)

lemma unpack_pack_eq:
  assumes "packMessage data (length data) = Inr msg"
  shows "unpackMessage msg (length msg) = Inr (Some (data, word_of_nat (length data)))"
  using assms
  by (auto simp: packMessage_def unpackMessage_def Let_def rd_range_def unat_data_len
      cpp_simps split: if_splits)

subsection \<open>Request targets\<close>

definition http_prefix :: string where "http_prefix = ''http://''"
definition https_prefix :: string where "https_prefix = ''https://''"

definition ToOriginForm :: "string \<Rightarrow> string" where
  "ToOriginForm target =
     (if target = [] then ''/''
      else if target ! 0 = CHR ''/'' then target
      else if take (length http_prefix) target = http_prefix then
        (case str_find target (CHR ''/'') (length http_prefix) of
           None \<Rightarrow> ''/'' | Some pos \<Rightarrow> drop pos target)
      else if take (length https_prefix) target = https_prefix then
        (case str_find target (CHR ''/'') (length https_prefix) of
           None \<Rightarrow> ''/'' | Some pos \<Rightarrow> drop pos target)
      else target)"

lemma ToOriginForm_cases:
  "ToOriginForm t = t \<and> t \<noteq> [] \<or> ToOriginForm t \<noteq> [] \<and> hd (ToOriginForm t) = CHR ''/''"
  by (auto simp: ToOriginForm_def hd_drop_conv_nth split: option.splits dest!: str_find_Some)

lemma ToOriginForm_slash: "t \<noteq> [] \<Longrightarrow> hd t = CHR ''/'' \<Longrightarrow> ToOriginForm t = t"
  by (simp add: ToOriginForm_def hd_conv_nth)

lemma ToOriginForm_idem: "ToOriginForm (ToOriginForm t) = ToOriginForm t"
  using ToOriginForm_cases [of t] ToOriginForm_slash by metis

lemma ToOriginForm_http:
  assumes "CHR ''/'' \<notin> set authority"
  shows "ToOriginForm (http_prefix @ authority @ CHR ''/'' # path) = CHR ''/'' # path"
  using assms
  by (simp add: ToOriginForm_def http_prefix_def https_prefix_def str_find_def find_char_append)

lemma ToOriginForm_https:
  assumes "CHR ''/'' \<notin> set authority"
  shows "ToOriginForm (https_prefix @ authority @ CHR ''/'' # path) = CHR ''/'' # path"
  using assms
  by (simp add: ToOriginForm_def http_prefix_def https_prefix_def str_find_def find_char_append)

lemma ToOriginForm_bare:
  assumes "CHR ''/'' \<notin> set authority"
  shows "ToOriginForm (http_prefix @ authority) = ''/''"
  using assms find_char_None [of "CHR ''/''" authority]
  by (simp add: ToOriginForm_def http_prefix_def str_find_def)

lemma ToOriginForm_other:
  "t \<noteq> [] \<Longrightarrow> take 7 t \<noteq> http_prefix \<Longrightarrow> take 8 t \<noteq> https_prefix \<Longrightarrow> ToOriginForm t = t"
  by (simp add: ToOriginForm_def http_prefix_def https_prefix_def eval_nat_numeral)

subsection \<open>The payload formats as codecs\<close>

interpretation syn_codec: codec
  "\<lambda>(host, port). Inr (encode_syn_payload host port)"
  "\<lambda>bs. decode_syn_payload bs (length bs)"
  "\<lambda>(host, port). length host < 256"
proof (unfold_locales, goal_cases)
  case (2 a bs)
  then show ?case
    using decode_encode_syn_payload_eq [of "fst a" "length (fst a) + 3" "snd a" "[]"]
    by (auto split: prod.splits)
qed (auto split: prod.splits)

interpretation udp_codec: codec
  "\<lambda>(host, port, data). encode_udp_payload host port data (length data)"
  "\<lambda>bs. decode_udp_payload bs (length bs)"
  "\<lambda>(host, port, data). length host < 256 \<and> length data < 2 ^ 32"
proof (unfold_locales, goal_cases)
  case (1 a)
  then show ?case using encode_udp_payload_ok by (auto split: prod.splits)
next
  case (2 a bs)
  then show ?case
    using decode_encode_udp_payload_eq [of "fst a" "snd (snd a)" "fst (snd a)" bs "[]"]
    by (auto split: prod.splits)
qed

interpretation message_codec: codec
  "\<lambda>data. packMessage data (length data)"
  "\<lambda>msg. cbind (unpackMessage msg (length msg)) (\<lambda>r. Inr (map_option (\<lambda>(p, n). take (unat n) p) r))"
  "\<lambda>data. length data < 2 ^ 32"
proof (unfold_locales, goal_cases)
  case (1 a)
  then show ?case by (simp add: packMessage_eq)
next
  case (2 a bs)
  then show ?case by (simp add: unpack_pack_eq unat_data_len)
qed

subsection \<open>Properties\<close>

text \<open>A frame built by \<open>make_frame\<close> decodes to the header it was built from, for every stream
id, every frame type and protocol byte, and the payload follows the six header bytes unchanged.\<close>
theorem frame_header_roundtrip:
  assumes "wf_frame_type t" "wf_protocol p"
  shows "FrameHeader_decode (make_frame sid t p payload) (length (make_frame sid t p payload)) =
           Inr (Some \<lparr>fh_stream_id = sid, fh_type = t, fh_protocol = p\<rparr>) \<and>
         drop kSize (make_frame sid t p payload) = payload"
  by (simp add: FrameHeader_decode_make_frame assms)

theorem frame_header_roundtrip_witness:
  "FrameHeader_decode (make_frame 0x01020304 DATA HttpPlain [7, 8]) 8 =
     Inr (Some \<lparr>fh_stream_id = 0x01020304, fh_type = DATA, fh_protocol = HttpPlain\<rparr>)"
  using frame_header_roundtrip [of DATA HttpPlain "0x01020304" "[7, 8]"] by simp

text \<open>C16: A SYN payload round-trips exactly when the host name is shorter than 256 bytes. The length field
is one byte, so a longer host is cut to its length modulo 256 with no error on either side, and the two
bytes of the host behind the cut are taken for the port.\<close>
theorem syn_payload_roundtrip:
  "(decode_syn_payload (encode_syn_payload host port) (length (encode_syn_payload host port)) =
      Inr (Some (host, port)) \<longleftrightarrow> length host < 256) \<and>
   (256 \<le> length host \<longrightarrow>
     decode_syn_payload (encode_syn_payload host port) (length (encode_syn_payload host port)) =
       Inr (Some (take (length host mod 256) host,
         port_of_bytes (bytes_of_string host ! (length host mod 256)) (bytes_of_string host ! (length host mod 256 + 1)))))"
proof (intro conjI impI iffI)
  assume "decode_syn_payload (encode_syn_payload host port)
    (length (encode_syn_payload host port)) = Inr (Some (host, port))"
  then have "host = take (length host mod 256) host"
    using decode_encode_syn_host [of host port "[]"] by auto
  then have "length host = length (take (length host mod 256) host)" by (rule arg_cong)
  then have "length host \<le> length host mod 256" by simp
  moreover have "length host mod 256 < 256" by simp
  ultimately show "length host < 256" by linarith
next
  assume "length host < 256"
  then show "decode_syn_payload (encode_syn_payload host port)
    (length (encode_syn_payload host port)) = Inr (Some (host, port))"
    using decode_encode_syn_payload_eq [of host "length host + 3" port "[]"] by simp
next
  assume "256 \<le> length host"
  then show "decode_syn_payload (encode_syn_payload host port) (length (encode_syn_payload host port)) =
    Inr (Some (take (length host mod 256) host,
      port_of_bytes (bytes_of_string host ! (length host mod 256)) (bytes_of_string host ! (length host mod 256 + 1))))"
    by (rule decode_long_host)
qed

theorem syn_payload_roundtrip_witness:
  "decode_syn_payload (encode_syn_payload (replicate 256 CHR ''a'') 80)
      (length (encode_syn_payload (replicate 256 CHR ''a'') 80)) = Inr (Some ([], 24929))"
proof -
  have "port_of_bytes (bytes_of_string (replicate 256 CHR ''a'') ! 0) (bytes_of_string (replicate 256 CHR ''a'') ! 1) = 24929"
    by (simp add: bytes_of_string_def byte_of_char_def port_of_bytes_def)
  with syn_payload_roundtrip [of "replicate 256 CHR ''a''" 80] show ?thesis by simp
qed

text \<open>A UDP payload (host, port, data) decodes to what was encoded, also when the buffer holds
more bytes after it; two different payloads never encode to the same bytes.\<close>
theorem udp_payload_roundtrip:
  assumes "length host < 256" "length data < 2 ^ 32"
    and "encode_udp_payload host port data (length data) = Inr pl"
  shows "decode_udp_payload (pl @ rest) (length pl + length rest) = Inr (Some (host, port, data)) \<and>
    (length host' < 256 \<and> length data' < 2 ^ 32 \<and>
     encode_udp_payload host' port' data' (length data') = Inr pl \<longrightarrow>
       (host', port', data') = (host, port, data))"
  using assms decode_encode_udp_payload_eq
    udp_codec.enc_inject [of "(host', port', data')" "(host, port, data)"] by auto

theorem udp_payload_roundtrip_witness:
  "\<exists>pl. encode_udp_payload ''1.2.3.4'' 53 [1, 2] (length [1, 2 :: u8]) = Inr pl \<and>
     decode_udp_payload (pl @ [9]) (length pl + length [9 :: u8]) = Inr (Some (''1.2.3.4'', 53, [1, 2]))"
proof -
  obtain pl where pl: "encode_udp_payload ''1.2.3.4'' 53 [1, 2] (length [1, 2 :: u8]) = Inr pl"
    using encode_udp_payload_ok by blast
  have h: "length ''1.2.3.4'' < 256" "length [1, 2 :: u8] < 2 ^ 32" by simp_all
  show ?thesis using pl udp_payload_roundtrip [OF h pl, of "[9]"] by blast
qed

text \<open>C14: No decoder reads past the bytes it was given: on any bytes from the network and any
length up to their number, every decoder returns, with a value or a rejection.\<close>
theorem decoders_memory_safe:
  assumes "len \<le> length data"
  shows "safe (FrameHeader_decode data len) \<and> safe (decode_syn_payload data len) \<and>
    safe (decode_udp_payload data len) \<and> safe (unpackMessage data len)"
  using assms FrameHeader_decode_safe decode_syn_payload_safe decode_udp_payload_safe
    unpackMessage_safe by blast

theorem decoders_memory_safe_witness:
  "safe (decode_syn_payload [5, 1, 0] 3) \<and> safe (decode_udp_payload [5, 1, 0] 3)"
  using decoders_memory_safe [of 3 "[5, 1, 0]"] by simp

text \<open>The length prefix of a data channel message: packing then unpacking gives the payload and
its length; packing throws exactly above \<open>UINT32_MAX\<close>; and whatever arrives, an accepted message
announces no more bytes than there are after the prefix.\<close>
theorem message_prefix:
  "(length data < 2 ^ 32 \<longrightarrow>
      cbind (packMessage data (length data)) (\<lambda>m. unpackMessage m (length m)) =
        Inr (Some (data, word_of_nat (length data)))) \<and>
   (2 ^ 32 \<le> length data \<longrightarrow> packMessage data (length data) = Inl LengthError) \<and>
   (unpackMessage msg (length msg) = Inr (Some (payload, n)) \<longrightarrow>
      payload = drop 4 msg \<and> unat n \<le> length payload)"
proof (intro conjI impI)
  assume "length data < 2 ^ 32"
  then show "cbind (packMessage data (length data)) (\<lambda>m. unpackMessage m (length m)) =
        Inr (Some (data, word_of_nat (length data)))"
    using unpack_pack_eq [OF packMessage_eq] by (simp add: packMessage_eq)
qed (auto simp: packMessage_def unpackMessage_def Let_def cpp_simps split: if_splits)

theorem message_prefix_witness:
  "cbind (packMessage [1, 2, 3] (length [1, 2, 3 :: u8])) (\<lambda>m. unpackMessage m (length m)) =
     Inr (Some ([1, 2, 3], 3))"
  using message_prefix [of "[1, 2, 3]" "[]" "[]" 0] by simp

text \<open>\<open>ToOriginForm\<close> is idempotent, gives the path of an absolute http target, and leaves
every target that is neither absolute http(s) nor empty as it is.\<close>
theorem origin_form:
  "ToOriginForm (ToOriginForm t) = ToOriginForm t \<and>
   (CHR ''/'' \<notin> set authority \<longrightarrow>
      ToOriginForm (http_prefix @ authority @ CHR ''/'' # path) = CHR ''/'' # path \<and>
      ToOriginForm (https_prefix @ authority @ CHR ''/'' # path) = CHR ''/'' # path \<and>
      ToOriginForm (http_prefix @ authority) = ''/'') \<and>
   (t \<noteq> [] \<and> take 7 t \<noteq> http_prefix \<and> take 8 t \<noteq> https_prefix \<longrightarrow> ToOriginForm t = t)"
  using ToOriginForm_idem ToOriginForm_http ToOriginForm_https ToOriginForm_bare ToOriginForm_other
  by blast

theorem origin_form_witness:
  "ToOriginForm (http_prefix @ ''a.b:80'' @ CHR ''/'' # ''x'') = ''/x''"
  using origin_form [of "[]" "''a.b:80''" "''x''"] by simp

end
