(* ===== verification/SessionIds.thy ===== *)
theory SessionIds
  imports SessionProtocol
begin

text \<open>
  \<open>Src/common/src/session_id_generator.cpp\<close>: the counter that numbers local sessions. The server
  numbers its clients with the same code (\<open>ProcessNewWsClient::create_session_id\<close>); both provide
  the interface \<open>id_source\<close>.
\<close>

locale id_source =
  fixes next_id :: "'s \<Rightarrow> u32 \<times> 's"
    and cur :: "'s \<Rightarrow> u32"
  assumes next_id_value: "next_id s = (i, s') \<Longrightarrow> unat (cur s) \<le> 65536 \<Longrightarrow>
    cur s' = i \<and> unat i = unat (cur s) mod 65536 + 1"
begin

fun ids :: "nat \<Rightarrow> 's \<Rightarrow> u32 list" where
  "ids 0 s = []"
| "ids (Suc n) s = (case next_id s of (i, s') \<Rightarrow> i # ids n s')"

lemma ids_nth:
  assumes "unat (cur s) \<le> 65536" "k < n"
  shows "unat (ids n s ! k) = (unat (cur s) + k) mod 65536 + 1"
  using assms
proof (induction n arbitrary: s k)
  case (Suc n)
  obtain i s' where n: "next_id s = (i, s')" by fastforce
  note v = next_id_value [OF n Suc.prems(1)]
  show ?case
  proof (cases k)
    case (Suc j)
    have "unat i \<le> 65536" using v by (auto simp: Suc_le_eq)
    with Suc.IH [of s' j] Suc.prems(2) Suc v
    have "unat (ids n s' ! j) = (unat i + j) mod 65536 + 1" by simp
    also have "unat i + j = unat (cur s) mod 65536 + k" using v Suc by simp
    also have "\<dots> mod 65536 = (unat (cur s) + k) mod 65536" by (rule mod_add_left_eq)
    finally show ?thesis using n Suc by simp
  qed (use n v in simp)
qed simp

lemma length_ids [simp]: "length (ids n s) = n"
  by (induction n arbitrary: s) (auto split: prod.splits)

lemma ids_range:
  "unat (cur s) \<le> 65536 \<Longrightarrow> i \<in> set (ids n s) \<Longrightarrow> 1 \<le> unat i \<and> unat i \<le> 65536"
  by (auto simp: in_set_conv_nth ids_nth Suc_le_eq)

lemma distinct_ids:
  assumes "unat (cur s) \<le> 65536" "n \<le> 65536"
  shows "distinct (ids n s)"
proof -
  have neq: "ids n s ! j \<noteq> ids n s ! k" if "j < k" "k < n" for j k
  proof
    assume eq: "ids n s ! j = ids n s ! k"
    from that have "j < n" by simp
    have "(unat (cur s) + k) mod 65536 = (unat (cur s) + j) mod 65536"
      using ids_nth [OF assms(1) \<open>j < n\<close>] ids_nth [OF assms(1) that(2)] eq by simp
    then have "65536 dvd (unat (cur s) + k) - (unat (cur s) + j)"
      using that(1) by (subst (asm) mod_eq_dvd_iff_nat) simp_all
    then have "65536 dvd k - j" by simp
    then show False
      using that assms(2) by (auto dest: dvd_imp_le)
  qed
  show ?thesis
    unfolding distinct_conv_nth
  proof (intro allI impI)
    fix j k assume "j < length (ids n s)" "k < length (ids n s)" "j \<noteq> k"
    then show "ids n s ! j \<noteq> ids n s ! k"
      using neq [of j k] neq [of k j] by (cases j k rule: linorder_cases) auto
  qed
qed

end

text \<open>\<open>SessionIdGenerator::create_session_id\<close>: the state is the member \<open>id_\<close>, starting at 0.\<close>

definition create_session_id :: "u32 \<Rightarrow> u32 \<times> u32" where
  "create_session_id c = (let i = (if c > 65535 then 0 else c) in (i + 1, i + 1))"

lemma create_session_id_step:
  assumes "create_session_id c = (i, c')" "unat c \<le> 65536"
  shows "c' = i \<and> unat i = unat c mod 65536 + 1"
proof (cases "c > 65535")
  case True
  then have "unat c > 65535" by (simp add: word_less_nat_alt)
  with assms(2) have "unat c = 65536" by simp
  with assms True show ?thesis by (simp add: create_session_id_def)
next
  case False
  then have "unat c \<le> 65535" by (simp add: word_less_nat_alt)
  then have "unat (c + 1) = unat c + 1" by (simp add: unat_word_ariths)
  with assms False \<open>unat c \<le> 65535\<close> show ?thesis by (auto simp: create_session_id_def)
qed

interpretation generator: id_source create_session_id "\<lambda>c. c"
  by unfold_locales (rule create_session_id_step)

text \<open>The ids of \<open>n\<close> consecutive calls.\<close>

fun session_ids :: "nat \<Rightarrow> u32 \<Rightarrow> u32 list" where
  "session_ids 0 c = []"
| "session_ids (Suc n) c = (case create_session_id c of (i, c') \<Rightarrow> i # session_ids n c')"

lemma session_ids_eq: "session_ids n c = generator.ids n c"
  by (induction n arbitrary: c) (auto split: prod.splits)

text \<open>Session ids are between 1 and 65536, they count up from 1, and no id is handed out twice
among the first 65536 calls.\<close>
theorem session_ids_distinct:
  assumes "n \<le> 65536"
  shows "distinct (session_ids n 0) \<and> (\<forall>i\<in>set (session_ids n 0). 1 \<le> unat i \<and> unat i \<le> 65536) \<and>
    map unat (session_ids n 0) = [1..<n + 1]"
proof -
  have "map unat (generator.ids n 0) = [1..<n + 1]"
    using assms generator.ids_nth [of 0 _ n] by (intro nth_equalityI) (auto simp del: upt_Suc)
  then show ?thesis
    using assms generator.distinct_ids [of 0 n] generator.ids_range [of 0 _ n]
    by (simp add: session_ids_eq)
qed

theorem session_ids_distinct_witness: "map unat (session_ids 3 0) = [1, 2, 3]"
  using session_ids_distinct [of 3] by (simp add: upt_rec)

text \<open>The counter wraps: the call after id 65536 hands out id 1 again, and from any state the
id is the previous one modulo 65536 plus one.\<close>
theorem session_id_wraps:
  assumes "unat c \<le> 65536"
  shows "\<exists>i. create_session_id c = (i, i) \<and> unat i = unat c mod 65536 + 1"
  using create_session_id_step [OF _ assms] by (cases "create_session_id c") auto

theorem session_id_wraps_witness: "\<exists>i. create_session_id 65536 = (i, i) \<and> unat i = 1"
  using session_id_wraps [of 65536] by simp

end
