(* ===== verification/SessionMux.thy ===== *)
theory SessionMux
  imports SessionProtocol
begin

text \<open>
  \<open>Src/common/include/session_mux.h\<close> and \<open>Src/common/src/session_mux.cpp\<close>: the sessions of one
  P2P connection, the table of live sessions by stream id and the multiplexer that turns frames
  into calls of a session's callbacks and the program's requests into frames.

  A \<open>Session\<close> object is shared: the table, and whoever created it, hold pointers to it, and a
  callback set through one pointer is seen through the other. So the model has an explicit store
  of session objects, and the table maps a stream id to an address. \<open>'c\<close> is what a callback
  (a \<open>std::function\<close>) captures: the object whose method it calls. An empty \<open>std::function\<close> is
  \<open>None\<close>.
\<close>

subsection \<open>Session objects\<close>

record 'c session =
  on_data :: "'c option"
  on_synack :: "'c option"
  on_close :: "'c option"
  on_data_ctrl :: "'c option"
  sess_stream_id :: u32

definition Session_new :: "u32 \<Rightarrow> 'c session" where
  "Session_new sid =
     \<lparr>on_data = None, on_synack = None, on_close = None, on_data_ctrl = None, sess_stream_id = sid\<rparr>"

definition set_on_data :: "'c \<Rightarrow> 'c session \<Rightarrow> 'c session" where
  "set_on_data cb s = s\<lparr>on_data := Some cb\<rparr>"

definition set_on_synack :: "'c \<Rightarrow> 'c session \<Rightarrow> 'c session" where
  "set_on_synack cb s = s\<lparr>on_synack := Some cb\<rparr>"

definition set_on_close :: "'c \<Rightarrow> 'c session \<Rightarrow> 'c session" where
  "set_on_close cb s = s\<lparr>on_close := Some cb\<rparr>"

definition set_on_data_ctrl :: "'c \<Rightarrow> 'c session \<Rightarrow> 'c session" where
  "set_on_data_ctrl cb s = s\<lparr>on_data_ctrl := Some cb\<rparr>"

subsection \<open>The session manager\<close>

type_synonym sess_ptr = nat

record 'c session_manager =
  store :: "sess_ptr \<Rightarrow> 'c session option"
  next_ptr :: sess_ptr
  sessions :: "u32 \<Rightarrow> sess_ptr option"

definition SessionManager_new :: "'c session_manager" where
  "SessionManager_new = \<lparr>store = (\<lambda>_. None), next_ptr = 0, sessions = (\<lambda>_. None)\<rparr>"

text \<open>
  The loop draws from \<open>std::uniform_int_distribution(1, 0xFFFFFFFE)\<close> until an id is free. The
  draws are an argument; running out of them is a loop that has not returned yet.
\<close>

fun gen_stream_id :: "'c session_manager \<Rightarrow> u32 list \<Rightarrow> (u32 \<times> u32 list) option" where
  "gen_stream_id m [] = None"
| "gen_stream_id m (d # ds) = (if sessions m d = None then Some (d, ds) else gen_stream_id m ds)"

definition find_session :: "'c session_manager \<Rightarrow> u32 \<Rightarrow> sess_ptr option" where
  "find_session m sid = sessions m sid"

definition create_session_at :: "'c session_manager \<Rightarrow> u32 \<Rightarrow> sess_ptr \<times> 'c session_manager" where
  "create_session_at m sid =
     (let p = next_ptr m in
      (p, m\<lparr>store := (store m)(p \<mapsto> Session_new sid), next_ptr := Suc p,
            sessions := (sessions m)(sid \<mapsto> p)\<rparr>))"

definition create_session ::
  "'c session_manager \<Rightarrow> u32 list \<Rightarrow> (sess_ptr \<times> 'c session_manager \<times> u32 list) option" where
  "create_session m draws =
     (case gen_stream_id m draws of None \<Rightarrow> None
      | Some (sid, ds) \<Rightarrow> (case create_session_at m sid of (p, m') \<Rightarrow> Some (p, m', ds)))"

definition remove_session :: "u32 \<Rightarrow> 'c session_manager \<Rightarrow> 'c session_manager" where
  "remove_session sid m = m\<lparr>sessions := (sessions m)(sid := None)\<rparr>"

definition register_session :: "sess_ptr \<Rightarrow> 'c session_manager \<Rightarrow> 'c session_manager cpp" where
  "register_session p m =
     (case store m p of None \<Rightarrow> Inl NullDeref
      | Some s \<Rightarrow> Inr (m\<lparr>sessions := (sessions m)(sess_stream_id s \<mapsto> p)\<rparr>))"

text \<open>Setting a callback through a pointer changes the object the table points to as well.\<close>

definition update_session ::
  "sess_ptr \<Rightarrow> ('c session \<Rightarrow> 'c session) \<Rightarrow> 'c session_manager \<Rightarrow> 'c session_manager" where
  "update_session p f m = m\<lparr>store := (store m)(p := map_option f (store m p))\<rparr>"

text \<open>
  Every address in the table or handed out is an object, and an object found under an id carries
  that id.
\<close>

definition wf_manager :: "'c session_manager \<Rightarrow> bool" where
  "wf_manager m \<longleftrightarrow>
     (\<forall>sid p. sessions m sid = Some p \<longrightarrow>
        (\<exists>s. store m p = Some s \<and> sess_stream_id s = sid)) \<and>
     (\<forall>p. next_ptr m \<le> p \<longrightarrow> store m p = None)"

lemma wf_managerE:
  assumes "wf_manager m" "sessions m sid = Some p"
  obtains s where "store m p = Some s" "sess_stream_id s = sid"
  using assms by (auto simp: wf_manager_def)

lemma wf_manager_fresh: "wf_manager m \<Longrightarrow> next_ptr m \<le> p \<Longrightarrow> store m p = None"
  by (simp add: wf_manager_def)

text \<open>Live sessions have different objects, so there are finitely many.\<close>

lemma wf_manager_finite:
  assumes "wf_manager m"
  shows "finite (dom (sessions m))"
proof (rule finite_surj)
  show "finite {..<next_ptr m}" by simp
  show "dom (sessions m) \<subseteq> (\<lambda>p. sess_stream_id (the (store m p))) ` {..<next_ptr m}"
  proof
    fix sid assume "sid \<in> dom (sessions m)"
    then obtain p where "sessions m sid = Some p" by blast
    with assms obtain s where s: "store m p = Some s" "sess_stream_id s = sid" by (rule wf_managerE)
    with wf_manager_fresh [OF assms] have "p < next_ptr m" by (metis not_le option.distinct(1))
    with s show "sid \<in> (\<lambda>p. sess_stream_id (the (store m p))) ` {..<next_ptr m}"
      by (intro image_eqI [of _ _ p]) simp_all
  qed
qed

lemma wf_manager_new: "wf_manager SessionManager_new"
  by (simp add: wf_manager_def SessionManager_new_def)

lemma wf_create_session_at:
  assumes "wf_manager m" "create_session_at m sid = (p, m')"
  shows "wf_manager m'"
proof -
  from assms(2) have p: "p = next_ptr m" and m': "m' = m\<lparr>store := (store m)(p \<mapsto> Session_new sid),
      next_ptr := Suc p, sessions := (sessions m)(sid \<mapsto> p)\<rparr>"
    by (auto simp: create_session_at_def Let_def)
  have fresh: "store m (next_ptr m) = None" using assms(1) by (simp add: wf_manager_def)
  have "sessions m s \<noteq> Some (next_ptr m)" for s
    using fresh by (auto elim: wf_managerE [OF assms(1)])
  with assms(1) show ?thesis
    by (auto simp: m' p wf_manager_def Session_new_def)
qed

lemma wf_remove_session: "wf_manager m \<Longrightarrow> wf_manager (remove_session sid m)"
  by (auto simp: wf_manager_def remove_session_def)

lemma wf_register_session:
  "wf_manager m \<Longrightarrow> register_session p m = Inr m' \<Longrightarrow> wf_manager m'"
  by (fastforce simp: wf_manager_def register_session_def split: option.splits if_splits)

lemma wf_update_session:
  "wf_manager m \<Longrightarrow> (\<And>s. sess_stream_id (f s) = sess_stream_id s) \<Longrightarrow> wf_manager (update_session p f m)"
  by (fastforce simp: wf_manager_def update_session_def)

lemma gen_stream_id_Some:
  "gen_stream_id m draws = Some (sid, ds) \<Longrightarrow>
     sessions m sid = None \<and> (\<exists>used. draws = used @ sid # ds \<and> (\<forall>d\<in>set used. sessions m d \<noteq> None))"
proof (induction m draws rule: gen_stream_id.induct)
  case (2 m d draws)
  show ?case
  proof (cases "sessions m d = None")
    case True
    with 2 show ?thesis by auto
  next
    case False
    with 2 obtain used where "sessions m sid = None" "draws = used @ sid # ds"
        "\<forall>d\<in>set used. sessions m d \<noteq> None" by auto
    with False show ?thesis by (intro conjI exI [of _ "d # used"]) auto
  qed
qed simp

lemma gen_stream_id_returns:
  "d \<in> set draws \<Longrightarrow> sessions m d = None \<Longrightarrow>
     \<exists>sid ds. gen_stream_id m draws = Some (sid, ds)"
  by (induction draws) auto

interpretation stream_table: id_table find_session
  "\<lambda>sid p m. m\<lparr>sessions := (sessions m)(sid \<mapsto> p)\<rparr>" remove_session
  by unfold_locales (auto simp: find_session_def remove_session_def)

subsection \<open>The multiplexer\<close>

record 'c session_mux =
  manager :: "'c session_manager"
  send_func_set :: bool
  peer_conn_id :: u32
  on_syn_set :: bool

definition SessionMux_new :: "u32 \<Rightarrow> 'c session_mux" where
  "SessionMux_new peer =
     \<lparr>manager = SessionManager_new, send_func_set = False, peer_conn_id = peer, on_syn_set = False\<rparr>"

definition set_send_func :: "'c session_mux \<Rightarrow> 'c session_mux" where
  "set_send_func x = x\<lparr>send_func_set := True\<rparr>"

definition set_on_syn :: "'c session_mux \<Rightarrow> 'c session_mux" where
  "set_on_syn x = x\<lparr>on_syn_set := True\<rparr>"

definition SessionMux_create_session ::
  "'c session_mux \<Rightarrow> u32 list \<Rightarrow> (sess_ptr \<times> 'c session_mux \<times> u32 list) option" where
  "SessionMux_create_session x draws =
     (case create_session (manager x) draws of None \<Rightarrow> None
      | Some (p, m, ds) \<Rightarrow> Some (p, x\<lparr>manager := m\<rparr>, ds))"

definition SessionMux_create_session_at :: "'c session_mux \<Rightarrow> u32 \<Rightarrow> sess_ptr \<times> 'c session_mux" where
  "SessionMux_create_session_at x sid =
     (case create_session_at (manager x) sid of (p, m) \<Rightarrow> (p, x\<lparr>manager := m\<rparr>))"

definition SessionMux_register_session :: "sess_ptr \<Rightarrow> 'c session_mux \<Rightarrow> 'c session_mux cpp" where
  "SessionMux_register_session p x =
     cbind (register_session p (manager x)) (\<lambda>m. Inr (x\<lparr>manager := m\<rparr>))"

definition SessionMux_remove_session :: "u32 \<Rightarrow> 'c session_mux \<Rightarrow> 'c session_mux" where
  "SessionMux_remove_session sid x = x\<lparr>manager := remove_session sid (manager x)\<rparr>"

text \<open>Requests become one call of the send function with the peer's connection id and a frame.\<close>

definition mux_send :: "'c session_mux \<Rightarrow> bytes \<Rightarrow> (u32 \<times> bytes) option" where
  "mux_send x frame = (if send_func_set x then Some (peer_conn_id x, frame) else None)"

definition send_syn ::
  "'c session_mux \<Rightarrow> u32 \<Rightarrow> string \<Rightarrow> u16 \<Rightarrow> protocol \<Rightarrow> (u32 \<times> bytes) option" where
  "send_syn x sid host port p = mux_send x (make_frame sid SYN p (encode_syn_payload host port))"

definition send_synack :: "'c session_mux \<Rightarrow> u32 \<Rightarrow> bool \<Rightarrow> protocol \<Rightarrow> (u32 \<times> bytes) option" where
  "send_synack x sid ok p = mux_send x (make_frame sid SYNACK p [if ok then 0 else 1])"

definition send_data ::
  "'c session_mux \<Rightarrow> u32 \<Rightarrow> bytes \<Rightarrow> nat \<Rightarrow> protocol \<Rightarrow> (u32 \<times> bytes) option cpp" where
  "send_data x sid data len p =
     cbind (rd_range data 0 len) (\<lambda>body. Inr (mux_send x (make_frame sid DATA p body)))"

definition send_fin :: "'c session_mux \<Rightarrow> u32 \<Rightarrow> protocol \<Rightarrow> (u32 \<times> bytes) option" where
  "send_fin x sid p = mux_send x (make_frame sid FIN p [])"

definition send_data_ctrl ::
  "'c session_mux \<Rightarrow> u32 \<Rightarrow> ctrl_type \<Rightarrow> protocol \<Rightarrow> (u32 \<times> bytes) option" where
  "send_data_ctrl x sid t p =
     mux_send x (make_frame sid DATA_CTRL p [if t = CtrlReceive then 0 else 1])"

text \<open>
  What a received frame makes the multiplexer call: the SYN handler or a callback of a session,
  with a pointer to the payload and its length.
\<close>

datatype 'c upcall =
    CallSyn u32 string u16 protocol
  | CallSynack 'c bool protocol
  | CallData 'c bytes nat protocol
  | CallClose 'c protocol
  | CallCtrl 'c ctrl_type protocol

text \<open>\<open>if (auto s = find_session(id)) if (s->cb) ...\<close>; a pointer to no object is a null dereference.\<close>

definition with_callback ::
  "'c session_mux \<Rightarrow> u32 \<Rightarrow> ('c session \<Rightarrow> 'c option) \<Rightarrow> ('c \<Rightarrow> 'c upcall option cpp) \<Rightarrow> 'c upcall option cpp"
  where
  "with_callback x sid sel k =
     (case find_session (manager x) sid of None \<Rightarrow> Inr None
      | Some p \<Rightarrow>
        (case store (manager x) p of None \<Rightarrow> Inl NullDeref
         | Some s \<Rightarrow> (case sel s of None \<Rightarrow> Inr None | Some cb \<Rightarrow> k cb)))"

definition on_syn_frame ::
  "'c session_mux \<Rightarrow> u32 \<Rightarrow> protocol \<Rightarrow> bytes \<Rightarrow> nat \<Rightarrow> 'c upcall option cpp" where
  "on_syn_frame x sid prot payload plen =
     cbind (decode_syn_payload payload plen) (\<lambda>r.
       case r of None \<Rightarrow> Inr None
       | Some (host, port) \<Rightarrow>
         if on_syn_set x then Inr (Some (CallSyn sid host port prot)) else Inr None)"

definition on_synack_frame ::
  "'c session_mux \<Rightarrow> u32 \<Rightarrow> protocol \<Rightarrow> bytes \<Rightarrow> nat \<Rightarrow> 'c upcall option cpp" where
  "on_synack_frame x sid prot payload plen =
     with_callback x sid on_synack (\<lambda>cb.
       if plen \<ge> 1
       then cbind (rd payload 0) (\<lambda>b. Inr (Some (CallSynack cb (b = 0) prot)))
       else Inr (Some (CallSynack cb False prot)))"

definition on_data_frame ::
  "'c session_mux \<Rightarrow> u32 \<Rightarrow> protocol \<Rightarrow> bytes \<Rightarrow> nat \<Rightarrow> 'c upcall option cpp" where
  "on_data_frame x sid prot payload plen =
     with_callback x sid on_data (\<lambda>cb. Inr (Some (CallData cb payload plen prot)))"

definition on_fin_frame ::
  "'c session_mux \<Rightarrow> u32 \<Rightarrow> protocol \<Rightarrow> 'c upcall option cpp" where
  "on_fin_frame x sid prot = with_callback x sid on_close (\<lambda>cb. Inr (Some (CallClose cb prot)))"

definition on_data_ctrl_frame ::
  "'c session_mux \<Rightarrow> u32 \<Rightarrow> protocol \<Rightarrow> bytes \<Rightarrow> nat \<Rightarrow> 'c upcall option cpp" where
  "on_data_ctrl_frame x sid prot payload plen =
     with_callback x sid on_data_ctrl (\<lambda>cb.
       if plen \<ge> 1
       then cbind (rd payload 0) (\<lambda>b. Inr (Some (CallCtrl cb (ctrl_of_byte b) prot)))
       else Inr None)"

text \<open>
  The stream id is only logged when a frame is dropped, also the uninitialised one of a header that does not
  decode; log lines are not part of the model.
\<close>

definition on_p2p_data :: "'c session_mux \<Rightarrow> bytes \<Rightarrow> nat \<Rightarrow> 'c upcall option cpp" where
  "on_p2p_data x data len =
     cbind (FrameHeader_decode data len) (\<lambda>r.
       case r of None \<Rightarrow> Inr None
       | Some h \<Rightarrow>
         let payload = drop kSize data; plen = len - kSize;
             sid = fh_stream_id h; prot = fh_protocol h
         in (case fh_type h of
               SYN \<Rightarrow> on_syn_frame x sid prot payload plen
             | SYNACK \<Rightarrow> on_synack_frame x sid prot payload plen
             | DATA \<Rightarrow> on_data_frame x sid prot payload plen
             | FIN \<Rightarrow> on_fin_frame x sid prot
             | DATA_CTRL \<Rightarrow> on_data_ctrl_frame x sid prot payload plen
             | FrameOther _ \<Rightarrow> Inr None))"

subsection \<open>Memory safety of the dispatcher\<close>

lemma with_callback_safe:
  assumes "wf_manager (manager x)" "\<And>cb. safe (k cb)"
  shows "safe (with_callback x sid sel k)"
proof (cases "find_session (manager x) sid")
  case (Some p)
  then have "sessions (manager x) sid = Some p" by (simp add: find_session_def)
  with assms(1) obtain s where "store (manager x) p = Some s" by (rule wf_managerE)
  with Some assms(2) show ?thesis
    by (auto simp: with_callback_def split: option.splits)
qed (simp add: with_callback_def)

lemma frame_handlers_safe:
  assumes "wf_manager (manager x)" "plen \<le> length payload"
  shows "safe (on_syn_frame x sid prot payload plen)"
    and "safe (on_synack_frame x sid prot payload plen)"
    and "safe (on_data_frame x sid prot payload plen)"
    and "safe (on_fin_frame x sid prot)"
    and "safe (on_data_ctrl_frame x sid prot payload plen)"
proof -
  from decode_syn_payload_safe [OF assms(2)]
  obtain r where r: "decode_syn_payload payload plen = Inr r" by (rule safeE)
  show "safe (on_syn_frame x sid prot payload plen)"
    by (auto simp: on_syn_frame_def r split: option.splits)
  show "safe (on_synack_frame x sid prot payload plen)"
    unfolding on_synack_frame_def
    by (rule with_callback_safe [OF assms(1)]) (use assms(2) in \<open>auto simp: rd_def\<close>)
  show "safe (on_data_frame x sid prot payload plen)"
    unfolding on_data_frame_def by (rule with_callback_safe [OF assms(1)]) simp
  show "safe (on_fin_frame x sid prot)"
    unfolding on_fin_frame_def by (rule with_callback_safe [OF assms(1)]) simp
  show "safe (on_data_ctrl_frame x sid prot payload plen)"
    unfolding on_data_ctrl_frame_def
    by (rule with_callback_safe [OF assms(1)]) (use assms(2) in \<open>auto simp: rd_def\<close>)
qed

lemma on_p2p_data_safe_aux:
  assumes "wf_manager (manager x)" "len \<le> length data"
  shows "safe (on_p2p_data x data len)"
proof -
  from FrameHeader_decode_safe [OF assms(2)]
  obtain r where r: "FrameHeader_decode data len = Inr r" by (rule safeE)
  show ?thesis
  proof (cases r)
    case (Some h)
    have "len - kSize \<le> length (drop kSize data)" using assms(2) by simp
    note safe = frame_handlers_safe [OF assms(1) this]
    show ?thesis
      using Some safe by (cases "fh_type h") (simp_all add: on_p2p_data_def r Let_def)
  qed (simp add: on_p2p_data_def r)
qed

subsection \<open>The abstract multiplexer\<close>

text \<open>
  What the two ends mean: a message names a stream; the receiver calls the matching callback of
  the session that is live under that id, or drops the message. The abstract receiver is the
  partial map from stream ids to sessions.
\<close>

datatype mux_msg =
    MSyn u32 string u16 protocol
  | MSynack u32 bool protocol
  | MData u32 bytes protocol
  | MFin u32 protocol
  | MCtrl u32 ctrl_type protocol

fun msg_stream :: "mux_msg \<Rightarrow> u32" where
  "msg_stream (MSyn sid _ _ _) = sid"
| "msg_stream (MSynack sid _ _) = sid"
| "msg_stream (MData sid _ _) = sid"
| "msg_stream (MFin sid _) = sid"
| "msg_stream (MCtrl sid _ _) = sid"

fun wf_msg :: "mux_msg \<Rightarrow> bool" where
  "wf_msg (MSyn _ host _ p) = (length host < 256 \<and> wf_protocol p)"
| "wf_msg (MSynack _ _ p) = wf_protocol p"
| "wf_msg (MData _ _ p) = wf_protocol p"
| "wf_msg (MFin _ p) = wf_protocol p"
| "wf_msg (MCtrl _ t p) = (wf_protocol p \<and> (t = CtrlReceive \<or> t = CtrlPause))"

fun send_msg :: "'c session_mux \<Rightarrow> mux_msg \<Rightarrow> (u32 \<times> bytes) option cpp" where
  "send_msg x (MSyn sid host port p) = Inr (send_syn x sid host port p)"
| "send_msg x (MSynack sid ok p) = Inr (send_synack x sid ok p)"
| "send_msg x (MData sid d p) = send_data x sid d (length d) p"
| "send_msg x (MFin sid p) = Inr (send_fin x sid p)"
| "send_msg x (MCtrl sid t p) = Inr (send_data_ctrl x sid t p)"

definition abs_sessions :: "'c session_mux \<Rightarrow> u32 \<Rightarrow> 'c session option" where
  "abs_sessions x sid = Option.bind (find_session (manager x) sid) (store (manager x))"

fun deliver :: "(u32 \<Rightarrow> 'c session option) \<Rightarrow> bool \<Rightarrow> mux_msg \<Rightarrow> 'c upcall option" where
  "deliver tab syn (MSyn sid host port p) = (if syn then Some (CallSyn sid host port p) else None)"
| "deliver tab syn (MSynack sid ok p) =
     Option.bind (tab sid) (\<lambda>s. map_option (\<lambda>cb. CallSynack cb ok p) (on_synack s))"
| "deliver tab syn (MData sid d p) =
     Option.bind (tab sid) (\<lambda>s. map_option (\<lambda>cb. CallData cb d (length d) p) (on_data s))"
| "deliver tab syn (MFin sid p) =
     Option.bind (tab sid) (\<lambda>s. map_option (\<lambda>cb. CallClose cb p) (on_close s))"
| "deliver tab syn (MCtrl sid t p) =
     Option.bind (tab sid) (\<lambda>s. map_option (\<lambda>cb. CallCtrl cb t p) (on_data_ctrl s))"

lemma with_callback_abs:
  assumes "wf_manager (manager x)"
  shows "with_callback x sid sel (\<lambda>cb. Inr (Some (f cb))) =
    Inr (Option.bind (abs_sessions x sid) (\<lambda>s. map_option f (sel s)))"
proof (cases "find_session (manager x) sid")
  case (Some p)
  then have "sessions (manager x) sid = Some p" by (simp add: find_session_def)
  with assms obtain s where "store (manager x) p = Some s" by (rule wf_managerE)
  with Some show ?thesis
    by (auto simp: with_callback_def abs_sessions_def split: option.splits)
qed (simp add: with_callback_def abs_sessions_def)

fun msg_frame :: "mux_msg \<Rightarrow> bytes" where
  "msg_frame (MSyn sid host port p) = make_frame sid SYN p (encode_syn_payload host port)"
| "msg_frame (MSynack sid ok p) = make_frame sid SYNACK p [if ok then 0 else 1]"
| "msg_frame (MData sid d p) = make_frame sid DATA p d"
| "msg_frame (MFin sid p) = make_frame sid FIN p []"
| "msg_frame (MCtrl sid t p) = make_frame sid DATA_CTRL p [if t = CtrlReceive then 0 else 1]"

lemma send_msg_frame:
  "send_msg x m = Inr (if send_func_set x then Some (peer_conn_id x, msg_frame m) else None)"
  by (cases m) (auto simp: send_syn_def send_synack_def send_data_def send_fin_def
      send_data_ctrl_def mux_send_def)

lemma decode_frame:
  assumes "wf_frame_type t" "wf_protocol p"
  shows "FrameHeader_decode (make_frame sid t p pl) (6 + length pl) =
    Inr (Some \<lparr>fh_stream_id = sid, fh_type = t, fh_protocol = p\<rparr>)"
  using FrameHeader_decode_make_frame [OF assms order_refl] .

lemma payload_len [simp]: "6 + n - kSize = n"
  by (simp add: kSize_def)

lemma on_p2p_data_frame:
  assumes "wf_frame_type t" "wf_protocol p"
  shows "on_p2p_data x (make_frame sid t p pl) (length (make_frame sid t p pl)) =
    (case t of
       SYN \<Rightarrow> on_syn_frame x sid p pl (length pl)
     | SYNACK \<Rightarrow> on_synack_frame x sid p pl (length pl)
     | DATA \<Rightarrow> on_data_frame x sid p pl (length pl)
     | FIN \<Rightarrow> on_fin_frame x sid p
     | DATA_CTRL \<Rightarrow> on_data_ctrl_frame x sid p pl (length pl)
     | FrameOther _ \<Rightarrow> Inr None)"
  using decode_frame [OF assms, of sid pl] by (simp add: on_p2p_data_def Let_def)

lemma on_p2p_data_deliver:
  assumes "wf_manager (manager x)" "wf_msg m"
  shows "on_p2p_data x (msg_frame m) (length (msg_frame m)) =
    Inr (deliver (abs_sessions x) (on_syn_set x) m)"
proof (cases m)
  case (MSyn sid host port p)
  with assms show ?thesis
    using decode_encode_syn_payload_eq [of host "length host + 3" port "[]"]
    by (simp add: on_p2p_data_frame on_syn_frame_def del: length_make_frame)
next
  case (MCtrl sid t p)
  with assms show ?thesis
    by (auto simp: on_p2p_data_frame on_data_ctrl_frame_def rd_def ctrl_of_byte_def
        with_callback_abs simp del: length_make_frame)
qed (use assms in \<open>auto simp: on_p2p_data_frame on_synack_frame_def on_data_frame_def
      on_fin_frame_def rd_def with_callback_abs simp del: length_make_frame\<close>)

text \<open>The call a frame with header \<open>h\<close> may cause: a callback of the session under its stream id.\<close>

fun upcall_of_session ::
  "'c session_mux \<Rightarrow> frame_header \<Rightarrow> bytes \<Rightarrow> nat \<Rightarrow> 'c upcall \<Rightarrow> bool" where
  "upcall_of_session x h payload plen (CallSyn sid _ _ p) =
     (sid = fh_stream_id h \<and> p = fh_protocol h)"
| "upcall_of_session x h payload plen (CallSynack cb _ p) =
     (p = fh_protocol h \<and> (\<exists>s. abs_sessions x (fh_stream_id h) = Some s \<and> on_synack s = Some cb))"
| "upcall_of_session x h payload plen (CallData cb d n p) =
     (p = fh_protocol h \<and> d = payload \<and> n = plen \<and>
      (\<exists>s. abs_sessions x (fh_stream_id h) = Some s \<and> on_data s = Some cb))"
| "upcall_of_session x h payload plen (CallClose cb p) =
     (p = fh_protocol h \<and> (\<exists>s. abs_sessions x (fh_stream_id h) = Some s \<and> on_close s = Some cb))"
| "upcall_of_session x h payload plen (CallCtrl cb _ p) =
     (p = fh_protocol h \<and>
      (\<exists>s. abs_sessions x (fh_stream_id h) = Some s \<and> on_data_ctrl s = Some cb))"

lemma with_callback_Some:
  "with_callback x sid sel k = Inr (Some c) \<Longrightarrow>
     \<exists>s cb. abs_sessions x sid = Some s \<and> sel s = Some cb \<and> k cb = Inr (Some c)"
  by (auto simp: with_callback_def abs_sessions_def split: option.splits)

lemma on_syn_frame_Some:
  "on_syn_frame x sid prot payload plen = Inr (Some c) \<Longrightarrow>
     \<exists>host port. c = CallSyn sid host port prot"
  by (auto simp: on_syn_frame_def cpp_simps split: option.splits if_splits)

lemma on_p2p_data_upcall:
  assumes "on_p2p_data x data len = Inr (Some c)"
  shows "\<exists>h. FrameHeader_decode data len = Inr (Some h) \<and>
    upcall_of_session x h (drop 6 data) (len - 6) c"
proof -
  from assms obtain h where h: "FrameHeader_decode data len = Inr (Some h)"
    by (auto simp: on_p2p_data_def cpp_simps split: option.splits)
  with assms have "upcall_of_session x h (drop 6 data) (len - 6) c"
    by (cases "fh_type h")
      (auto simp: on_p2p_data_def Let_def on_synack_frame_def on_data_frame_def
        on_fin_frame_def on_data_ctrl_frame_def kSize_def cpp_simps
        dest!: with_callback_Some on_syn_frame_Some split: option.splits if_splits)
  with h show ?thesis by blast
qed

subsection \<open>The format of frames\<close>

text \<open>
  The wire format as a grammar, without the program's casts and offsets: four bytes of stream id (big
  endian), a type, a protocol, and a payload that the type determines. \<open>None\<close> is a frame that names no
  message.
\<close>

fun syn_meaning :: "u32 \<Rightarrow> protocol \<Rightarrow> bytes \<Rightarrow> mux_msg option" where
  "syn_meaning sid p [] = None"
| "syn_meaning sid p (n # rest) =
     (case drop (unat n) rest of hi # lo # _ \<Rightarrow>
        Some (MSyn sid (string_of_bytes (take (unat n) rest)) (port_of_bytes hi lo) p)
      | _ \<Rightarrow> None)"

fun payload_meaning :: "frame_type \<Rightarrow> u32 \<Rightarrow> protocol \<Rightarrow> bytes \<Rightarrow> mux_msg option" where
  "payload_meaning SYN sid p pl = syn_meaning sid p pl"
| "payload_meaning SYNACK sid p pl = Some (MSynack sid (case pl of [] \<Rightarrow> False | b # _ \<Rightarrow> b = 0) p)"
| "payload_meaning DATA sid p pl = Some (MData sid pl p)"
| "payload_meaning FIN sid p pl = Some (MFin sid p)"
| "payload_meaning DATA_CTRL sid p pl = (case pl of [] \<Rightarrow> None | b # _ \<Rightarrow> Some (MCtrl sid (ctrl_of_byte b) p))"
| "payload_meaning (FrameOther _) sid p pl = None"

fun frame_meaning :: "bytes \<Rightarrow> mux_msg option" where
  "frame_meaning (a # b # c # d # t # p # pl) =
     payload_meaning (frame_of_byte t) (be_word32 a b c d) (protocol_of_byte p) pl"
| "frame_meaning _ = None"

lemma hton32_be: "hton32 (le_load32 [a, b, c, d]) = be_word32 a b c d"
  by (simp add: hton32_rev le_store_load32)
    (simp add: be_word32_def le_load32_def or.commute or.left_commute or.assoc)

lemma on_syn_meaning:
  "on_syn_frame x sid p pl (length pl) =
     Inr (Option.bind (syn_meaning sid p pl) (deliver (abs_sessions x) (on_syn_set x)))"
proof (cases pl)
  case (Cons n rest)
  show ?thesis
  proof (cases "length rest < unat n + 2")
    case True
    then have "drop (unat n) rest \<noteq> hi # lo # tail" for hi lo tail
      by (auto dest: arg_cong [where f = length])
    then have "syn_meaning sid p pl = None" by (simp add: Cons split: list.split)
    with True show ?thesis by (simp add: Cons on_syn_frame_def decode_syn_payload_def rd_def)
  next
    case False
    then obtain hi lo tail where d: "drop (unat n) rest = hi # lo # tail"
      by (cases "drop (unat n) rest"; cases "tl (drop (unat n) rest)") (auto dest: arg_cong [where f = length])
    have split: "rest = take (unat n) rest @ hi # lo # tail" using append_take_drop_id [of "unat n" rest] d by simp
    have "rest ! unat n = hi" "rest ! Suc (unat n) = lo"
      using False by (subst split, simp add: nth_append)+
    with False d show ?thesis
      by (simp add: Cons on_syn_frame_def decode_syn_payload_def rd_def rd_range_def)
  qed
qed (simp add: on_syn_frame_def decode_syn_payload_def)

lemma with_callback_quiet:
  assumes "wf_manager (manager x)"
  shows "with_callback x sid sel (\<lambda>cb. Inr None) = Inr None"
proof (cases "find_session (manager x) sid")
  case (Some p)
  then have "sessions (manager x) sid = Some p" by (simp add: find_session_def)
  with assms obtain s where "store (manager x) p = Some s" by (rule wf_managerE)
  with Some show ?thesis by (simp add: with_callback_def split: option.splits)
qed (simp add: with_callback_def)

lemma on_p2p_data_meaning:
  assumes "wf_manager (manager x)"
  shows "on_p2p_data x data (length data) =
    Inr (Option.bind (frame_meaning data) (deliver (abs_sessions x) (on_syn_set x)))"
proof (cases data rule: frame_meaning.cases)
  case (1 a b c d t p pl)
  have "FrameHeader_decode data (length data) = Inr (Some
      \<lparr>fh_stream_id = be_word32 a b c d, fh_type = frame_of_byte t, fh_protocol = protocol_of_byte p\<rparr>)"
    by (simp add: 1 FrameHeader_decode_def kSize_def rd_range_def rd_def hton32_be)
  moreover have "drop kSize data = pl" "length data - kSize = length pl" by (simp_all add: 1 kSize_def)
  ultimately have disp: "on_p2p_data x data (length data) = (case frame_of_byte t of
      SYN \<Rightarrow> on_syn_frame x (be_word32 a b c d) (protocol_of_byte p) pl (length pl)
    | SYNACK \<Rightarrow> on_synack_frame x (be_word32 a b c d) (protocol_of_byte p) pl (length pl)
    | DATA \<Rightarrow> on_data_frame x (be_word32 a b c d) (protocol_of_byte p) pl (length pl)
    | FIN \<Rightarrow> on_fin_frame x (be_word32 a b c d) (protocol_of_byte p)
    | DATA_CTRL \<Rightarrow> on_data_ctrl_frame x (be_word32 a b c d) (protocol_of_byte p) pl (length pl)
    | FrameOther _ \<Rightarrow> Inr None)"
    by (simp add: on_p2p_data_def Let_def)
  show ?thesis
  proof (cases "frame_of_byte t = SYN")
    case True
    then show ?thesis by (simp only: disp on_syn_meaning) (simp add: 1)
  next
    case False
    then show ?thesis
      using assms unfolding disp
      by (cases "frame_of_byte t"; cases pl)
        (simp_all add: 1 on_synack_frame_def on_data_frame_def on_fin_frame_def
          on_data_ctrl_frame_def rd_def with_callback_abs with_callback_quiet)
  qed
qed (simp_all add: on_p2p_data_def FrameHeader_decode_def kSize_def)

subsection \<open>Properties\<close>



text \<open>C9: The dispatcher, with its casts, offsets and length checks, is the grammar of the frames followed by
delivery: for every sequence of bytes the peer may send, it calls what the meaning of the bytes calls, on
the session that is live under the stream id in them, and nothing when they mean nothing.\<close>
theorem dispatch_is_grammar:
  assumes "wf_manager (manager x)"
  shows "on_p2p_data x data (length data) =
    Inr (case frame_meaning data of None \<Rightarrow> None | Some m \<Rightarrow> deliver (abs_sessions x) (on_syn_set x) m)"
  using on_p2p_data_meaning [OF assms, of data] by (simp split: option.splits)

theorem dispatch_is_grammar_witness:
  "on_p2p_data (set_on_syn (SessionMux_new 1) :: nat session_mux) [0, 0, 1, 2, 1, 1, 1, 104, 0, 80] 10 =
     Inr (Some (CallSyn 258 ''h'' 80 Socks5Connect))"
proof -
  let ?x = "set_on_syn (SessionMux_new 1) :: nat session_mux"
  have "frame_meaning [0, 0, 1, 2, 1, 1, 1, 104, 0, 80] = Some (MSyn 258 ''h'' 80 Socks5Connect)" by code_simp
  moreover have "wf_manager (manager ?x)" "on_syn_set ?x"
    by (simp_all add: set_on_syn_def SessionMux_new_def wf_manager_new)
  moreover have "length [0, 0, 1, 2, 1, 1, 1, 104, 0, 80 :: u8] = 10" by simp
  ultimately show ?thesis
    using dispatch_is_grammar [of ?x "[0, 0, 1, 2, 1, 1, 1, 104, 0, 80]"]
    by (simp only: option.case deliver.simps if_True)
qed

text \<open>On any bytes from the peer the multiplexer returns without undefined behaviour, and a
callback it calls is one of the session that is live under the stream id of the frame's header:
bytes of one stream never reach another stream's session.\<close>
theorem mux_dispatch_isolated:
  assumes "wf_manager (manager x)" "len \<le> length data"
  shows "\<exists>r. on_p2p_data x data len = Inr r \<and>
    (\<forall>c. r = Some c \<longrightarrow>
      (\<exists>h. FrameHeader_decode data len = Inr (Some h) \<and>
           upcall_of_session x h (drop 6 data) (len - 6) c))"
  using safeE [OF on_p2p_data_safe_aux [OF assms]] on_p2p_data_upcall by metis

theorem mux_dispatch_isolated_witness:
  "\<exists>r. on_p2p_data (SessionMux_new 1 :: nat session_mux) [0, 0, 0, 9, 3, 1, 65] 7 = Inr r"
  using mux_dispatch_isolated
    [of "SessionMux_new 1 :: nat session_mux" 7 "[0, 0, 0, 9, 3, 1, 65]"]
  by (auto simp: SessionMux_new_def wf_manager_new)

text \<open>C15: The search for a stream id ends: as soon as the random draws have hit more different numbers than
there are live sessions, one of them is free, and it is taken; the fresh object is what the table then
finds under that id, no other entry of the table changes, and the id is one of the 4294967294 the
distribution can draw.\<close>
theorem create_session_fresh:
  assumes "wf_manager m" "\<forall>d\<in>set draws. 1 \<le> d \<and> d \<le> 0xFFFFFFFE" "card (dom (sessions m)) < card (set draws)"
  shows "\<exists>p m' ds sid. create_session m draws = Some (p, m', ds) \<and>
    sessions m sid = None \<and> 1 \<le> sid \<and> sid \<le> 0xFFFFFFFE \<and>
    find_session m' = (find_session m)(sid \<mapsto> p) \<and> store m p = None \<and>
    store m' p = Some (Session_new sid) \<and> wf_manager m'"
proof -
  obtain d where "d \<in> set draws" "sessions m d = None"
    using card_mono [OF wf_manager_finite [OF assms(1)], of "set draws"] assms(3) by (force simp: dom_def)
  from gen_stream_id_returns [OF this]
  obtain sid ds where g: "gen_stream_id m draws = Some (sid, ds)" by (elim exE)
  obtain p m' where c: "create_session_at m sid = (p, m')" by fastforce
  have "sid \<in> set draws" "sessions m sid = None"
    using gen_stream_id_Some [OF g] by auto
  moreover have "store m (next_ptr m) = None" using assms(1) by (simp add: wf_manager_fresh)
  moreover have "create_session m draws = Some (p, m', ds)"
    by (simp add: create_session_def g c)
  moreover have "wf_manager m'" using wf_create_session_at [OF assms(1) c] .
  ultimately show ?thesis
    using assms(2) c
    by (intro exI [of _ p] exI [of _ m'] exI [of _ ds] exI [of _ sid])
      (auto simp: create_session_at_def Let_def find_session_def fun_eq_iff)
qed

theorem create_session_fresh_witness:
  "\<exists>p m' ds sid. create_session (SessionManager_new :: nat session_manager) [5] = Some (p, m', ds) \<and>
     find_session m' = (find_session (SessionManager_new :: nat session_manager))(sid \<mapsto> p)"
proof -
  have "wf_manager (SessionManager_new :: nat session_manager)"
    "\<forall>d\<in>set [5 :: u32]. 1 \<le> d \<and> d \<le> 0xFFFFFFFE"
    "card (dom (sessions (SessionManager_new :: nat session_manager))) < card (set [5 :: u32])"
    by (simp_all add: wf_manager_new) (simp add: SessionManager_new_def)
  from create_session_fresh [OF this] show ?thesis by blast
qed

end
