(* ===== verification/TcpSocket.thy ===== *)
theory TcpSocket
  imports SessionProtocol
begin

text \<open>
  \<open>Src/common/include/tcp_socket.h\<close> and \<open>Src/common/src/tcp_socket.cpp\<close>: the TCP channel. Its
  public functions post a closure to the strand, and the strand runs one handler at a time, so a
  socket is a state and one handler per closure; a handler returns the new state and the calls it
  makes of Asio (start an asynchronous operation, cancel and close) and of the owner's callbacks,
  in order. Which operations are in flight, and which event comes next, is the step relation
  \<open>tcp_step\<close>: the owner may call at any time, a completion needs an operation in flight.
\<close>

subsection \<open>State and handlers\<close>

record tcp_socket =
  host_name :: string
  port_no :: u16
  is_connected :: bool
  write_queue :: "bytes list"
  is_sending :: bool
  is_closing :: bool
  is_closed :: bool
  wq_status :: write_queue_status
  is_reading :: bool
  cb_connect :: bool
  cb_data :: bool
  cb_close :: bool
  cb_write_queue :: bool

datatype tcp_action =
    TcpResolve string u16
  | TcpConnectStart
  | TcpWrite bytes
  | TcpRead
  | TcpCancelClose
  | TcpOnConnect bool
  | TcpOnData bytes
  | TcpOnClose
  | TcpOnWriteQueue write_queue_status

type_synonym tcp_result = "(tcp_socket \<times> tcp_action list) cpp"

definition TcpSocket_new :: tcp_socket where
  "TcpSocket_new =
     \<lparr>host_name = [], port_no = 0, is_connected = False, write_queue = [], is_sending = False,
      is_closing = False, is_closed = False, wq_status = Safety, is_reading = True,
      cb_connect = False, cb_data = False, cb_close = False, cb_write_queue = False\<rparr>"

text \<open>Construction from an accepted socket: \<open>ok\<close> says that release and assign both succeeded.\<close>

definition TcpSocket_from :: "bool \<Rightarrow> tcp_socket" where
  "TcpSocket_from ok = TcpSocket_new\<lparr>is_connected := ok\<rparr>"

definition setConnectCallback :: "tcp_socket \<Rightarrow> tcp_socket" where
  "setConnectCallback s = s\<lparr>cb_connect := True\<rparr>"

definition setDataCallback :: "tcp_socket \<Rightarrow> tcp_socket" where
  "setDataCallback s = s\<lparr>cb_data := True\<rparr>"

definition setCloseCallback :: "tcp_socket \<Rightarrow> tcp_socket" where
  "setCloseCallback s = s\<lparr>cb_close := True\<rparr>"

definition setWriteQueueCallback :: "tcp_socket \<Rightarrow> tcp_socket" where
  "setWriteQueueCallback s = s\<lparr>cb_write_queue := True\<rparr>"

definition tcp_connect :: "string \<Rightarrow> u16 \<Rightarrow> tcp_socket \<Rightarrow> tcp_result" where
  "tcp_connect host port s =
     Inr (s\<lparr>host_name := host, port_no := port\<rparr>, [TcpResolve host port])"

definition tcp_on_resolved :: "bool \<Rightarrow> tcp_socket \<Rightarrow> tcp_result" where
  "tcp_on_resolved ec s =
     Inr (s, if ec then (if cb_connect s then [TcpOnConnect False] else []) else [TcpConnectStart])"

definition do_read :: "tcp_socket \<Rightarrow> tcp_action list" where
  "do_read s = [TcpRead]"

definition tcp_on_connected :: "bool \<Rightarrow> tcp_socket \<Rightarrow> tcp_result" where
  "tcp_on_connected ec s =
     (if ec then Inr (s, if cb_connect s then [TcpOnConnect False] else [])
      else let s' = s\<lparr>is_connected := True\<rparr> in
        Inr (s', (if cb_connect s' then [TcpOnConnect True] else []) @ do_read s'))"

definition tcp_start :: "tcp_socket \<Rightarrow> tcp_result" where
  "tcp_start s =
     (if \<not> is_connected s then Inr (s, [])
      else if is_closing s \<or> is_closed s then Inr (s, [])
      else Inr (s, do_read s))"

text \<open>\<open>write_queue_.front()\<close> of an empty queue is undefined behaviour.\<close>

definition do_write :: "tcp_socket \<Rightarrow> tcp_action list cpp" where
  "do_write s = (case write_queue s of [] \<Rightarrow> Inl OutOfBounds | b # _ \<Rightarrow> Inr [TcpWrite b])"

text \<open>
  \<open>TcpCancelClose\<close> stands for the guarded pair of calls \<open>if (socket_.is_open()) { cancel; close }\<close>: on an Asio
  socket that is not open it does nothing. No other state of the program depends on the guard.
\<close>

definition do_close :: "tcp_socket \<Rightarrow> tcp_socket \<times> tcp_action list" where
  "do_close s =
     (if is_closed s then (s, [])
      else (s\<lparr>is_closed := True\<rparr>, TcpCancelClose # (if cb_close s then [TcpOnClose] else [])))"

definition tcp_send :: "bytes \<Rightarrow> tcp_socket \<Rightarrow> tcp_result" where
  "tcp_send buf s =
     (if \<not> is_connected s \<or> is_closing s \<or> is_closed s then Inr (s, [])
      else let s1 = s\<lparr>write_queue := write_queue s @ [buf]\<rparr> in
        if \<not> is_sending s1
        then let s2 = s1\<lparr>is_sending := True\<rparr> in cbind (do_write s2) (\<lambda>a. Inr (s2, a))
        else Inr (s1, []))"

definition tcp_close :: "tcp_socket \<Rightarrow> tcp_result" where
  "tcp_close s =
     (if is_closing s \<or> is_closed s then Inr (s, [])
      else let s1 = s\<lparr>is_closing := True\<rparr> in
        if \<not> is_connected s1 then Inr (do_close s1)
        else if \<not> is_sending s1 \<and> write_queue s1 = [] then Inr (do_close s1)
        else Inr (s1, []))"

definition startReading :: "tcp_socket \<Rightarrow> tcp_result" where
  "startReading s =
     (if is_reading s \<or> is_closing s \<or> is_closed s then Inr (s, [])
      else let s1 = s\<lparr>is_reading := True\<rparr> in
        if is_connected s1 then Inr (s1, do_read s1) else Inr (s1, []))"

definition stopReading :: "tcp_socket \<Rightarrow> tcp_result" where
  "stopReading s = Inr (s\<lparr>is_reading := False\<rparr>, [])"

text \<open>The write queue's status after a write, computed as the code does once the queue is empty.\<close>

definition update_wq_status :: "tcp_socket \<Rightarrow> tcp_socket \<times> tcp_action list" where
  "update_wq_status s =
     (if wq_status s = Danger \<and> length (write_queue s) < 2000 then
        (s\<lparr>wq_status := Safety\<rparr>, if cb_write_queue s then [TcpOnWriteQueue Safety] else [])
      else if wq_status s = Safety \<and> length (write_queue s) \<ge> 4000 then
        (s\<lparr>wq_status := Danger\<rparr>, if cb_write_queue s then [TcpOnWriteQueue Danger] else [])
      else (s, []))"

definition tcp_on_written :: "bool \<Rightarrow> tcp_socket \<Rightarrow> tcp_result" where
  "tcp_on_written ec s =
     (if ec then Inr (do_close (s\<lparr>is_closing := True\<rparr>))
      else if write_queue s = [] then Inl OutOfBounds
      else let s1 = s\<lparr>write_queue := tl (write_queue s)\<rparr> in
        if write_queue s1 \<noteq> [] then cbind (do_write s1) (\<lambda>a. Inr (s1, a))
        else case update_wq_status s1 of (s2, acts) \<Rightarrow>
          let s3 = s2\<lparr>is_sending := False\<rparr> in
          if is_closing s3
          then case do_close s3 of (s4, acts') \<Rightarrow> Inr (s4, acts @ acts')
          else Inr (s3, acts))"

text \<open>A read completes with an error (\<open>None\<close>) or with the bytes received.\<close>

definition tcp_on_read :: "bytes option \<Rightarrow> tcp_socket \<Rightarrow> tcp_result" where
  "tcp_on_read r s =
     (case r of None \<Rightarrow> Inr (do_close (s\<lparr>is_closing := True\<rparr>))
      | Some d \<Rightarrow>
        Inr (s, (if cb_data s then [TcpOnData d] else []) @ (if \<not> is_reading s then [] else do_read s)))"

definition tcp_destroy :: "tcp_socket \<Rightarrow> tcp_socket" where
  "tcp_destroy s = s\<lparr>write_queue := []\<rparr>"

subsection \<open>The socket with its operations in flight\<close>

datatype tcp_event =
    EvConnect string u16
  | EvStart
  | EvSend bytes
  | EvClose
  | EvStartReading
  | EvStopReading
  | EvResolved bool
  | EvConnected bool
  | EvWritten bool
  | EvRead "bytes option"

fun tcp_handle :: "tcp_event \<Rightarrow> tcp_socket \<Rightarrow> tcp_result" where
  "tcp_handle (EvConnect h p) s = tcp_connect h p s"
| "tcp_handle EvStart s = tcp_start s"
| "tcp_handle (EvSend b) s = tcp_send b s"
| "tcp_handle EvClose s = tcp_close s"
| "tcp_handle EvStartReading s = startReading s"
| "tcp_handle EvStopReading s = stopReading s"
| "tcp_handle (EvResolved ec) s = tcp_on_resolved ec s"
| "tcp_handle (EvConnected ec) s = tcp_on_connected ec s"
| "tcp_handle (EvWritten ec) s = tcp_on_written ec s"
| "tcp_handle (EvRead r) s = tcp_on_read r s"

text \<open>
  \<open>resolving\<close>, \<open>connecting\<close> and \<open>reading\<close> count operations in flight, \<open>writing\<close> lists the buffers of
  the writes in flight. \<open>accepted\<close>, \<open>written\<close> and \<open>trace\<close> are histories the properties speak of: the
  buffers that entered the queue, the buffers whose write succeeded, all actions so far.
\<close>

record tcp_sys =
  sock :: tcp_socket
  resolving :: nat
  connecting :: nat
  writing :: "bytes list"
  reading :: nat
  accepted :: "bytes list"
  written :: "bytes list"
  trace :: "tcp_action list"

fun act_tcp :: "tcp_action \<Rightarrow> tcp_sys \<Rightarrow> tcp_sys" where
  "act_tcp (TcpResolve h p) y = y\<lparr>resolving := Suc (resolving y)\<rparr>"
| "act_tcp TcpConnectStart y = y\<lparr>connecting := Suc (connecting y)\<rparr>"
| "act_tcp (TcpWrite b) y = y\<lparr>writing := writing y @ [b]\<rparr>"
| "act_tcp TcpRead y = y\<lparr>reading := Suc (reading y)\<rparr>"
| "act_tcp _ y = y"

definition tcp_started :: "tcp_socket \<Rightarrow> tcp_action list \<Rightarrow> tcp_sys \<Rightarrow> tcp_sys" where
  "tcp_started s acts y = fold act_tcp acts (y\<lparr>sock := s, trace := trace y @ acts\<rparr>)"

definition TcpSys_new :: "tcp_socket \<Rightarrow> tcp_sys" where
  "TcpSys_new s = \<lparr>sock = s, resolving = 0, connecting = 0, writing = [], reading = 0,
     accepted = [], written = [], trace = []\<rparr>"

text \<open>A completion takes its operation out of flight before its handler runs.\<close>

fun consume :: "tcp_event \<Rightarrow> tcp_sys \<Rightarrow> tcp_sys option" where
  "consume (EvResolved ec) y =
     (case resolving y of 0 \<Rightarrow> None | Suc n \<Rightarrow> Some (y\<lparr>resolving := n\<rparr>))"
| "consume (EvConnected ec) y =
     (case connecting y of 0 \<Rightarrow> None | Suc n \<Rightarrow> Some (y\<lparr>connecting := n\<rparr>))"
| "consume (EvWritten ec) y =
     (case writing y of [] \<Rightarrow> None
      | b # bs \<Rightarrow> Some (y\<lparr>writing := bs, written := (if ec then written y else written y @ [b])\<rparr>))"
| "consume (EvRead r) y =
     (case reading y of 0 \<Rightarrow> None | Suc n \<Rightarrow> Some (y\<lparr>reading := n\<rparr>))"
| "consume (EvSend b) y =
     Some (if \<not> is_connected (sock y) \<or> is_closing (sock y) \<or> is_closed (sock y) then y
           else y\<lparr>accepted := accepted y @ [b]\<rparr>)"
| "consume e y = Some y"

inductive tcp_step :: "tcp_sys \<Rightarrow> tcp_event \<Rightarrow> tcp_sys \<Rightarrow> bool" where
  step: "consume e y = Some y1 \<Longrightarrow> tcp_handle e (sock y1) = Inr (s, acts) \<Longrightarrow>
     tcp_step y e (tcp_started s acts y1)"

text \<open>A socket as constructed, with any callbacks set.\<close>

definition tcp_initial :: "tcp_socket \<Rightarrow> bool" where
  "tcp_initial s \<longleftrightarrow>
     s = (TcpSocket_from (is_connected s))\<lparr>cb_connect := cb_connect s, cb_data := cb_data s,
        cb_close := cb_close s, cb_write_queue := cb_write_queue s\<rparr>"

inductive tcp_reach :: "tcp_sys \<Rightarrow> bool" where
  fresh: "tcp_initial s \<Longrightarrow> tcp_reach (TcpSys_new s)"
| more: "tcp_reach y \<Longrightarrow> tcp_step y e y' \<Longrightarrow> tcp_reach y'"

inductive_simps tcp_step_iff: "tcp_step y e y'"

lemmas tcp_handler_defs =
  tcp_connect_def tcp_on_resolved_def do_read_def tcp_on_connected_def tcp_start_def do_write_def
  do_close_def tcp_send_def tcp_close_def startReading_def stopReading_def update_wq_status_def
  tcp_on_written_def tcp_on_read_def

subsection \<open>The invariant of a socket in its environment\<close>

text \<open>
  \<open>flight_ok\<close>: the operations in flight match the flags. With no write in flight a busy socket is
  one whose write failed (it is closed) and a closing socket is closed; otherwise exactly the head
  of the queue is being written.
\<close>

definition flags_ok :: "tcp_socket \<Rightarrow> bool" where
  "flags_ok s \<longleftrightarrow>
     (is_closed s \<longrightarrow> is_closing s) \<and> (is_sending s \<longrightarrow> is_connected s) \<and>
     (\<not> is_sending s \<longrightarrow> write_queue s = []) \<and> wq_status s = Safety"

fun flight_ok :: "tcp_socket \<Rightarrow> bytes list \<Rightarrow> bool" where
  "flight_ok s [] = ((is_sending s \<longrightarrow> is_closed s) \<and> (is_closing s \<longrightarrow> is_closed s))"
| "flight_ok s [b] = (is_sending s \<and> (\<exists>q. write_queue s = b # q))"
| "flight_ok s _ = False"

definition trace_ok :: "tcp_socket \<Rightarrow> tcp_action list \<Rightarrow> bool" where
  "trace_ok s tr \<longleftrightarrow> (\<forall>q. TcpOnWriteQueue q \<notin> set tr) \<and>
     count_list tr TcpOnClose = (if is_closed s \<and> cb_close s then 1 else 0)"

definition tcp_inv :: "tcp_sys \<Rightarrow> bool" where
  "tcp_inv y \<longleftrightarrow>
     flags_ok (sock y) \<and> flight_ok (sock y) (writing y) \<and> trace_ok (sock y) (trace y) \<and>
     written y @ write_queue (sock y) = accepted y"

lemma tcp_inv_initial: "tcp_initial s \<Longrightarrow> tcp_inv (TcpSys_new s)"
  by (cases s) (auto simp: tcp_initial_def tcp_inv_def TcpSys_new_def TcpSocket_from_def
      TcpSocket_new_def flags_ok_def trace_ok_def)

lemma flight_cases:
  assumes "flight_ok s w"
  obtains (idle) "w = []" "is_sending s \<Longrightarrow> is_closed s" "is_closing s \<Longrightarrow> is_closed s"
  | (busy) b q where "w = [b]" "is_sending s" "write_queue s = b # q"
  using assms by (cases "(s, w)" rule: flight_ok.cases) auto

lemma tcp_no_ub:
  assumes "tcp_inv y" "consume e y = Some y1"
  shows "\<exists>s acts. tcp_handle e (sock y1) = Inr (s, acts)"
proof (cases e)
  case (EvWritten ec)
  from assms(1) have "flight_ok (sock y) (writing y)" by (simp add: tcp_inv_def)
  then show ?thesis
    using assms(2) EvWritten
    by (cases rule: flight_cases)
      (auto simp: tcp_on_written_def do_write_def do_close_def update_wq_status_def Let_def
        split: list.splits)
qed (use assms(2) in \<open>auto simp: tcp_handler_defs Let_def split: option.splits list.splits nat.splits\<close>)

text \<open>The writes among a handler's actions, and what the invariant needs of a handler's result.\<close>

fun writes_of :: "tcp_action list \<Rightarrow> bytes list" where
  "writes_of [] = []"
| "writes_of (TcpWrite b # acts) = b # writes_of acts"
| "writes_of (_ # acts) = writes_of acts"

lemma act_tcp_fields [simp]:
  "sock (fold act_tcp acts y) = sock y" "trace (fold act_tcp acts y) = trace y"
  "accepted (fold act_tcp acts y) = accepted y" "written (fold act_tcp acts y) = written y"
  "writing (fold act_tcp acts y) = writing y @ writes_of acts"
  by (induction acts arbitrary: y rule: writes_of.induct) auto

lemma tcp_inv_started:
  "tcp_inv (tcp_started s acts y) \<longleftrightarrow>
     flags_ok s \<and> flight_ok s (writing y @ writes_of acts) \<and> trace_ok s (trace y @ acts) \<and>
     written y @ write_queue s = accepted y"
  by (simp add: tcp_inv_def tcp_started_def)

text \<open>Handlers that leave the queue and the flags of the writer alone.\<close>

definition quiet :: "tcp_socket \<Rightarrow> tcp_socket \<Rightarrow> tcp_action list \<Rightarrow> bool" where
  "quiet s s' acts \<longleftrightarrow>
     write_queue s' = write_queue s \<and> is_sending s' = is_sending s \<and> is_closing s' = is_closing s \<and>
     is_closed s' = is_closed s \<and> wq_status s' = wq_status s \<and> cb_close s' = cb_close s \<and>
     (is_connected s \<longrightarrow> is_connected s') \<and> writes_of acts = [] \<and> TcpOnClose \<notin> set acts \<and>
     (\<forall>q. TcpOnWriteQueue q \<notin> set acts)"

lemma quiet_flight: "quiet s s' acts \<Longrightarrow> flight_ok s' w = flight_ok s w"
  by (cases "(s, w)" rule: flight_ok.cases) (auto simp: quiet_def)

lemma quiet_inv:
  assumes "tcp_inv y" "quiet (sock y) s acts" "sock y1 = sock y" "writing y1 = writing y"
    "trace y1 = trace y" "accepted y1 = accepted y" "written y1 = written y"
  shows "tcp_inv (tcp_started s acts y1)"
  using assms(1,3-) assms(2) [unfolded quiet_def] quiet_flight [OF assms(2)]
  unfolding tcp_inv_started
  by (simp add: tcp_inv_def [of y] flags_ok_def trace_ok_def)

text \<open>Closing: the flag is set and the callback fires at the first call.\<close>

lemma do_close_inv:
  assumes "do_close s = (s', acts)" "is_closing s" "flags_ok (s\<lparr>is_closing := ic\<rparr>)"
    "trace_ok s tr" "is_sending s \<longrightarrow> w = [] \<or> flight_ok s w" "\<not> is_sending s \<longrightarrow> w = []"
  shows "flags_ok s' \<and> flight_ok s' (w @ writes_of acts) \<and> trace_ok s' (tr @ acts) \<and>
    write_queue s' = write_queue s"
proof -
  have "flight_ok s' w"
    using assms by (cases "(s, w)" rule: flight_ok.cases) (auto simp: do_close_def split: if_splits)
  with assms show ?thesis
    by (auto simp: do_close_def flags_ok_def trace_ok_def split: if_splits)
qed

fun quiet_event :: "tcp_event \<Rightarrow> bool" where
  "quiet_event (EvSend b) = False"
| "quiet_event EvClose = False"
| "quiet_event (EvWritten ec) = False"
| "quiet_event (EvRead None) = False"
| "quiet_event _ = True"

lemma quiet_handle:
  "quiet_event e \<Longrightarrow> tcp_handle e s = Inr (s', acts) \<Longrightarrow> quiet s s' acts"
  by (cases e rule: quiet_event.cases)
    (auto simp: quiet_def tcp_connect_def tcp_on_resolved_def do_read_def tcp_on_connected_def
      tcp_start_def startReading_def stopReading_def tcp_on_read_def Let_def split: if_splits)

lemma quiet_consume:
  "quiet_event e \<Longrightarrow> consume e y = Some y1 \<Longrightarrow>
     sock y1 = sock y \<and> writing y1 = writing y \<and> trace y1 = trace y \<and> accepted y1 = accepted y \<and>
     written y1 = written y"
  by (cases e rule: quiet_event.cases) (auto split: nat.splits)

lemma tcp_inv_send:
  assumes "tcp_inv y" "consume (EvSend b) y = Some y1" "tcp_send b (sock y1) = Inr (s, acts)"
  shows "tcp_inv (tcp_started s acts y1)"
proof (cases "\<not> is_connected (sock y) \<or> is_closing (sock y) \<or> is_closed (sock y)")
  case True
  with assms show ?thesis
    unfolding tcp_inv_started by (auto simp: tcp_send_def tcp_inv_def)
next
  case False
  from assms(1) have "flight_ok (sock y) (writing y)" by (simp add: tcp_inv_def)
  then show ?thesis
  proof (cases rule: flight_cases)
    case idle
    with False have "\<not> is_sending (sock y)" by auto
    with assms False idle(1) show ?thesis
      unfolding tcp_inv_started
      by (auto simp: tcp_send_def do_write_def Let_def tcp_inv_def flags_ok_def trace_ok_def)
  next
    case busy
    with assms False show ?thesis
      unfolding tcp_inv_started
      by (auto simp: tcp_send_def Let_def tcp_inv_def flags_ok_def trace_ok_def simp flip: append_assoc)
  qed
qed

lemma tcp_inv_close:
  assumes "tcp_inv y" "tcp_close (sock y) = Inr (s, acts)"
  shows "tcp_inv (tcp_started s acts y)"
proof (cases "is_closing (sock y) \<or> is_closed (sock y)")
  case True
  with assms show ?thesis unfolding tcp_inv_started by (auto simp: tcp_close_def tcp_inv_def)
next
  case False
  from assms(1) have "flight_ok (sock y) (writing y)" by (simp add: tcp_inv_def)
  then show ?thesis
    using assms False unfolding tcp_inv_started
    by (cases rule: flight_cases)
      (auto simp: tcp_close_def do_close_def Let_def tcp_inv_def flags_ok_def trace_ok_def split: if_splits)
qed

lemma tcp_inv_error:
  assumes "tcp_inv y" "do_close ((sock y)\<lparr>is_closing := True\<rparr>) = (s, acts)"
    and "sock y1 = sock y" "trace y1 = trace y" "accepted y1 = accepted y" "written y1 = written y"
    and "writing y1 = writing y \<or> writing y1 = []"
  shows "tcp_inv (tcp_started s acts y1)"
proof -
  from assms(1) have "flight_ok (sock y) (writing y)" by (simp add: tcp_inv_def)
  then show ?thesis
    using assms unfolding tcp_inv_started
    by (cases rule: flight_cases)
      (auto simp: do_close_def tcp_inv_def flags_ok_def trace_ok_def split: if_splits)
qed

lemma tcp_on_written_error: "tcp_on_written True s = Inr (do_close (s\<lparr>is_closing := True\<rparr>))"
  by (simp add: tcp_on_written_def)

lemma tcp_inv_written:
  assumes "tcp_inv y" "writing y = b # bs"
    and "tcp_on_written False (sock y) = Inr (s, acts)"
  shows "tcp_inv (tcp_started s acts (y\<lparr>writing := bs, written := written y @ [b]\<rparr>))"
proof -
  from assms(1) have "flight_ok (sock y) (writing y)" by (simp add: tcp_inv_def)
  from this assms(2) obtain q where q: "bs = []" "is_sending (sock y)" "write_queue (sock y) = b # q"
    by (cases rule: flight_cases) auto
  have "wq_status (sock y) = Safety" using assms(1) by (simp add: tcp_inv_def flags_ok_def)
  show ?thesis
    using assms(1,3) q unfolding tcp_inv_started
    by (cases q)
      (auto simp: tcp_on_written_def update_wq_status_def do_write_def do_close_def Let_def tcp_inv_def
        flags_ok_def trace_ok_def split: if_splits)
qed

lemma tcp_inv_step:
  assumes "tcp_inv y" "tcp_step y e y'"
  shows "tcp_inv y'"
proof -
  from assms(2) obtain y1 s acts where c: "consume e y = Some y1"
    and h: "tcp_handle e (sock y1) = Inr (s, acts)" and y': "y' = tcp_started s acts y1"
    by (auto simp: tcp_step_iff)
  show ?thesis
  proof (cases "quiet_event e")
    case True
    then show ?thesis
      using quiet_consume [OF True c] quiet_handle [OF True h] quiet_inv [OF assms(1)] y' by simp
  next
    case False
    then consider b where "e = EvSend b" | "e = EvClose" | ec where "e = EvWritten ec" | "e = EvRead None"
      by (cases e rule: quiet_event.cases) auto
    then show ?thesis
    proof cases
      case (3 ec)
      with c obtain b bs where w: "writing y = b # bs"
        and y1: "y1 = y\<lparr>writing := bs, written := (if ec then written y else written y @ [b])\<rparr>"
        by (auto split: list.splits)
      from assms(1) w have "bs = []" by (cases bs) (auto simp: tcp_inv_def)
      with 3 w y1 h y' show ?thesis
        using tcp_inv_written [OF assms(1) w] tcp_inv_error [OF assms(1)]
        by (cases ec) (simp_all add: tcp_on_written_error)
    next
      case (1 b)
      with c h y' show ?thesis using tcp_inv_send [OF assms(1)] by simp
    next
      case 2
      with c h y' show ?thesis using tcp_inv_close [OF assms(1)] by simp
    next
      case 4
      with c h y' show ?thesis
        using tcp_inv_error [OF assms(1)] by (auto simp: tcp_on_read_def split: nat.splits)
    qed
  qed
qed

lemma tcp_reach_inv: "tcp_reach y \<Longrightarrow> tcp_inv y"
  by (induction rule: tcp_reach.induct) (auto intro: tcp_inv_initial tcp_inv_step)

subsection \<open>Runs\<close>

fun tcp_run :: "tcp_event list \<Rightarrow> tcp_sys \<Rightarrow> tcp_sys option" where
  "tcp_run [] y = Some y"
| "tcp_run (e # es) y =
     (case consume e y of None \<Rightarrow> None
      | Some y1 \<Rightarrow>
        (case tcp_handle e (sock y1) of Inl _ \<Rightarrow> None
         | Inr (s, acts) \<Rightarrow> tcp_run es (tcp_started s acts y1)))"

lemma tcp_run_reach: "tcp_reach y \<Longrightarrow> tcp_run es y = Some y' \<Longrightarrow> tcp_reach y'"
proof (induction es arbitrary: y)
  case (Cons e es)
  then obtain y1 s acts where c: "consume e y = Some y1" "tcp_handle e (sock y1) = Inr (s, acts)"
    and r: "tcp_run es (tcp_started s acts y1) = Some y'"
    by (auto split: option.splits sum.splits)
  from c have "tcp_step y e (tcp_started s acts y1)" by (rule tcp_step.intros)
  with Cons.prems(1) have "tcp_reach (tcp_started s acts y1)" by (rule tcp_reach.more)
  then show ?case using r by (rule Cons.IH)
qed simp

text \<open>A successful completion in a busy socket: the next buffer goes out, or the socket is idle.\<close>

lemma tcp_written_more:
  assumes "write_queue (sock y) = b # c # q" "writing y = [b]"
  shows "\<exists>y'. tcp_run [EvWritten False] y = Some y' \<and>
    sock y' = (sock y)\<lparr>write_queue := c # q\<rparr> \<and> writing y' = [c] \<and> written y' = written y @ [b] \<and>
    trace y' = trace y @ [TcpWrite c]"
  using assms by (simp add: tcp_on_written_def do_write_def tcp_started_def)

lemma tcp_written_last:
  assumes "write_queue (sock y) = [b]" "writing y = [b]" "wq_status (sock y) = Safety"
    "is_closing (sock y)" "\<not> is_closed (sock y)"
  shows "\<exists>y'. tcp_run [EvWritten False] y = Some y' \<and> is_closed (sock y') \<and>
    write_queue (sock y') = [] \<and> written y' = written y @ [b] \<and>
    trace y' = trace y @ TcpCancelClose # (if cb_close (sock y) then [TcpOnClose] else [])"
  using assms by (simp add: tcp_on_written_def update_wq_status_def do_close_def tcp_started_def)

lemma tcp_run_append:
  "tcp_run (xs @ ys) y = Option.bind (tcp_run xs y) (tcp_run ys)"
  by (induction xs arbitrary: y) (auto split: option.splits sum.splits)

text \<open>The calls when a socket is given up: the owner hears of it if it asked to.\<close>

definition tcp_end :: "tcp_socket \<Rightarrow> tcp_action list" where
  "tcp_end s = TcpCancelClose # (if cb_close s then [TcpOnClose] else [])"

lemma tcp_drain_aux:
  assumes "write_queue (sock y) = b # q" "writing y = [b]" "wq_status (sock y) = Safety"
    "is_closing (sock y)" "\<not> is_closed (sock y)" "k \<le> Suc (length q)"
  shows "\<exists>y'. tcp_run (replicate k (EvWritten False)) y = Some y' \<and>
    is_closed (sock y') = (k = Suc (length q)) \<and> write_queue (sock y') = drop k (b # q) \<and>
    written y' = written y @ take k (b # q) \<and>
    trace y' = trace y @ map TcpWrite (take k q) @ (if k = Suc (length q) then tcp_end (sock y) else [])"
  using assms
proof (induction q arbitrary: y b k)
  case Nil
  then consider "k = 0" | "k = Suc 0" by fastforce
  then show ?case
  proof cases
    case 2
    with Nil tcp_written_last [of y b] show ?thesis by (auto simp: tcp_end_def)
  qed (use Nil in simp)
next
  case (Cons c q)
  show ?case
  proof (cases k)
    case (Suc n)
    from tcp_written_more [OF Cons.prems(1,2)] obtain y' where
      y': "tcp_run [EvWritten False] y = Some y'" "sock y' = (sock y)\<lparr>write_queue := c # q\<rparr>" "writing y' = [c]"
        "written y' = written y @ [b]" "trace y' = trace y @ [TcpWrite c]" by blast
    with Cons.prems Suc Cons.IH [of y' c n] obtain y'' where
      y'': "tcp_run (replicate n (EvWritten False)) y' = Some y''" "is_closed (sock y'') = (n = Suc (length q))"
        "write_queue (sock y'') = drop n (c # q)" "written y'' = written y' @ take n (c # q)"
        "trace y'' = trace y' @ map TcpWrite (take n q) @ (if n = Suc (length q) then tcp_end (sock y) else [])"
      by (auto simp: tcp_end_def)
    have "tcp_run (replicate k (EvWritten False)) y = Some y''"
      using tcp_run_append [of "[EvWritten False]" "replicate n (EvWritten False)" y] y'(1) y''(1) Suc by simp
    with y' y'' Suc show ?thesis by auto
  qed (use Cons.prems in simp)
qed

subsection \<open>The socket as a serial writer\<close>

definition tcp_ready :: "tcp_socket \<Rightarrow> bool" where
  "tcp_ready s \<longleftrightarrow> is_connected s \<and> \<not> is_closing s \<and> \<not> is_closed s"

definition tcp_enqueue :: "bytes \<Rightarrow> tcp_socket \<Rightarrow> tcp_socket" where
  "tcp_enqueue b s = (case tcp_send b s of Inl _ \<Rightarrow> s | Inr (s', _) \<Rightarrow> s')"

definition tcp_complete :: "tcp_socket \<Rightarrow> tcp_socket" where
  "tcp_complete s = (case tcp_on_written False s of Inl _ \<Rightarrow> s | Inr (s', _) \<Rightarrow> s')"

text \<open>The buffers of the next \<open>n\<close> writes, when they all succeed.\<close>

fun tcp_writes :: "nat \<Rightarrow> tcp_socket \<Rightarrow> bytes list" where
  "tcp_writes 0 s = []"
| "tcp_writes (Suc n) s = hd (write_queue s) # tcp_writes n (tcp_complete s)"

interpretation tcp_writer: serial_writer write_queue is_sending tcp_enqueue tcp_complete tcp_ready
proof (unfold_locales, goal_cases)
  case (4 s)
  then show ?case
    by (cases "write_queue s"; cases "tl (write_queue s)")
      (auto simp: tcp_complete_def tcp_on_written_def do_write_def update_wq_status_def do_close_def Let_def)
next
  case (5 s)
  then show ?case
    by (cases "write_queue s"; cases "tl (write_queue s)")
      (auto simp: tcp_complete_def tcp_on_written_def do_write_def update_wq_status_def do_close_def Let_def)
qed (auto simp: tcp_ready_def tcp_enqueue_def tcp_send_def do_write_def Let_def split: list.splits)

lemma tcp_writes_eq: "tcp_writes n s = tcp_writer.written n s"
  by (induction n arbitrary: s) auto

subsection \<open>Properties\<close>

text \<open>C17: In every reachable state of a TCP socket, whatever the owner called and however the
operations completed, the next handler runs without undefined behaviour (the queue is never empty
where its front is used), at most one write is in flight and it is the head of the queue, and the
buffers written so far followed by the queue are exactly the buffers accepted, in order.\<close>
theorem tcp_writer_safe:
  assumes "tcp_reach y"
  shows "(\<forall>e y1. consume e y = Some y1 \<longrightarrow> safe (tcp_handle e (sock y1))) \<and>
    (writing y = [] \<or> (\<exists>q. write_queue (sock y) = hd (writing y) # q \<and> length (writing y) = 1)) \<and>
    written y @ write_queue (sock y) = accepted y"
proof -
  note inv = tcp_reach_inv [OF assms]
  then have "flight_ok (sock y) (writing y)" "written y @ write_queue (sock y) = accepted y"
    by (simp_all add: tcp_inv_def)
  moreover from this(1) have "writing y = [] \<or>
      (\<exists>q. write_queue (sock y) = hd (writing y) # q \<and> length (writing y) = 1)"
    by (cases rule: flight_cases) auto
  ultimately show ?thesis using tcp_no_ub [OF inv] by (auto simp: safe_iff)
qed

theorem tcp_writer_safe_witness:
  "\<exists>y. tcp_run [EvSend [1], EvSend [2], EvWritten False] (TcpSys_new (TcpSocket_from True)) = Some y \<and>
     written y @ write_queue (sock y) = [[1], [2]]"
proof -
  let ?y0 = "TcpSys_new (TcpSocket_from True)"
  obtain y where run: "tcp_run [EvSend [1], EvSend [2], EvWritten False] ?y0 = Some y"
    and acc: "accepted y = [[1], [2]]"
    by (simp add: TcpSys_new_def TcpSocket_from_def TcpSocket_new_def tcp_send_def do_write_def
        tcp_started_def tcp_on_written_def)
  have "tcp_reach ?y0"
    by (rule tcp_reach.fresh) (simp add: tcp_initial_def TcpSocket_from_def TcpSocket_new_def)
  from tcp_writer_safe [OF tcp_run_reach [OF this run]] run acc show ?thesis by auto
qed

text \<open>C20: Flow control never happens: the write queue's status is only recomputed when the queue has
just become empty, so in every reachable state it is still \<open>Safety\<close> and the write-queue callback
has never been called, however many buffers were queued.\<close>
theorem tcp_flow_control_dead:
  assumes "tcp_reach y"
  shows "wq_status (sock y) = Safety \<and> (\<forall>q. TcpOnWriteQueue q \<notin> set (trace y))"
  using tcp_reach_inv [OF assms] by (simp add: tcp_inv_def flags_ok_def trace_ok_def)

theorem tcp_flow_control_dead_witness:
  "wq_status (sock (TcpSys_new (TcpSocket_from True))) = Safety"
proof -
  have "tcp_reach (TcpSys_new (TcpSocket_from True))"
    by (rule tcp_reach.fresh) (simp add: tcp_initial_def TcpSocket_from_def TcpSocket_new_def)
  from tcp_flow_control_dead [OF this] show ?thesis by blast
qed

text \<open>C19: The close callback is called at most once, and exactly when the socket has closed (with a
callback set), by \<open>close()\<close>, at the end of the queue or after an error; a closed socket does nothing it is
asked for. It is also called when \<open>close()\<close> comes before the connection is up, which the comment of \<open>close()\<close>
in \<open>tcp_socket.h\<close> denies.\<close>
theorem tcp_close_callback_once:
  assumes "tcp_reach y"
  shows "count_list (trace y) TcpOnClose = (if is_closed (sock y) \<and> cb_close (sock y) then 1 else 0) \<and>
    (is_closed (sock y) \<longrightarrow> tcp_send b (sock y) = Inr (sock y, []) \<and> tcp_close (sock y) = Inr (sock y, [])) \<and>
    (\<not> is_connected (sock y) \<longrightarrow> \<not> is_closing (sock y) \<longrightarrow>
       tcp_close (sock y) = Inr ((sock y)\<lparr>is_closing := True, is_closed := True\<rparr>,
         TcpCancelClose # (if cb_close (sock y) then [TcpOnClose] else [])))"
  using tcp_reach_inv [OF assms]
  by (auto simp: tcp_inv_def flags_ok_def trace_ok_def tcp_send_def tcp_close_def do_close_def Let_def)

theorem tcp_close_callback_once_witness:
  "\<exists>y. tcp_run [EvClose, EvClose] (TcpSys_new (setCloseCallback (TcpSocket_from True))) = Some y \<and>
     count_list (trace y) TcpOnClose = 1"
proof -
  let ?y0 = "TcpSys_new (setCloseCallback (TcpSocket_from True))"
  obtain y where run: "tcp_run [EvClose, EvClose] ?y0 = Some y"
    and closed: "is_closed (sock y)" "cb_close (sock y)"
    by (simp add: TcpSys_new_def TcpSocket_from_def TcpSocket_new_def setCloseCallback_def tcp_close_def
        do_close_def tcp_started_def)
  have "tcp_reach ?y0"
    by (rule tcp_reach.fresh)
      (simp add: tcp_initial_def TcpSocket_from_def TcpSocket_new_def setCloseCallback_def)
  then have reach: "tcp_reach y" using run by (rule tcp_run_reach)
  from tcp_close_callback_once [OF reach] run closed show ?thesis
    by (auto simp del: tcp_run.simps)
qed

text \<open>C18: Closing drains: \<open>close()\<close> on a connected socket neither closes it nor cancels anything while a
buffer is queued; every write that then completes takes the next buffer from the queue, in order, and starts
the write of the one behind it; and exactly when the last queued buffer has been written the socket is
cancelled and closed and the owner told, so that by then every buffer ever accepted has been written.\<close>
theorem tcp_close_drains:
  assumes "tcp_reach y" "is_connected (sock y)" "\<not> is_closing (sock y)" "k \<le> length (write_queue (sock y))"
  shows "(\<exists>y'. tcp_run (EvClose # replicate k (EvWritten False)) y = Some y' \<and>
      is_closed (sock y') = (k = length (write_queue (sock y))) \<and>
      write_queue (sock y') = drop k (write_queue (sock y)) \<and>
      written y' = written y @ take k (write_queue (sock y)) \<and>
      trace y' = trace y @ map TcpWrite (take k (tl (write_queue (sock y)))) @
        (if k = length (write_queue (sock y)) then TcpCancelClose # (if cb_close (sock y) then [TcpOnClose] else [])
         else [])) \<and>
    written y @ write_queue (sock y) = accepted y"
proof -
  from tcp_reach_inv [OF assms(1)] have fl: "flight_ok (sock y) (writing y)"
    and flags: "flags_ok (sock y)" and acc: "written y @ write_queue (sock y) = accepted y"
    by (simp_all add: tcp_inv_def)
  from flags assms(3) have opn: "\<not> is_closed (sock y)" "wq_status (sock y) = Safety"
    by (auto simp: flags_ok_def)
  from fl show ?thesis
  proof (cases rule: flight_cases)
    case idle
    with flags opn have "write_queue (sock y) = []" "\<not> is_sending (sock y)"
      by (auto simp: flags_ok_def)
    with assms opn acc show ?thesis by (simp add: tcp_close_def do_close_def tcp_started_def)
  next
    case (busy b q)
    let ?y = "tcp_started ((sock y)\<lparr>is_closing := True\<rparr>) [] y"
    have "tcp_close (sock y) = Inr ((sock y)\<lparr>is_closing := True\<rparr>, [])"
      using assms opn busy by (simp add: tcp_close_def)
    then have run: "tcp_run (EvClose # es) y = tcp_run es ?y" for es by simp
    have "\<exists>y'. tcp_run (replicate k (EvWritten False)) ?y = Some y' \<and>
      is_closed (sock y') = (k = Suc (length q)) \<and> write_queue (sock y') = drop k (b # q) \<and>
      written y' = written ?y @ take k (b # q) \<and>
      trace y' = trace ?y @ map TcpWrite (take k q) @ (if k = Suc (length q) then tcp_end (sock ?y) else [])"
      by (rule tcp_drain_aux) (use busy opn assms(4) in \<open>simp_all add: tcp_started_def\<close>)
    then obtain y' where y': "tcp_run (replicate k (EvWritten False)) ?y = Some y'"
      "is_closed (sock y') = (k = Suc (length q))" "write_queue (sock y') = drop k (b # q)"
      "written y' = written ?y @ take k (b # q)"
      "trace y' = trace ?y @ map TcpWrite (take k q) @ (if k = Suc (length q) then tcp_end (sock ?y) else [])" by blast
    from y'(1) have "tcp_run (EvClose # replicate k (EvWritten False)) y = Some y'" unfolding run .
    with y'(2-5) busy(3) acc show ?thesis
      by (intro conjI exI [of _ y']) (simp_all add: tcp_started_def tcp_end_def del: tcp_run.simps)
  qed
qed

theorem tcp_close_drains_witness:
  "\<exists>y y1 y2. tcp_run [EvSend [1], EvSend [2]] (TcpSys_new (TcpSocket_from True)) = Some y \<and>
     tcp_run [EvClose, EvWritten False] y = Some y1 \<and> \<not> is_closed (sock y1) \<and> written y1 = [[1]] \<and>
     tcp_run [EvClose, EvWritten False, EvWritten False] y = Some y2 \<and> is_closed (sock y2) \<and> written y2 = [[1], [2]]"
proof -
  let ?y0 = "TcpSys_new (TcpSocket_from True)"
  obtain y where run: "tcp_run [EvSend [1], EvSend [2]] ?y0 = Some y"
    and y: "is_connected (sock y)" "\<not> is_closing (sock y)" "write_queue (sock y) = [[1], [2]]" "written y = []"
    by (simp add: TcpSys_new_def TcpSocket_from_def TcpSocket_new_def tcp_send_def do_write_def
        tcp_started_def)
  have "tcp_reach ?y0"
    by (rule tcp_reach.fresh) (simp add: tcp_initial_def TcpSocket_from_def TcpSocket_new_def)
  note drains = tcp_close_drains [OF tcp_run_reach [OF this run] y(1,2)]
  from drains [of 1] y(3,4) obtain y1 where
    y1: "tcp_run [EvClose, EvWritten False] y = Some y1" "\<not> is_closed (sock y1)" "written y1 = [[1]]"
    by (auto simp del: tcp_run.simps)
  from drains [of 2] y(3,4) obtain y2 where
    "tcp_run [EvClose, EvWritten False, EvWritten False] y = Some y2" "is_closed (sock y2)" "written y2 = [[1], [2]]"
    by (auto simp: numeral_2_eq_2 simp del: tcp_run.simps)
  with run y1 show ?thesis by blast
qed

text \<open>Buffers sent to a ready socket leave in the order they were sent, after those already
queued, each once; when all those writes have completed the queue is empty and no write is in flight.\<close>
theorem tcp_sends_in_order:
  assumes "tcp_ready s" "is_sending s = (write_queue s \<noteq> [])"
    and "s' = fold tcp_enqueue bufs s" "n = length (write_queue s) + length bufs"
  shows "write_queue s' = write_queue s @ bufs \<and> tcp_writes n s' = write_queue s @ bufs \<and>
    write_queue ((tcp_complete ^^ n) s') = [] \<and> \<not> is_sending ((tcp_complete ^^ n) s')"
proof -
  have q: "write_queue s' = write_queue s @ bufs"
    using tcp_writer.queue_enqueues [OF assms(1), of bufs] assms(3) by simp
  have coh: "tcp_writer.coherent s'"
    unfolding assms(3) using assms(1,2)
    by (induction bufs arbitrary: s)
      (auto simp: tcp_writer.coherent_def tcp_writer.queue_enqueue tcp_writer.sending_enqueue
        tcp_writer.ready_enqueue)
  have it: "(tcp_complete ^^ k) t = tcp_writer.completes k t" for k t
    by (induction k arbitrary: t) (simp_all add: funpow_swap1 del: funpow.simps(2) add: funpow_Suc_right)
  from tcp_writer.drained [OF coh] q assms(4) show ?thesis
    by (simp add: it tcp_writes_eq)
qed

theorem tcp_sends_in_order_witness:
  "tcp_writes 2 (fold tcp_enqueue [[1], [2]] (TcpSocket_from True)) = [[1], [2]]"
  using tcp_sends_in_order [of "TcpSocket_from True" _ "[[1], [2]]" 2]
  by (simp add: tcp_ready_def TcpSocket_from_def TcpSocket_new_def)

text \<open>Pausing and resuming while a read is in flight starts a second one: \<open>startReading\<close> does not
know that the read \<open>stopReading\<close> left pending is still there, so on any reachable open connected
socket the pair adds a read into the same \<open>read_buf_\<close>.\<close>
theorem tcp_resume_doubles_read:
  assumes "is_connected (sock y)" "\<not> is_closing (sock y)" "\<not> is_closed (sock y)"
  shows "\<exists>y'. tcp_run [EvStopReading, EvStartReading] y = Some y' \<and> reading y' = Suc (reading y)"
  using assms by (simp add: stopReading_def startReading_def do_read_def tcp_started_def)

theorem tcp_resume_doubles_read_witness:
  "\<exists>y'. tcp_run [EvStart, EvStopReading, EvStartReading] (TcpSys_new (TcpSocket_from True)) = Some y' \<and>
     reading y' = 2"
proof -
  obtain y where y: "tcp_run [EvStart] (TcpSys_new (TcpSocket_from True)) = Some y"
      "is_connected (sock y)" "\<not> is_closing (sock y)" "\<not> is_closed (sock y)" "reading y = 1"
    by (simp add: TcpSys_new_def TcpSocket_from_def TcpSocket_new_def tcp_start_def do_read_def
        tcp_started_def)
  from tcp_resume_doubles_read [OF y(2-4)] y(1,5) show ?thesis
    using tcp_run_append [of "[EvStart]" "[EvStopReading, EvStartReading]" "TcpSys_new (TcpSocket_from True)"]
    by auto
qed

text \<open>A close before the connection is up does call the close callback (the header says it does
not), and a connect that completes afterwards still reports success to the owner and starts reading.\<close>
theorem tcp_close_before_connected:
  "\<exists>y. tcp_run [EvConnect host port, EvResolved False, EvClose, EvConnected False]
      (TcpSys_new (setConnectCallback (setCloseCallback TcpSocket_new))) = Some y \<and>
    trace y = [TcpResolve host port, TcpConnectStart, TcpCancelClose, TcpOnClose, TcpOnConnect True, TcpRead]"
  by (simp add: TcpSys_new_def TcpSocket_new_def setConnectCallback_def setCloseCallback_def
      tcp_connect_def tcp_on_resolved_def tcp_close_def do_close_def tcp_on_connected_def do_read_def
      tcp_started_def)

end
