(* ===== verification/UdpSocket.thy ===== *)
theory UdpSocket
  imports RtcPrelude
begin

text \<open>
  \<open>Src/common/include/udp_socket.h\<close> and \<open>Src/common/src/udp_socket.cpp\<close>: the UDP channel. As in
  the TCP channel every closure runs in a strand, so it is a handler on the socket's state; every
  queued datagram is resolved first and then sent, so the writer has two stages per datagram.
  Which operations are in flight and what completes next is \<open>udp_step\<close>.
\<close>

subsection \<open>State and handlers\<close>

record pending_send =
  target_host :: string
  target_port :: u16
  send_bytes :: bytes

record udp_socket =
  us_local :: "u16 option"
  us_open :: bool
  send_queue :: "pending_send list"
  us_sending :: bool
  us_closing :: bool
  us_closed :: bool
  us_reading :: bool
  us_cb_open :: bool
  us_cb_data :: bool
  us_cb_close :: bool
  us_cb_write_queue :: bool

datatype udp_action =
    UdpResolve pending_send
  | UdpSendTo pending_send
  | UdpReceive
  | UdpCancelClose
  | UdpOnOpen bool
  | UdpOnData string u16 bytes
  | UdpOnClose

type_synonym udp_result = "(udp_socket \<times> udp_action list) cpp"

text \<open>\<open>us_local\<close> is the Asio socket: \<open>None\<close> when it is not open, otherwise its local port.\<close>

definition UdpSocket_new :: udp_socket where
  "UdpSocket_new =
     \<lparr>us_local = None, us_open = False, send_queue = [], us_sending = False, us_closing = False,
      us_closed = False, us_reading = True, us_cb_open = False, us_cb_data = False,
      us_cb_close = False, us_cb_write_queue = False\<rparr>"

definition udp_setOpenCallback :: "udp_socket \<Rightarrow> udp_socket" where
  "udp_setOpenCallback s = s\<lparr>us_cb_open := True\<rparr>"

definition udp_setDataCallback :: "udp_socket \<Rightarrow> udp_socket" where
  "udp_setDataCallback s = s\<lparr>us_cb_data := True\<rparr>"

definition udp_setCloseCallback :: "udp_socket \<Rightarrow> udp_socket" where
  "udp_setCloseCallback s = s\<lparr>us_cb_close := True\<rparr>"

definition udp_setWriteQueueCallback :: "udp_socket \<Rightarrow> udp_socket" where
  "udp_setWriteQueueCallback s = s\<lparr>us_cb_write_queue := True\<rparr>"

definition udp_do_read :: "udp_socket \<Rightarrow> udp_action list" where
  "udp_do_read s = [UdpReceive]"

text \<open>
  \<open>start\<close>: whether the system opens the socket, and the port it binds it to (\<open>None\<close> when it does
  not), are arguments. A socket that could not be bound stays open, on port 0.
\<close>

definition udp_start :: "bool \<Rightarrow> u16 option \<Rightarrow> udp_socket \<Rightarrow> udp_result" where
  "udp_start open_ec bound s =
     (if open_ec then Inr (s, if us_cb_open s then [UdpOnOpen False] else [])
      else case bound of
        None \<Rightarrow> Inr (s\<lparr>us_local := Some 0\<rparr>, if us_cb_open s then [UdpOnOpen False] else [])
      | Some p \<Rightarrow>
          let s' = s\<lparr>us_local := Some p, us_open := True\<rparr> in
          Inr (s', (if us_cb_open s' then [UdpOnOpen True] else []) @ udp_do_read s'))"

definition do_send_next :: "udp_socket \<Rightarrow> udp_action list cpp" where
  "do_send_next s = (case send_queue s of [] \<Rightarrow> Inl OutOfBounds | it # _ \<Rightarrow> Inr [UdpResolve it])"

definition udp_do_close :: "udp_socket \<Rightarrow> udp_socket \<times> udp_action list" where
  "udp_do_close s =
     (if us_closed s then (s, [])
      else (s\<lparr>us_closed := True, us_local := None\<rparr>,
            (if us_local s \<noteq> None then [UdpCancelClose] else []) @
            (if us_cb_close s then [UdpOnClose] else [])))"

definition udp_send :: "pending_send \<Rightarrow> udp_socket \<Rightarrow> udp_result" where
  "udp_send it s =
     (if \<not> us_open s \<or> us_closing s \<or> us_closed s then Inr (s, [])
      else let s1 = s\<lparr>send_queue := send_queue s @ [it]\<rparr> in
        if \<not> us_sending s1
        then let s2 = s1\<lparr>us_sending := True\<rparr> in cbind (do_send_next s2) (\<lambda>a. Inr (s2, a))
        else Inr (s1, []))"

text \<open>The overload that copies \<open>len\<close> bytes from a pointer.\<close>

definition udp_send_copy :: "bytes \<Rightarrow> nat \<Rightarrow> string \<Rightarrow> u16 \<Rightarrow> udp_socket \<Rightarrow> udp_result" where
  "udp_send_copy data len host port s =
     cbind (rd_range data 0 len) (\<lambda>d.
       udp_send \<lparr>target_host = host, target_port = port, send_bytes = d\<rparr> s)"

definition udp_close :: "udp_socket \<Rightarrow> udp_result" where
  "udp_close s =
     (if us_closing s \<or> us_closed s then Inr (s, [])
      else let s1 = s\<lparr>us_closing := True\<rparr> in
        if \<not> us_open s1 then Inr (udp_do_close s1)
        else if \<not> us_sending s1 \<and> send_queue s1 = [] then Inr (udp_do_close s1)
        else Inr (s1, []))"

definition udp_startReading :: "udp_socket \<Rightarrow> udp_result" where
  "udp_startReading s =
     (if us_reading s \<or> us_closing s \<or> us_closed s then Inr (s, [])
      else let s1 = s\<lparr>us_reading := True\<rparr> in
        if us_open s1 then Inr (s1, udp_do_read s1) else Inr (s1, []))"

definition udp_stopReading :: "udp_socket \<Rightarrow> udp_result" where
  "udp_stopReading s = Inr (s\<lparr>us_reading := False\<rparr>, [])"

text \<open>\<open>local_endpoint()\<close> of a socket that is not open throws.\<close>

definition getLocalPort :: "udp_socket \<Rightarrow> u16 cpp" where
  "getLocalPort s = (case us_local s of None \<Rightarrow> Inl SystemError | Some p \<Rightarrow> Inr p)"

text \<open>What follows a datagram that left the queue: the next one, or idle and perhaps closed.\<close>

definition udp_next :: "udp_socket \<Rightarrow> udp_result" where
  "udp_next s1 =
     (if send_queue s1 \<noteq> [] then cbind (do_send_next s1) (\<lambda>a. Inr (s1, a))
      else let s2 = s1\<lparr>us_sending := False\<rparr> in
        if us_closing s2 then Inr (udp_do_close s2) else Inr (s2, []))"

definition udp_on_resolved :: "bool \<Rightarrow> udp_socket \<Rightarrow> udp_result" where
  "udp_on_resolved ec s =
     (case send_queue s of [] \<Rightarrow> Inl OutOfBounds
      | it # q \<Rightarrow>
        if ec then udp_next (s\<lparr>send_queue := q\<rparr>)
        else Inr (s, [UdpSendTo it]))"

definition udp_on_sent :: "bool \<Rightarrow> udp_socket \<Rightarrow> udp_result" where
  "udp_on_sent ec s =
     (if ec then Inr (udp_do_close (s\<lparr>us_closing := True\<rparr>))
      else case send_queue s of [] \<Rightarrow> Inl OutOfBounds
        | it # q \<Rightarrow> udp_next (s\<lparr>send_queue := q\<rparr>))"

definition udp_on_read :: "(string \<times> u16 \<times> bytes) option \<Rightarrow> udp_socket \<Rightarrow> udp_result" where
  "udp_on_read r s =
     (case r of None \<Rightarrow> Inr (udp_do_close (s\<lparr>us_closing := True\<rparr>))
      | Some (host, port, d) \<Rightarrow>
        Inr (s, (if us_cb_data s then [UdpOnData host port d] else []) @
                (if us_reading s then udp_do_read s else [])))"

definition udp_destroy :: "udp_socket \<Rightarrow> udp_socket" where
  "udp_destroy s = s\<lparr>send_queue := []\<rparr>"

subsection \<open>The socket with its operations in flight\<close>

datatype udp_event =
    UevStart bool "u16 option"
  | UevSend pending_send
  | UevClose
  | UevStartReading
  | UevStopReading
  | UevResolved bool
  | UevSent bool
  | UevRead "(string \<times> u16 \<times> bytes) option"

fun udp_handle :: "udp_event \<Rightarrow> udp_socket \<Rightarrow> udp_result" where
  "udp_handle (UevStart ec b) s = udp_start ec b s"
| "udp_handle (UevSend it) s = udp_send it s"
| "udp_handle UevClose s = udp_close s"
| "udp_handle UevStartReading s = udp_startReading s"
| "udp_handle UevStopReading s = udp_stopReading s"
| "udp_handle (UevResolved ec) s = udp_on_resolved ec s"
| "udp_handle (UevSent ec) s = udp_on_sent ec s"
| "udp_handle (UevRead r) s = udp_on_read r s"

text \<open>
  \<open>u_ops\<close> are the resolve and send operations in flight, \<open>u_reads\<close> the number of receives.
  \<open>u_accepted\<close> and \<open>u_done\<close> are histories: the datagrams that entered the queue, and those that left
  it with whether they were sent (a datagram whose target does not resolve is dropped).
\<close>

record udp_sys =
  u_sock :: udp_socket
  u_ops :: "udp_action list"
  u_reads :: nat
  u_accepted :: "pending_send list"
  u_done :: "(pending_send \<times> bool) list"
  u_trace :: "udp_action list"

fun act_udp :: "udp_action \<Rightarrow> udp_sys \<Rightarrow> udp_sys" where
  "act_udp (UdpResolve it) y = y\<lparr>u_ops := u_ops y @ [UdpResolve it]\<rparr>"
| "act_udp (UdpSendTo it) y = y\<lparr>u_ops := u_ops y @ [UdpSendTo it]\<rparr>"
| "act_udp UdpReceive y = y\<lparr>u_reads := Suc (u_reads y)\<rparr>"
| "act_udp _ y = y"

definition udp_started :: "udp_socket \<Rightarrow> udp_action list \<Rightarrow> udp_sys \<Rightarrow> udp_sys" where
  "udp_started s acts y = fold act_udp acts (y\<lparr>u_sock := s, u_trace := u_trace y @ acts\<rparr>)"

definition UdpSys_new :: "udp_socket \<Rightarrow> udp_sys" where
  "UdpSys_new s = \<lparr>u_sock = s, u_ops = [], u_reads = 0, u_accepted = [], u_done = [], u_trace = []\<rparr>"

fun udp_consume :: "udp_event \<Rightarrow> udp_sys \<Rightarrow> udp_sys option" where
  "udp_consume (UevResolved ec) y =
     (case u_ops y of UdpResolve it # ops \<Rightarrow>
        Some (y\<lparr>u_ops := ops, u_done := (if ec then u_done y @ [(it, False)] else u_done y)\<rparr>)
      | _ \<Rightarrow> None)"
| "udp_consume (UevSent ec) y =
     (case u_ops y of UdpSendTo it # ops \<Rightarrow>
        Some (y\<lparr>u_ops := ops, u_done := (if ec then u_done y else u_done y @ [(it, True)])\<rparr>)
      | _ \<Rightarrow> None)"
| "udp_consume (UevRead r) y = (case u_reads y of 0 \<Rightarrow> None | Suc n \<Rightarrow> Some (y\<lparr>u_reads := n\<rparr>))"
| "udp_consume (UevSend it) y =
     Some (if \<not> us_open (u_sock y) \<or> us_closing (u_sock y) \<or> us_closed (u_sock y) then y
           else y\<lparr>u_accepted := u_accepted y @ [it]\<rparr>)"
| "udp_consume e y = Some y"

inductive udp_step :: "udp_sys \<Rightarrow> udp_event \<Rightarrow> udp_sys \<Rightarrow> bool" where
  step: "udp_consume e y = Some y1 \<Longrightarrow> udp_handle e (u_sock y1) = Inr (s, acts) \<Longrightarrow>
     udp_step y e (udp_started s acts y1)"

definition udp_initial :: "udp_socket \<Rightarrow> bool" where
  "udp_initial s \<longleftrightarrow>
     s = UdpSocket_new\<lparr>us_cb_open := us_cb_open s, us_cb_data := us_cb_data s,
        us_cb_close := us_cb_close s, us_cb_write_queue := us_cb_write_queue s\<rparr>"

inductive udp_reach :: "udp_sys \<Rightarrow> bool" where
  fresh: "udp_initial s \<Longrightarrow> udp_reach (UdpSys_new s)"
| more: "udp_reach y \<Longrightarrow> udp_step y e y' \<Longrightarrow> udp_reach y'"

inductive_simps udp_step_iff: "udp_step y e y'"

subsection \<open>The invariant\<close>

definition udp_flags_ok :: "udp_socket \<Rightarrow> bool" where
  "udp_flags_ok s \<longleftrightarrow>
     (us_closed s \<longrightarrow> us_closing s) \<and> (us_sending s \<longrightarrow> us_open s) \<and>
     (\<not> us_sending s \<longrightarrow> send_queue s = [])"

text \<open>The stages of the head of the queue: nothing in flight, being resolved, being sent.\<close>

definition udp_flight_ok :: "udp_socket \<Rightarrow> udp_action list \<Rightarrow> bool" where
  "udp_flight_ok s ops \<longleftrightarrow>
     (ops = [] \<and> (us_sending s \<longrightarrow> us_closed s) \<and> (us_closing s \<longrightarrow> us_closed s)) \<or>
     (\<exists>it q. us_sending s \<and> send_queue s = it # q \<and> (ops = [UdpResolve it] \<or> ops = [UdpSendTo it]))"

definition udp_trace_ok :: "udp_socket \<Rightarrow> udp_action list \<Rightarrow> bool" where
  "udp_trace_ok s tr \<longleftrightarrow> count_list tr UdpOnClose = (if us_closed s \<and> us_cb_close s then 1 else 0)"

definition udp_inv :: "udp_sys \<Rightarrow> bool" where
  "udp_inv y \<longleftrightarrow>
     udp_flags_ok (u_sock y) \<and> udp_flight_ok (u_sock y) (u_ops y) \<and>
     udp_trace_ok (u_sock y) (u_trace y) \<and>
     map fst (u_done y) @ send_queue (u_sock y) = u_accepted y"

lemma udp_flight_cases:
  assumes "udp_flight_ok s ops"
  obtains (idle) "ops = []" "us_sending s \<Longrightarrow> us_closed s" "us_closing s \<Longrightarrow> us_closed s"
  | (resolving) it q where "ops = [UdpResolve it]" "us_sending s" "send_queue s = it # q"
  | (sending) it q where "ops = [UdpSendTo it]" "us_sending s" "send_queue s = it # q"
  using assms by (auto simp: udp_flight_ok_def)

lemma udp_inv_initial: "udp_initial s \<Longrightarrow> udp_inv (UdpSys_new s)"
  by (cases s) (auto simp: udp_initial_def udp_inv_def UdpSys_new_def UdpSocket_new_def
      udp_flags_ok_def udp_flight_ok_def udp_trace_ok_def)

fun ops_of :: "udp_action list \<Rightarrow> udp_action list" where
  "ops_of [] = []"
| "ops_of (UdpResolve it # acts) = UdpResolve it # ops_of acts"
| "ops_of (UdpSendTo it # acts) = UdpSendTo it # ops_of acts"
| "ops_of (_ # acts) = ops_of acts"

lemma act_udp_fields [simp]:
  "u_sock (fold act_udp acts y) = u_sock y" "u_trace (fold act_udp acts y) = u_trace y"
  "u_accepted (fold act_udp acts y) = u_accepted y" "u_done (fold act_udp acts y) = u_done y"
  "u_ops (fold act_udp acts y) = u_ops y @ ops_of acts"
  by (induction acts arbitrary: y rule: ops_of.induct) auto

lemma udp_inv_started:
  "udp_inv (udp_started s acts y) \<longleftrightarrow>
     udp_flags_ok s \<and> udp_flight_ok s (u_ops y @ ops_of acts) \<and> udp_trace_ok s (u_trace y @ acts) \<and>
     map fst (u_done y) @ send_queue s = u_accepted y"
  by (simp add: udp_inv_def udp_started_def)

lemma udp_do_close_inv:
  assumes "udp_do_close s = (s', acts)" "us_closing s" "udp_trace_ok s tr"
    "us_sending s \<longrightarrow> us_open s" "\<not> us_sending s \<longrightarrow> send_queue s = []"
  shows "udp_flags_ok s' \<and> udp_trace_ok s' (tr @ acts) \<and> send_queue s' = send_queue s \<and>
    us_closed s' \<and> us_sending s' = us_sending s \<and> ops_of acts = []"
  using assms by (auto simp: udp_do_close_def udp_flags_ok_def udp_trace_ok_def split: if_splits)

lemma udp_next_inv:
  assumes "udp_next s = Inr (s', acts)" "us_sending s" "udp_flags_ok s" "udp_trace_ok s tr"
  shows "udp_flags_ok s' \<and> udp_flight_ok s' (ops_of acts) \<and> udp_trace_ok s' (tr @ acts) \<and>
    send_queue s' = send_queue s"
proof (cases "send_queue s")
  case (Cons it q)
  with assms show ?thesis
    by (auto simp: udp_next_def do_send_next_def udp_flight_ok_def udp_trace_ok_def)
next
  case Nil
  let ?s = "s\<lparr>us_sending := False\<rparr>"
  show ?thesis
  proof (cases "us_closing s")
    case False
    with Nil assms show ?thesis
      by (auto simp: udp_next_def udp_flight_ok_def udp_trace_ok_def udp_flags_ok_def)
  next
    case True
    with Nil assms(1) have "udp_do_close ?s = (s', acts)" by (simp add: udp_next_def)
    from udp_do_close_inv [OF this, of tr] True Nil assms(4) show ?thesis
      by (simp add: udp_flight_ok_def udp_trace_ok_def)
  qed
qed

text \<open>Handlers that leave the queue and the writer's flags alone.\<close>

definition udp_quiet :: "udp_socket \<Rightarrow> udp_socket \<Rightarrow> udp_action list \<Rightarrow> bool" where
  "udp_quiet s s' acts \<longleftrightarrow>
     send_queue s' = send_queue s \<and> us_sending s' = us_sending s \<and> us_closing s' = us_closing s \<and>
     us_closed s' = us_closed s \<and> us_cb_close s' = us_cb_close s \<and>
     (us_open s \<longrightarrow> us_open s') \<and> ops_of acts = [] \<and> UdpOnClose \<notin> set acts"

fun udp_quiet_event :: "udp_event \<Rightarrow> bool" where
  "udp_quiet_event (UevStart ec b) = True"
| "udp_quiet_event UevStartReading = True"
| "udp_quiet_event UevStopReading = True"
| "udp_quiet_event (UevRead (Some r)) = True"
| "udp_quiet_event _ = False"

lemma udp_quiet_handle:
  "udp_quiet_event e \<Longrightarrow> udp_handle e s = Inr (s', acts) \<Longrightarrow> udp_quiet s s' acts"
  by (cases e rule: udp_quiet_event.cases)
    (auto simp: udp_quiet_def udp_start_def udp_do_read_def udp_startReading_def udp_stopReading_def
      udp_on_read_def Let_def split: if_splits option.splits)

lemma udp_quiet_consume:
  "udp_quiet_event e \<Longrightarrow> udp_consume e y = Some y1 \<Longrightarrow>
     u_sock y1 = u_sock y \<and> u_ops y1 = u_ops y \<and> u_trace y1 = u_trace y \<and>
     u_accepted y1 = u_accepted y \<and> u_done y1 = u_done y"
  by (cases e rule: udp_quiet_event.cases) (auto split: nat.splits)

lemma udp_quiet_inv:
  assumes "udp_inv y" "udp_quiet_event e" "udp_consume e y = Some y1"
    "udp_handle e (u_sock y1) = Inr (s, acts)"
  shows "udp_inv (udp_started s acts y1)"
proof -
  from udp_quiet_consume [OF assms(2,3)] udp_quiet_handle [OF assms(2,4)]
  have q: "udp_quiet (u_sock y) s acts" by simp
  from assms(1) have fl: "udp_flight_ok (u_sock y) (u_ops y)" and fg: "udp_flags_ok (u_sock y)"
    and tr: "udp_trace_ok (u_sock y) (u_trace y)"
    and acc: "map fst (u_done y) @ send_queue (u_sock y) = u_accepted y"
    by (simp_all add: udp_inv_def)
  from q fl have "udp_flight_ok s (u_ops y)" by (simp add: udp_quiet_def udp_flight_ok_def)
  moreover from q fg have "udp_flags_ok s" by (auto simp: udp_quiet_def udp_flags_ok_def)
  moreover from q tr have "udp_trace_ok s (u_trace y @ acts)"
    by (simp add: udp_quiet_def udp_trace_ok_def)
  ultimately show ?thesis
    unfolding udp_inv_started using q acc udp_quiet_consume [OF assms(2,3)]
    by (simp add: udp_quiet_def)
qed

lemma udp_inv_send:
  assumes "udp_inv y" "udp_consume (UevSend it) y = Some y1" "udp_send it (u_sock y1) = Inr (s, acts)"
  shows "udp_inv (udp_started s acts y1)"
proof (cases "\<not> us_open (u_sock y) \<or> us_closing (u_sock y) \<or> us_closed (u_sock y)")
  case True
  with assms show ?thesis unfolding udp_inv_started by (auto simp: udp_send_def udp_inv_def)
next
  case False
  from assms(1) have fl: "udp_flight_ok (u_sock y) (u_ops y)" and fg: "udp_flags_ok (u_sock y)"
    and tr: "udp_trace_ok (u_sock y) (u_trace y)"
    and acc: "map fst (u_done y) @ send_queue (u_sock y) = u_accepted y"
    by (simp_all add: udp_inv_def)
  from assms(2) False have y1: "y1 = y\<lparr>u_accepted := u_accepted y @ [it]\<rparr>" by auto
  show ?thesis
  proof (cases "us_sending (u_sock y)")
    case True
    with assms(3) False have s: "s = (u_sock y)\<lparr>send_queue := send_queue (u_sock y) @ [it]\<rparr>" "acts = []"
      by (auto simp: y1 udp_send_def)
    from fl True False have "udp_flight_ok s (u_ops y)"
      by (auto simp: s udp_flight_ok_def)
    with s fg tr acc True show ?thesis
      unfolding udp_inv_started y1 by (simp add: udp_flags_ok_def udp_trace_ok_def flip: append_assoc)
  next
    case idle: False
    with fg fl have q: "send_queue (u_sock y) = []" "u_ops y = []"
      by (auto simp: udp_flags_ok_def udp_flight_ok_def)
    with assms(3) False idle have s: "s = (u_sock y)\<lparr>send_queue := [it], us_sending := True\<rparr>"
        "acts = [UdpResolve it]"
      by (auto simp: y1 udp_send_def do_send_next_def)
    with q fg tr acc False show ?thesis
      unfolding udp_inv_started y1
      by (simp add: udp_flags_ok_def udp_trace_ok_def udp_flight_ok_def)
  qed
qed

lemma udp_inv_close:
  assumes "udp_inv y" "udp_close (u_sock y) = Inr (s, acts)"
  shows "udp_inv (udp_started s acts y)"
proof (cases "us_closing (u_sock y) \<or> us_closed (u_sock y)")
  case True
  with assms show ?thesis unfolding udp_inv_started by (auto simp: udp_close_def udp_inv_def)
next
  case False
  from assms(1) have "udp_flight_ok (u_sock y) (u_ops y)" by (simp add: udp_inv_def)
  then show ?thesis
    using assms False unfolding udp_inv_started
    by (cases rule: udp_flight_cases)
      (auto simp: udp_close_def udp_do_close_def Let_def udp_inv_def udp_flags_ok_def
        udp_trace_ok_def udp_flight_ok_def split: if_splits)
qed

text \<open>Errors close the socket whatever is in flight.\<close>

lemma udp_inv_error:
  assumes "udp_inv y" "udp_do_close ((u_sock y)\<lparr>us_closing := True\<rparr>) = (s, acts)"
    "u_sock y1 = u_sock y" "u_trace y1 = u_trace y" "u_accepted y1 = u_accepted y"
    "u_done y1 = u_done y" "u_ops y1 = u_ops y \<or> u_ops y1 = []"
  shows "udp_inv (udp_started s acts y1)"
proof -
  from assms(1) have fl: "udp_flight_ok (u_sock y) (u_ops y)" and fg: "udp_flags_ok (u_sock y)"
    and tr: "udp_trace_ok (u_sock y) (u_trace y)"
    and acc: "map fst (u_done y) @ send_queue (u_sock y) = u_accepted y"
    by (simp_all add: udp_inv_def)
  from fg tr have "udp_flags_ok s \<and> udp_trace_ok s (u_trace y @ acts) \<and>
      send_queue s = send_queue (u_sock y) \<and> us_closed s \<and> us_sending s = us_sending (u_sock y) \<and>
      ops_of acts = []"
    using udp_do_close_inv [OF assms(2), of "u_trace y"]
    by (auto simp: udp_flags_ok_def udp_trace_ok_def)
  moreover from this fl assms(7) have "udp_flight_ok s (u_ops y1 @ ops_of acts)"
    by (auto simp: udp_flight_ok_def)
  ultimately show ?thesis
    unfolding udp_inv_started using acc assms(4-6) by simp
qed

lemma udp_inv_resolved:
  assumes "udp_inv y" "udp_consume (UevResolved ec) y = Some y1"
    "udp_on_resolved ec (u_sock y1) = Inr (s, acts)"
  shows "udp_inv (udp_started s acts y1)"
proof -
  from assms(1) have fl: "udp_flight_ok (u_sock y) (u_ops y)" and fg: "udp_flags_ok (u_sock y)"
    and tr: "udp_trace_ok (u_sock y) (u_trace y)"
    and acc: "map fst (u_done y) @ send_queue (u_sock y) = u_accepted y"
    by (simp_all add: udp_inv_def)
  from fl show ?thesis
  proof (cases rule: udp_flight_cases)
    case (resolving it q)
    show ?thesis
    proof (cases ec)
      case True
      let ?s = "(u_sock y)\<lparr>send_queue := q\<rparr>"
      from True resolving assms(2,3) have y1: "y1 = y\<lparr>u_ops := [], u_done := u_done y @ [(it, False)]\<rparr>"
        and nx: "udp_next ?s = Inr (s, acts)"
        by (auto simp: udp_on_resolved_def)
      from resolving fg have "us_sending ?s" "udp_flags_ok ?s" by (simp_all add: udp_flags_ok_def)
      from udp_next_inv [OF nx this, of "u_trace y"] tr acc resolving show ?thesis
        unfolding udp_inv_started y1 by (simp add: udp_trace_ok_def)
    next
      case False
      with resolving assms(2,3) fg tr acc show ?thesis
        unfolding udp_inv_started by (auto simp: udp_on_resolved_def udp_flight_ok_def udp_trace_ok_def)
    qed
  qed (use assms(2) in auto)
qed

lemma udp_inv_sent:
  assumes "udp_inv y" "udp_consume (UevSent ec) y = Some y1"
    "udp_on_sent ec (u_sock y1) = Inr (s, acts)"
  shows "udp_inv (udp_started s acts y1)"
proof -
  from assms(1) have fl: "udp_flight_ok (u_sock y) (u_ops y)" and fg: "udp_flags_ok (u_sock y)"
    and tr: "udp_trace_ok (u_sock y) (u_trace y)"
    and acc: "map fst (u_done y) @ send_queue (u_sock y) = u_accepted y"
    by (simp_all add: udp_inv_def)
  from fl show ?thesis
  proof (cases rule: udp_flight_cases)
    case (sending it q)
    show ?thesis
    proof (cases ec)
      case True
      with sending assms(2,3) show ?thesis
        by (intro udp_inv_error [OF assms(1)]) (auto simp: udp_on_sent_def)
    next
      case False
      let ?s = "(u_sock y)\<lparr>send_queue := q\<rparr>"
      from False sending assms(2,3) have y1: "y1 = y\<lparr>u_ops := [], u_done := u_done y @ [(it, True)]\<rparr>"
        and nx: "udp_next ?s = Inr (s, acts)"
        by (auto simp: udp_on_sent_def)
      from sending fg have "us_sending ?s" "udp_flags_ok ?s" by (simp_all add: udp_flags_ok_def)
      from udp_next_inv [OF nx this, of "u_trace y"] tr acc sending show ?thesis
        unfolding udp_inv_started y1 by (simp add: udp_trace_ok_def)
    qed
  qed (use assms(2) in auto)
qed

lemma udp_step_inv:
  assumes "udp_inv y" "udp_step y e y'"
  shows "udp_inv y'"
proof -
  from assms(2) obtain y1 s acts where c: "udp_consume e y = Some y1"
    and h: "udp_handle e (u_sock y1) = Inr (s, acts)" and y': "y' = udp_started s acts y1"
    by (auto simp: udp_step_iff)
  show ?thesis
  proof (cases "udp_quiet_event e")
    case True
    with c h show ?thesis unfolding y' by (intro udp_quiet_inv [OF assms(1)])
  next
    case False
    show ?thesis
    proof (cases e)
      case (UevSend it)
      with c h udp_inv_send [OF assms(1)] show ?thesis unfolding y' by simp
    next
      case UevClose
      with c h udp_inv_close [OF assms(1)] show ?thesis unfolding y' by simp
    next
      case (UevResolved ec)
      with c h udp_inv_resolved [OF assms(1)] show ?thesis unfolding y' by simp
    next
      case (UevSent ec)
      with c h udp_inv_sent [OF assms(1)] show ?thesis unfolding y' by simp
    next
      case (UevRead r)
      with False have "r = None" by (cases r) auto
      with UevRead c h show ?thesis unfolding y'
        by (intro udp_inv_error [OF assms(1)]) (auto simp: udp_on_read_def split: nat.splits)
    qed (use False in auto)
  qed
qed

lemma udp_reach_inv: "udp_reach y \<Longrightarrow> udp_inv y"
  by (induction rule: udp_reach.induct) (blast intro: udp_inv_initial udp_step_inv)+

lemma udp_no_ub:
  assumes "udp_inv y" "udp_consume e y = Some y1"
  shows "safe (udp_handle e (u_sock y1))"
proof -
  have "safe (udp_next s)" for s
    by (auto simp: udp_next_def do_send_next_def safe_cbind Let_def split: list.splits)
  note nx = this
  have app: "\<exists>a. do_send_next (s\<lparr>send_queue := q @ [it], us_sending := b\<rparr>) = Inr a" for s q it b
    by (cases q) (auto simp: do_send_next_def)
  from assms(1) have "udp_flight_ok (u_sock y) (u_ops y)" by (simp add: udp_inv_def)
  then show ?thesis
    using assms(2)
    by (cases rule: udp_flight_cases; cases e)
      (auto simp: nx safe_cbind app udp_on_resolved_def udp_on_sent_def udp_start_def udp_send_def udp_close_def
        udp_startReading_def udp_stopReading_def udp_on_read_def Let_def
        split: option.splits nat.splits if_splits)
qed

subsection \<open>Runs\<close>

fun udp_run :: "udp_event list \<Rightarrow> udp_sys \<Rightarrow> udp_sys option" where
  "udp_run [] y = Some y"
| "udp_run (e # es) y =
     (case udp_consume e y of None \<Rightarrow> None
      | Some y1 \<Rightarrow> (case udp_handle e (u_sock y1) of Inl _ \<Rightarrow> None
         | Inr (s, acts) \<Rightarrow> udp_run es (udp_started s acts y1)))"

lemma udp_run_reach: "udp_reach y \<Longrightarrow> udp_run es y = Some y' \<Longrightarrow> udp_reach y'"
proof (induction es arbitrary: y)
  case (Cons e es)
  then obtain y1 s acts where c: "udp_consume e y = Some y1" "udp_handle e (u_sock y1) = Inr (s, acts)"
    and r: "udp_run es (udp_started s acts y1) = Some y'"
    by (auto split: option.splits sum.splits)
  from c have "udp_step y e (udp_started s acts y1)" by (rule udp_step.intros)
  with Cons.prems(1) have "udp_reach (udp_started s acts y1)" by (rule udp_reach.more)
  then show ?case using r by (rule Cons.IH)
qed simp

lemma udp_run_append: "udp_run (xs @ ys) y = Option.bind (udp_run xs y) (udp_run ys)"
  by (induction xs arbitrary: y) (auto split: option.splits sum.splits)

text \<open>The completions of one datagram: its target resolves and it is sent, or it does not resolve.\<close>

fun datagram_events :: "bool \<Rightarrow> udp_event list" where
  "datagram_events True = [UevResolved False, UevSent False]"
| "datagram_events False = [UevResolved True]"

lemma udp_drain_step:
  assumes "send_queue (u_sock y) = it # q" "u_ops y = [UdpResolve it]"
    "us_closing (u_sock y)" "\<not> us_closed (u_sock y)"
  shows "\<exists>y'. udp_run (datagram_events sent) y = Some y' \<and> send_queue (u_sock y') = q \<and>
    u_done y' = u_done y @ [(it, sent)] \<and>
    (if q = [] then us_closed (u_sock y')
     else u_ops y' = [UdpResolve (hd q)] \<and> us_closing (u_sock y') \<and> \<not> us_closed (u_sock y'))"
  using assms
  by (cases sent; cases q)
    (simp_all add: udp_on_resolved_def udp_on_sent_def udp_next_def do_send_next_def udp_do_close_def
      udp_started_def)

lemma udp_drain_aux:
  assumes "send_queue (u_sock y) = q" "q \<noteq> []" "u_ops y = [UdpResolve (hd q)]"
    "us_closing (u_sock y)" "\<not> us_closed (u_sock y)" "length outcomes = length q"
  shows "\<exists>y'. udp_run (concat (map datagram_events outcomes)) y = Some y' \<and> us_closed (u_sock y') \<and>
    send_queue (u_sock y') = [] \<and> u_done y' = u_done y @ zip q outcomes"
  using assms
proof (induction q arbitrary: y outcomes)
  case (Cons it q)
  then obtain b outs where outs: "outcomes = b # outs" by (cases outcomes) auto
  from Cons.prems have "send_queue (u_sock y) = it # q" "u_ops y = [UdpResolve it]" by simp_all
  from udp_drain_step [OF this Cons.prems(4,5), of b]
  obtain y1 where y1: "udp_run (datagram_events b) y = Some y1" "send_queue (u_sock y1) = q"
      "u_done y1 = u_done y @ [(it, b)]"
    and nx: "if q = [] then us_closed (u_sock y1)
     else u_ops y1 = [UdpResolve (hd q)] \<and> us_closing (u_sock y1) \<and> \<not> us_closed (u_sock y1)"
    by blast
  show ?case
  proof (cases "q = []")
    case True
    with Cons.prems outs y1 nx show ?thesis by auto
  next
    case False
    with nx Cons.prems outs Cons.IH [of y1 outs] y1(2)
    obtain y2 where "udp_run (concat (map datagram_events outs)) y1 = Some y2" "us_closed (u_sock y2)"
        "send_queue (u_sock y2) = []" "u_done y2 = u_done y1 @ zip q outs"
      by auto
    with y1 outs show ?thesis by (simp add: udp_run_append del: udp_run.simps)
  qed
qed simp

subsection \<open>The socket as a serial writer\<close>

definition udp_ready :: "udp_socket \<Rightarrow> bool" where
  "udp_ready s \<longleftrightarrow> us_open s \<and> \<not> us_closing s \<and> \<not> us_closed s"

definition udp_enqueue :: "pending_send \<Rightarrow> udp_socket \<Rightarrow> udp_socket" where
  "udp_enqueue it s = (case udp_send it s of Inl _ \<Rightarrow> s | Inr (s', _) \<Rightarrow> s')"

text \<open>One datagram resolved and sent.\<close>

definition udp_complete :: "udp_socket \<Rightarrow> udp_socket" where
  "udp_complete s =
     (case cbind (udp_on_resolved False s) (\<lambda>(s1, _). udp_on_sent False s1) of
        Inl _ \<Rightarrow> s | Inr (s', _) \<Rightarrow> s')"

fun udp_sends :: "nat \<Rightarrow> udp_socket \<Rightarrow> pending_send list" where
  "udp_sends 0 s = []"
| "udp_sends (Suc n) s = hd (send_queue s) # udp_sends n (udp_complete s)"

interpretation udp_writer: serial_writer send_queue us_sending udp_enqueue udp_complete udp_ready
proof (unfold_locales, goal_cases)
  case (4 s)
  then show ?case
    by (cases "send_queue s"; cases "tl (send_queue s)")
      (auto simp: udp_complete_def udp_on_resolved_def udp_on_sent_def udp_next_def do_send_next_def
        udp_do_close_def Let_def)
next
  case (5 s)
  then show ?case
    by (cases "send_queue s"; cases "tl (send_queue s)")
      (auto simp: udp_complete_def udp_on_resolved_def udp_on_sent_def udp_next_def do_send_next_def
        udp_do_close_def Let_def)
qed (auto simp: udp_ready_def udp_enqueue_def udp_send_def do_send_next_def Let_def split: list.splits)

lemma udp_sends_eq: "udp_sends n s = udp_writer.written n s"
  by (induction n arbitrary: s) auto

subsection \<open>Properties\<close>


lemma udp_initial_new: "udp_initial UdpSocket_new"
  by (simp add: udp_initial_def UdpSocket_new_def)


text \<open>Closing a UDP socket drains it: after \<open>close()\<close> on an open socket, whatever the mixture of
targets that resolve and targets that do not, every queued datagram is tried in order, exactly those
that resolve are sent, and then the socket closes.\<close>
theorem udp_close_drains:
  assumes "udp_reach y" "us_open (u_sock y)" "\<not> us_closing (u_sock y)"
    and "\<forall>it. UdpSendTo it \<notin> set (u_ops y)"
    and "length outcomes = length (send_queue (u_sock y))"
  shows "\<exists>y'. udp_run (UevClose # concat (map datagram_events outcomes)) y = Some y' \<and>
    us_closed (u_sock y') \<and> send_queue (u_sock y') = [] \<and>
    u_done y' = u_done y @ zip (send_queue (u_sock y)) outcomes"
proof -
  from udp_reach_inv [OF assms(1)] have fl: "udp_flight_ok (u_sock y) (u_ops y)"
    and fg: "udp_flags_ok (u_sock y)"
    by (simp_all add: udp_inv_def)
  from fg assms(3) have cl: "\<not> us_closed (u_sock y)" by (auto simp: udp_flags_ok_def)
  from fl show ?thesis
  proof (cases rule: udp_flight_cases)
    case idle
    with fg cl have "send_queue (u_sock y) = []" "\<not> us_sending (u_sock y)"
      by (auto simp: udp_flags_ok_def)
    with assms cl show ?thesis by (simp add: udp_close_def udp_do_close_def udp_started_def)
  next
    case (resolving it q)
    let ?y = "udp_started ((u_sock y)\<lparr>us_closing := True\<rparr>) [] y"
    have "udp_close (u_sock y) = Inr ((u_sock y)\<lparr>us_closing := True\<rparr>, [])"
      using assms(2,3) cl resolving by (simp add: udp_close_def)
    then have "udp_run (UevClose # es) y = udp_run es ?y" for es by simp
    moreover have "\<exists>y'. udp_run (concat (map datagram_events outcomes)) ?y = Some y' \<and>
        us_closed (u_sock y') \<and> send_queue (u_sock y') = [] \<and> u_done y' = u_done ?y @ zip (it # q) outcomes"
      by (rule udp_drain_aux) (use resolving cl assms(5) in \<open>simp_all add: udp_started_def\<close>)
    moreover have "u_done ?y = u_done y" by (simp add: udp_started_def)
    ultimately show ?thesis using resolving by simp
  qed (use assms(4) in auto)
qed

theorem udp_close_drains_witness:
  "\<exists>y y' a b. udp_run [UevStart False (Some 9), UevSend a, UevSend b] (UdpSys_new UdpSocket_new) = Some y \<and>
     udp_run (UevClose # concat (map datagram_events [False, True])) y = Some y' \<and>
     us_closed (u_sock y') \<and> u_done y' = [(a, False), (b, True)]"
proof -
  let ?y0 = "UdpSys_new UdpSocket_new"
  let ?a = "\<lparr>target_host = ''a'', target_port = 1, send_bytes = []\<rparr>"
  let ?b = "\<lparr>target_host = ''b'', target_port = 2, send_bytes = [7]\<rparr>"
  obtain y where run: "udp_run [UevStart False (Some 9), UevSend ?a, UevSend ?b] ?y0 = Some y"
    and y: "us_open (u_sock y)" "\<not> us_closing (u_sock y)" "u_ops y = [UdpResolve ?a]"
      "send_queue (u_sock y) = [?a, ?b]" "u_done y = []"
    by (simp add: UdpSys_new_def UdpSocket_new_def udp_start_def udp_do_read_def udp_send_def
        do_send_next_def udp_started_def)
  have "\<exists>y'. udp_run (UevClose # concat (map datagram_events [False, True])) y = Some y' \<and>
      us_closed (u_sock y') \<and> send_queue (u_sock y') = [] \<and>
      u_done y' = u_done y @ zip (send_queue (u_sock y)) [False, True]"
    by (rule udp_close_drains [OF udp_run_reach [OF udp_reach.fresh [OF udp_initial_new] run] y(1,2)])
      (simp_all add: y)
  then obtain y' where "udp_run (UevClose # concat (map datagram_events [False, True])) y = Some y'"
      "us_closed (u_sock y')" "u_done y' = [(?a, False), (?b, True)]"
    using y by auto
  with run show ?thesis
    by (intro exI [of _ y] exI [of _ y'] exI [of _ "?a"] exI [of _ "?b"]) (simp del: udp_run.simps)
qed

text \<open>Datagrams sent to a ready socket leave in the order they were sent, each once; when all of
them have been sent the queue is empty and the socket idle.\<close>
theorem udp_sends_in_order:
  assumes "udp_ready s" "us_sending s = (send_queue s \<noteq> [])"
    and "s' = fold udp_enqueue items s" "n = length (send_queue s) + length items"
  shows "udp_sends n s' = send_queue s @ items \<and>
    send_queue ((udp_complete ^^ n) s') = [] \<and> \<not> us_sending ((udp_complete ^^ n) s')"
proof -
  have q: "send_queue s' = send_queue s @ items"
    using udp_writer.queue_enqueues [OF assms(1), of items] assms(3) by simp
  have coh: "udp_writer.coherent s'"
    unfolding assms(3) using assms(1,2)
    by (induction items arbitrary: s)
      (auto simp: udp_writer.coherent_def udp_writer.queue_enqueue udp_writer.sending_enqueue
        udp_writer.ready_enqueue)
  have it: "(udp_complete ^^ k) t = udp_writer.completes k t" for k t
    by (induction k arbitrary: t) (simp_all del: funpow.simps(2) add: funpow_Suc_right)
  from udp_writer.drained [OF coh] q assms(4) show ?thesis
    by (simp add: it udp_sends_eq)
qed

theorem udp_sends_in_order_witness:
  "udp_sends 1 (fold udp_enqueue [\<lparr>target_host = ''a'', target_port = 1, send_bytes = [5]\<rparr>]
     (UdpSocket_new\<lparr>us_open := True\<rparr>)) = [\<lparr>target_host = ''a'', target_port = 1, send_bytes = [5]\<rparr>]"
  using udp_sends_in_order [of "UdpSocket_new\<lparr>us_open := True\<rparr>" _
      "[\<lparr>target_host = ''a'', target_port = 1, send_bytes = [5]\<rparr>]" 1]
  by (simp add: udp_ready_def UdpSocket_new_def)

end
