(* ===== verification/HttpMessage.thy ===== *)
theory HttpMessage
  imports RtcPrelude
begin

text \<open>
  The messages of \<open>Src/common/include/http_parse.h\<close>: \<open>HttpParser::Message\<close> with its header lookup
  and serialisation, and \<open>prepare_for_forwarding\<close>. The lemmas give what a receiver of the printed
  text sees: a reference parser of the head of a message and a reference decoder of chunked bodies
  read back what was printed.
\<close>

subsection \<open>Messages\<close>

datatype http_type = TypeUnknown | Request | Response

record http_header =
  hd_name :: string
  hd_value :: string

record http_message =
  m_type :: http_type
  version :: nat
  m_method :: string
  target :: string
  path :: string
  query :: string
  status_code :: nat
  reason :: string
  headers :: "http_header list"
  trailers :: "http_header list"
  body :: string
  keep_alive :: bool
  connection_close :: bool
  connection_keep_alive :: bool
  chunked :: bool
  upgrade :: bool
  connect :: bool
  has_body :: bool
  content_length :: "nat option"

definition Message_new :: http_message where
  "Message_new =
     \<lparr>m_type = TypeUnknown, version = 0, m_method = [], target = [], path = [], query = [],
      status_code = 0, reason = [], headers = [], trailers = [], body = [], keep_alive = False,
      connection_close = False, connection_keep_alive = False, chunked = False, upgrade = False,
      connect = False, has_body = False, content_length = None\<rparr>"

text \<open>\<open>std::tolower\<close> in the C locale.\<close>

definition tolower :: "char \<Rightarrow> char" where
  "tolower c = (if 65 \<le> (of_char c :: nat) \<and> (of_char c :: nat) \<le> 90 then char_of (of_char c + 32 :: nat) else c)"

definition iequals :: "string \<Rightarrow> string \<Rightarrow> bool" where
  "iequals a b \<longleftrightarrow> length a = length b \<and> list_all2 (\<lambda>x y. tolower x = tolower y) a b"

fun lookup_header :: "http_header list \<Rightarrow> string \<Rightarrow> string" where
  "lookup_header [] name = []"
| "lookup_header (h # hs) name = (if iequals (hd_name h) name then hd_value h else lookup_header hs name)"

definition get_header :: "http_message \<Rightarrow> string \<Rightarrow> string" where
  "get_header msg name = lookup_header (headers msg) name"

definition has_header :: "http_message \<Rightarrow> string \<Rightarrow> bool" where
  "has_header msg name \<longleftrightarrow> list_ex (\<lambda>h. iequals (hd_name h) name) (headers msg)"

definition get_headers :: "http_message \<Rightarrow> string \<Rightarrow> string list" where
  "get_headers msg name = map hd_value (filter (\<lambda>h. iequals (hd_name h) name) (headers msg))"

lemma iequals_map: "iequals a b \<longleftrightarrow> map tolower a = map tolower b"
proof -
  have "list_all2 (\<lambda>x y. tolower x = tolower y) a b \<longleftrightarrow> map tolower a = map tolower b"
    by (induction a b rule: list_induct2') auto
  then show ?thesis by (auto simp: iequals_def dest: map_eq_imp_length_eq)
qed

lemma iequals_refl [simp]: "iequals a a"
  by (simp add: iequals_map)

lemma iequals_sym: "iequals a b \<Longrightarrow> iequals b a"
  by (simp add: iequals_map)

lemma iequals_trans: "iequals a b \<Longrightarrow> iequals b c \<Longrightarrow> iequals a c"
  by (simp add: iequals_map)

lemma get_header_has: "\<not> has_header msg name \<Longrightarrow> get_header msg name = []"
proof -
  have "\<not> list_ex (\<lambda>h. iequals (hd_name h) name) hs \<Longrightarrow> lookup_header hs name = []" for hs
    by (induction hs) auto
  then show "\<not> has_header msg name \<Longrightarrow> get_header msg name = []"
    by (simp add: get_header_def has_header_def)
qed

subsection \<open>Serialisation\<close>

definition crlf :: string where
  "crlf = [CHR 0x0D, CHR 0x0A]"

definition default_reason_phrase :: "nat \<Rightarrow> string" where
  "default_reason_phrase status =
     (if status = 200 then ''OK'' else if status = 201 then ''Created''
      else if status = 204 then ''No Content'' else if status = 301 then ''Moved Permanently''
      else if status = 302 then ''Found'' else if status = 304 then ''Not Modified''
      else if status = 400 then ''Bad Request'' else if status = 401 then ''Unauthorized''
      else if status = 403 then ''Forbidden'' else if status = 404 then ''Not Found''
      else if status = 405 then ''Method Not Allowed'' else if status = 408 then ''Request Timeout''
      else if status = 413 then ''Payload Too Large'' else if status = 414 then ''URI Too Long''
      else if status = 431 then ''Request Header Fields Too Large''
      else if status = 500 then ''Internal Server Error'' else if status = 501 then ''Not Implemented''
      else if status = 502 then ''Bad Gateway'' else if status = 503 then ''Service Unavailable''
      else if status = 504 then ''Gateway Timeout'' else ''Unknown'')"

definition http_version_text :: "http_message \<Rightarrow> string" where
  "http_version_text msg = (if version msg = 10 then ''HTTP/1.0'' else ''HTTP/1.1'')"

definition start_line :: "http_message \<Rightarrow> string" where
  "start_line msg =
     (if m_type msg = Response then
        http_version_text msg @ '' '' @ dec_string (status_code msg) @ '' '' @
        (if reason msg = [] then default_reason_phrase (status_code msg) else reason msg)
      else
        (if m_method msg = [] then ''GET'' else m_method msg) @ '' '' @
        (if target msg = [] then ''/'' else target msg) @ '' '' @ http_version_text msg)"

definition header_line :: "http_header \<Rightarrow> string" where
  "header_line h = hd_name h @ '': '' @ hd_value h @ crlf"

definition header_lines :: "http_header list \<Rightarrow> string" where
  "header_lines hs = concat (map header_line hs)"

text \<open>One chunk: the size in hexadecimal, the data, each closed by CRLF.\<close>

definition chunk :: "string \<Rightarrow> string" where
  "chunk d = hex_string (length d) @ crlf @ d @ crlf"

definition last_chunk :: string where
  "last_chunk = ''0'' @ crlf @ crlf"

definition te_chunked :: http_header where
  "te_chunked = \<lparr>hd_name = ''Transfer-Encoding'', hd_value = ''chunked''\<rparr>"

definition cl_header :: "nat \<Rightarrow> http_header" where
  "cl_header n = \<lparr>hd_name = ''Content-Length'', hd_value = dec_string n\<rparr>"

definition framed :: "http_message \<Rightarrow> bool" where
  "framed msg \<longleftrightarrow> has_header msg ''Content-Length'' \<or> has_header msg ''Transfer-Encoding''"

definition serialize :: "http_message \<Rightarrow> string" where
  "serialize msg =
     start_line msg @ crlf @ header_lines (headers msg) @
     (if \<not> framed msg then
        (if chunked msg then header_line te_chunked else header_line (cl_header (length (body msg))))
      else []) @
     crlf @
     (if chunked msg then
        (if body msg \<noteq> [] then chunk (body msg) else []) @
        ''0'' @ crlf @ header_lines (trailers msg) @ crlf
      else body msg)"

definition serialize_headers_only :: "bool \<Rightarrow> nat option \<Rightarrow> http_message \<Rightarrow> string" where
  "serialize_headers_only force_chunked force_content_length msg =
     start_line msg @ crlf @ header_lines (headers msg) @
     (if \<not> framed msg then
        (if force_chunked then header_line te_chunked
         else case force_content_length of None \<Rightarrow> [] | Some n \<Rightarrow> header_line (cl_header n))
      else []) @
     crlf"

definition make_response ::
  "nat \<Rightarrow> string \<Rightarrow> http_header list \<Rightarrow> nat \<Rightarrow> string \<Rightarrow> http_message" where
  "make_response status body_text extra_headers http_version reason_phrase =
     Message_new\<lparr>m_type := Response, version := http_version, status_code := status,
       reason := (if reason_phrase = [] then default_reason_phrase status else reason_phrase),
       headers := extra_headers, body := body_text, has_body := (body_text \<noteq> [])\<rparr>"

subsection \<open>Cleaning a message for the next hop\<close>

text \<open>The parts of a \<open>Connection\<close> value between commas; a final empty part is not pushed.\<close>

function split_commas :: "string \<Rightarrow> nat \<Rightarrow> string list" where
  "split_commas v start =
     (if start < length v then
        (case str_find v (CHR '','') start of
           None \<Rightarrow> [drop start v]
         | Some comma \<Rightarrow> take (comma - start) (drop start v) # split_commas v (comma + 1))
      else [])"
  by pat_completeness auto

termination
  by (relation "measure (\<lambda>(v, start). length v - start)") (auto dest!: str_find_Some)

declare split_commas.simps [simp del]

definition hop_by_hop :: "http_header list \<Rightarrow> string list" where
  "hop_by_hop hs =
     [''Proxy-Authenticate'', ''Proxy-Authorization'', ''TE'', ''Trailer'', ''Proxy-Connection''] @
     concat (map (\<lambda>h. if iequals (hd_name h) ''Connection'' then split_commas (hd_value h) 0 else []) hs)"

definition prepare_for_forwarding :: "http_message \<Rightarrow> string \<Rightarrow> string \<Rightarrow> http_message" where
  "prepare_for_forwarding msg proxy_via_name client_ip =
     (let hop = hop_by_hop (headers msg);
          hs1 = filter (\<lambda>h. \<not> list_ex (\<lambda>name. iequals (hd_name h) name) hop) (headers msg);
          hs2 = filter (\<lambda>h. \<not> (iequals (hd_name h) ''Content-Length'' \<or>
                               iequals (hd_name h) ''Transfer-Encoding'')) hs1
      in msg\<lparr>headers := hs2 @ [\<lparr>hd_name = ''Via'', hd_value = proxy_via_name\<rparr>] @
             (if m_type msg = Request
              then [\<lparr>hd_name = ''X-Forwarded-For'', hd_value = client_ip\<rparr>] else [])\<rparr>)"

subsection \<open>What a receiver reads\<close>

text \<open>A line ends at the first CRLF.\<close>

fun take_line :: "string \<Rightarrow> (string \<times> string) option" where
  "take_line (c # d # s) =
     (if c = CHR 0x0D \<and> d = CHR 0x0A then Some ([], s)
      else map_option (\<lambda>(l, r). (c # l, r)) (take_line (d # s)))"
| "take_line _ = None"

lemma take_line_append: "CHR 0x0D \<notin> set l \<Longrightarrow> take_line (l @ crlf @ r) = Some (l, r)"
proof (induction l)
  case (Cons c l)
  then obtain d l' where "l @ crlf @ r = d # l'" by (cases l) (auto simp: crlf_def)
  with Cons show ?case by auto
qed (simp add: crlf_def)

lemma take_line_length: "take_line s = Some (l, r) \<Longrightarrow> length r < length s"
  by (induction s arbitrary: l rule: take_line.induct) (auto split: if_splits)

definition read_header :: "string \<Rightarrow> (string \<times> string) option" where
  "read_header l =
     map_option (\<lambda>i. (take i l, dropWhile (\<lambda>c. c = CHR '' '') (drop (Suc i) l))) (find_char (CHR '':'') l)"

function read_headers :: "string \<Rightarrow> ((string \<times> string) list \<times> string) option" where
  "read_headers s =
     (case take_line s of None \<Rightarrow> None
      | Some (l, r) \<Rightarrow>
        if l = [] then Some ([], r)
        else (case read_header l of None \<Rightarrow> None
              | Some h \<Rightarrow> map_option (\<lambda>(hs, rest). (h # hs, rest)) (read_headers r)))"
  by pat_completeness auto

termination
  by (relation "measure length") (auto dest: take_line_length)

declare read_headers.simps [simp del]

definition read_head :: "string \<Rightarrow> (string \<times> (string \<times> string) list \<times> string) option" where
  "read_head s =
     (case take_line s of None \<Rightarrow> None
      | Some (l, r) \<Rightarrow> map_option (\<lambda>(hs, rest). (l, hs, rest)) (read_headers r))"

text \<open>The three words of a start line; the last one is the rest of the line.\<close>

definition read_start :: "string \<Rightarrow> (string \<times> string \<times> string) option" where
  "read_start l =
     (case find_char (CHR '' '') l of None \<Rightarrow> None
      | Some i \<Rightarrow> (case find_char (CHR '' '') (drop (Suc i) l) of None \<Rightarrow> None
         | Some j \<Rightarrow> Some (take i l, take j (drop (Suc i) l), drop (Suc j) (drop (Suc i) l))))"

function decode_chunks :: "string \<Rightarrow> (string \<times> string) option" where
  "decode_chunks s =
     (case take_line s of None \<Rightarrow> None
      | Some (l, r) \<Rightarrow>
        let n = radix_value 16 l in
        if n = 0 then (case take_line r of Some ([], rest) \<Rightarrow> Some ([], rest) | _ \<Rightarrow> None)
        else if take 2 (drop n r) = crlf
        then map_option (\<lambda>(d, rest). (take n r @ d, rest)) (decode_chunks (drop (n + 2) r))
        else None)"
  by pat_completeness auto

termination
  by (relation "measure length") (auto dest!: take_line_length)

declare decode_chunks.simps [simp del]

text \<open>Headers a parser hands over: no line break, no colon in the name, no leading blank in the value.\<close>

definition wf_header :: "http_header \<Rightarrow> bool" where
  "wf_header h \<longleftrightarrow> CHR 0x0D \<notin> set (hd_name h) \<and> CHR '':'' \<notin> set (hd_name h) \<and>
     CHR 0x0D \<notin> set (hd_value h) \<and> (hd_value h = [] \<or> hd (hd_value h) \<noteq> CHR '' '')"

definition header_pair :: "http_header \<Rightarrow> string \<times> string" where
  "header_pair h = (hd_name h, hd_value h)"

lemma find_char_here: "c \<notin> set a \<Longrightarrow> find_char c (a @ c # b) = Some (length a)"
  by (simp add: find_char_append)

lemma read_header_line:
  assumes "wf_header h"
  shows "read_header (hd_name h @ '': '' @ hd_value h) = Some (header_pair h)"
proof -
  have "dropWhile (\<lambda>c. c = CHR '' '') (hd_value h) = hd_value h"
    using assms by (cases "hd_value h") (auto simp: wf_header_def)
  with assms show ?thesis
    by (simp add: read_header_def wf_header_def find_char_here header_pair_def)
qed

lemma read_headers_lines:
  assumes "\<forall>h\<in>set hs. wf_header h"
  shows "read_headers (header_lines hs @ crlf @ rest) = Some (map header_pair hs, rest)"
  using assms
proof (induction hs)
  case Nil
  have "take_line ([] @ crlf @ rest) = Some ([], rest)" by (rule take_line_append) simp
  then show ?case by (subst read_headers.simps) (simp add: header_lines_def)
next
  case (Cons h hs)
  let ?l = "hd_name h @ '': '' @ hd_value h"
  let ?r = "header_lines hs @ crlf @ rest"
  from Cons.prems have "take_line (?l @ crlf @ ?r) = Some (?l, ?r)"
    by (intro take_line_append) (auto simp: wf_header_def)
  with Cons show ?case
    by (subst read_headers.simps)
      (simp add: header_lines_def header_line_def read_header_line [simplified])
qed

lemma decode_chunk:
  assumes "d \<noteq> []"
  shows "decode_chunks (chunk d @ s) = map_option (\<lambda>(e, rest). (d @ e, rest)) (decode_chunks s)"
proof -
  have "CHR 0x0D \<notin> set (hex_string (length d))" using set_hex_string [of "length d"] by auto
  then have "take_line (chunk d @ s) = Some (hex_string (length d), d @ crlf @ s)"
    using take_line_append [of "hex_string (length d)" "d @ crlf @ s"] by (simp add: chunk_def)
  then show ?thesis
    using assms by (subst decode_chunks.simps) (simp add: crlf_def)
qed

lemma decode_last_chunk: "decode_chunks (last_chunk @ rest) = Some ([], rest)"
proof -
  have "take_line (last_chunk @ rest) = Some (''0'', crlf @ rest)"
    using take_line_append [of "''0''" "crlf @ rest"] by (simp add: last_chunk_def)
  moreover have "take_line (crlf @ rest) = Some ([], rest)"
    using take_line_append [of "[]" rest] by simp
  moreover have "radix_value 16 ''0'' = 0" by (simp add: radix_value_def digit_val_def)
  ultimately show ?thesis by (subst decode_chunks.simps) simp
qed

subsection \<open>Properties\<close>

text \<open>A body sent in chunks is read back, with nothing of what follows consumed.\<close>

lemma chunk_stream_decodes:
  assumes "\<forall>d\<in>set parts. d \<noteq> []"
  shows "decode_chunks (concat (map chunk parts) @ last_chunk @ rest) = Some (concat parts, rest)"
  using assms by (induction parts) (simp_all add: decode_chunk decode_last_chunk)

lemma framing_wf: "wf_header te_chunked" "wf_header (cl_header n)"
proof -
  have *: "CHR 0x0D \<notin> set (dec_string n)" "CHR '' '' \<notin> set (dec_string n)"
    using set_dec_string [of n] by auto
  show "wf_header te_chunked" by (simp add: wf_header_def te_chunked_def)
  from * show "wf_header (cl_header n)"
    by (cases "dec_string n") (auto simp: wf_header_def cl_header_def)
qed

lemma read_head_lines:
  assumes "CHR 0x0D \<notin> set l" "\<forall>h\<in>set hs. wf_header h"
  shows "read_head (l @ crlf @ header_lines hs @ crlf @ rest) = Some (l, map header_pair hs, rest)"
  by (simp add: read_head_def take_line_append [OF assms(1)] read_headers_lines [OF assms(2)])

lemma header_lines_snoc: "header_lines (hs @ [h]) = header_lines hs @ header_line h"
  by (simp add: header_lines_def)

text \<open>C25: The head of a forwarded message is read back: its start line, exactly its headers in order
(with a framing header added only where the message had none and one was asked for), and the bytes
that follow it untouched.\<close>
theorem head_roundtrip:
  assumes "CHR 0x0D \<notin> set (start_line msg)" "\<forall>h\<in>set (headers msg). wf_header h"
  shows "read_head (serialize_headers_only fc fcl msg @ rest) =
    Some (start_line msg,
      map header_pair (headers msg) @
        (if framed msg then [] else if fc then [header_pair te_chunked]
         else case fcl of None \<Rightarrow> [] | Some n \<Rightarrow> [header_pair (cl_header n)]), rest)"
proof -
  let ?extra = "if framed msg then [] else if fc then [te_chunked]
      else case fcl of None \<Rightarrow> [] | Some n \<Rightarrow> [cl_header n]"
  have "serialize_headers_only fc fcl msg @ rest =
      start_line msg @ crlf @ header_lines (headers msg @ ?extra) @ crlf @ rest"
    by (simp add: serialize_headers_only_def header_lines_def split: option.splits)
  moreover have "\<forall>h\<in>set (headers msg @ ?extra). wf_header h"
    using assms(2) framing_wf by (auto split: option.splits if_splits)
  ultimately show ?thesis
    using read_head_lines [OF assms(1), of "headers msg @ ?extra" rest]
    by (simp split: option.splits)
qed

theorem head_roundtrip_witness:
  "read_head (serialize_headers_only False None
      (Message_new\<lparr>m_type := Request, version := 11, m_method := ''POST'', target := ''/a'',
         headers := [\<lparr>hd_name = ''Host'', hd_value = ''h''\<rparr>]\<rparr>) @ ''body'') =
    Some (''POST /a HTTP/1.1'', [(''Host'', ''h'')], ''body'')"
  using head_roundtrip [of "Message_new\<lparr>m_type := Request, version := 11, m_method := ''POST'',
      target := ''/a'', headers := [\<lparr>hd_name = ''Host'', hd_value = ''h''\<rparr>]\<rparr>" False None "''body''"]
  by (simp add: start_line_def Message_new_def http_version_text_def wf_header_def header_pair_def)

lemma read_start_words:
  assumes "CHR '' '' \<notin> set a" "CHR '' '' \<notin> set b"
  shows "read_start (a @ '' '' @ b @ '' '' @ c) = Some (a, b, c)"
  using assms by (simp add: read_start_def find_char_here)

lemma dec_string_no_blank: "CHR '' '' \<notin> set (dec_string n)"
  using set_dec_string [of n] by auto

text \<open>The start line names what the message holds: for a response the version, the status in
decimal and the reason (the default one where it has none), for a request the method, the target and
the version (GET and / where they are empty).\<close>
theorem start_line_roundtrip:
  assumes "m_type msg \<noteq> Response \<longrightarrow> CHR '' '' \<notin> set (m_method msg) \<and> CHR '' '' \<notin> set (target msg)"
  shows "read_start (start_line msg) =
    (if m_type msg = Response
     then Some (http_version_text msg, dec_string (status_code msg),
       if reason msg = [] then default_reason_phrase (status_code msg) else reason msg)
     else Some (if m_method msg = [] then ''GET'' else m_method msg,
       if target msg = [] then ''/'' else target msg, http_version_text msg))"
proof (cases "m_type msg = Response")
  case True
  have "CHR '' '' \<notin> set (http_version_text msg)" by (simp add: http_version_text_def)
  from read_start_words [OF this dec_string_no_blank] True show ?thesis
    by (simp add: start_line_def)
next
  case False
  let ?m = "if m_method msg = [] then ''GET'' else m_method msg"
  let ?t = "if target msg = [] then ''/'' else target msg"
  from False assms have "CHR '' '' \<notin> set ?m" "CHR '' '' \<notin> set ?t" by auto
  from read_start_words [OF this, of "http_version_text msg"] False show ?thesis
    by (simp add: start_line_def split del: if_split)
qed

theorem start_line_roundtrip_witness:
  "read_start (start_line (Message_new\<lparr>m_type := Response, version := 10, status_code := 404\<rparr>)) =
     Some (''HTTP/1.0'', dec_string 404, ''Not Found'')"
  using start_line_roundtrip [of "Message_new\<lparr>m_type := Response, version := 10, status_code := 404\<rparr>"]
  by (simp add: Message_new_def http_version_text_def default_reason_phrase_def)

text \<open>The names of the framing headers are told apart from those the proxy adds.\<close>

definition is_framing :: "string \<Rightarrow> bool" where
  "is_framing n \<longleftrightarrow> iequals n ''Content-Length'' \<or> iequals n ''Transfer-Encoding''"

lemma framed_iff: "framed msg \<longleftrightarrow> (\<exists>h\<in>set (headers msg). is_framing (hd_name h))"
  by (auto simp: framed_def has_header_def is_framing_def list_ex_iff)

lemma is_framing_added [simp]:
  "\<not> is_framing ''Via''" "\<not> is_framing ''X-Forwarded-For''"
  "is_framing (hd_name te_chunked)" "is_framing (hd_name (cl_header n))"
  by (simp_all add: is_framing_def iequals_def te_chunked_def cl_header_def)

lemma prepared_headers:
  "\<exists>hs. headers (prepare_for_forwarding msg via ip) =
     hs @ [\<lparr>hd_name = ''Via'', hd_value = via\<rparr>] @
       (if m_type msg = Request then [\<lparr>hd_name = ''X-Forwarded-For'', hd_value = ip\<rparr>] else []) \<and>
     set hs \<subseteq> set (headers msg) \<and> (\<forall>h\<in>set hs. \<not> is_framing (hd_name h))"
  by (auto simp: prepare_for_forwarding_def Let_def is_framing_def)

lemma prepared_fields [simp]:
  "start_line (prepare_for_forwarding msg via ip) = start_line msg"
  "body (prepare_for_forwarding msg via ip) = body msg"
  "chunked (prepare_for_forwarding msg via ip) = chunked msg"
  "trailers (prepare_for_forwarding msg via ip) = trailers msg"
  by (simp_all add: prepare_for_forwarding_def Let_def start_line_def http_version_text_def)

definition framing_header :: "http_message \<Rightarrow> http_header" where
  "framing_header msg = (if chunked msg then te_chunked else cl_header (length (body msg)))"

definition body_text :: "http_message \<Rightarrow> string" where
  "body_text msg =
     (if chunked msg then (if body msg \<noteq> [] then chunk (body msg) else []) @ ''0'' @ crlf @
        header_lines (trailers msg) @ crlf
      else body msg)"

lemma serialize_unframed:
  "\<not> framed msg \<Longrightarrow>
     serialize msg = start_line msg @ crlf @ header_lines (headers msg @ [framing_header msg]) @ crlf @ body_text msg"
  by (simp add: serialize_def framing_header_def body_text_def header_lines_def)

lemma decode_body_text:
  "chunked msg \<Longrightarrow> trailers msg = [] \<Longrightarrow> decode_chunks (body_text msg @ rest) = Some (body msg, rest)"
  using decode_chunk [of "body msg" "last_chunk @ rest"] decode_last_chunk [of rest]
  by (simp add: body_text_def last_chunk_def header_lines_def)

text \<open>C26: A message cleaned for the next hop and serialised is framed by exactly one header, whatever
framing headers it came with: its head reads back with one Transfer-Encoding or one Content-Length,
and a receiver that follows that header finds exactly the body, then what comes after the message.\<close>
theorem forwarded_framing:
  assumes "CHR 0x0D \<notin> set (start_line msg)" "\<forall>h\<in>set (headers msg). wf_header h"
    and "wf_header \<lparr>hd_name = ''Via'', hd_value = via\<rparr>"
    and "wf_header \<lparr>hd_name = ''X-Forwarded-For'', hd_value = ip\<rparr>" "trailers msg = []"
  shows "\<exists>hs tail. read_head (serialize (prepare_for_forwarding msg via ip) @ rest) =
      Some (start_line msg, hs, tail) \<and>
    filter (\<lambda>(n, v). is_framing n) hs =
      [if chunked msg then (''Transfer-Encoding'', ''chunked'')
       else (''Content-Length'', dec_string (length (body msg)))] \<and>
    (if chunked msg then decode_chunks tail = Some (body msg, rest) else tail = body msg @ rest)"
proof -
  let ?m = "prepare_for_forwarding msg via ip"
  from prepared_headers obtain hs where hs: "headers ?m = hs @ [\<lparr>hd_name = ''Via'', hd_value = via\<rparr>] @
       (if m_type msg = Request then [\<lparr>hd_name = ''X-Forwarded-For'', hd_value = ip\<rparr>] else [])"
    and sub: "set hs \<subseteq> set (headers msg)" and nf: "\<forall>h\<in>set hs. \<not> is_framing (hd_name h)"
    by blast
  from nf have unframed: "\<not> framed ?m" by (auto simp: framed_iff hs)
  have wf: "\<forall>h\<in>set (headers ?m @ [framing_header ?m]). wf_header h"
    using assms(2-4) sub framing_wf by (auto simp: hs framing_header_def)
  have r: "read_head (serialize ?m @ rest) =
      Some (start_line msg, map header_pair (headers ?m @ [framing_header ?m]), body_text ?m @ rest)"
    using read_head_lines [OF assms(1) wf, of "body_text ?m @ rest"]
    by (simp add: serialize_unframed [OF unframed])
  have f: "filter (\<lambda>(n, v). is_framing n) (map header_pair (headers ?m @ [framing_header ?m])) =
      [header_pair (framing_header ?m)]"
    using nf by (auto simp: hs header_pair_def filter_map o_def framing_header_def filter_empty_conv)
  have b: "if chunked msg then decode_chunks (body_text ?m @ rest) = Some (body msg, rest)
      else body_text ?m @ rest = body msg @ rest"
    using decode_body_text [of ?m rest] assms(5) by (simp add: body_text_def)
  show ?thesis
    by (rule exI, rule exI, rule conjI [OF r conjI [OF trans [OF f] b]]) (simp add: framing_header_def header_pair_def te_chunked_def cl_header_def)
qed

theorem forwarded_framing_witness:
  "\<exists>hs tail. read_head (serialize (prepare_for_forwarding
       (Message_new\<lparr>m_type := Response, version := 11, status_code := 200, body := ''hi'',
          headers := [\<lparr>hd_name = ''content-length'', hd_value = ''9''\<rparr>]\<rparr>) ''1.1 p'' ''10.0.0.1'') @ ''next'') =
     Some (''HTTP/1.1 200 OK'', hs, tail) \<and>
     filter (\<lambda>(n, v). is_framing n) hs = [(''Content-Length'', ''2'')] \<and> tail = ''hinext''"
proof -
  have d: "dec_string 200 = ''200''" "dec_string 2 = ''2''"
    by (simp_all add: dec_string_def radix_digits.simps digit_char_def)
  show ?thesis
    using forwarded_framing [of "Message_new\<lparr>m_type := Response, version := 11, status_code := 200,
      body := ''hi'', headers := [\<lparr>hd_name = ''content-length'', hd_value = ''9''\<rparr>]\<rparr>"
      "''1.1 p''" "''10.0.0.1''" "''next''"]
    by (simp add: start_line_def Message_new_def http_version_text_def default_reason_phrase_def
        wf_header_def d numeral_2_eq_2 [symmetric])
qed

text \<open>
  The parts of a \<open>Connection\<close> value are not trimmed: a name after a comma and a blank is looked for
  with the blank, and its header stays.
\<close>

lemma forwarding_keeps_untrimmed:
  "\<lparr>hd_name = ''X-Hop'', hd_value = ''1''\<rparr> \<in>
     set (headers (prepare_for_forwarding (Message_new\<lparr>headers :=
       [\<lparr>hd_name = ''Connection'', hd_value = ''close, X-Hop''\<rparr>, \<lparr>hd_name = ''X-Hop'', hd_value = ''1''\<rparr>]\<rparr>) v i))"
proof -
  have "split_commas ''close, X-Hop'' 0 = [''close'', '' X-Hop'']"
    by (simp add: split_commas.simps str_find_def)
  then show ?thesis
    by (simp add: prepare_for_forwarding_def hop_by_hop_def Message_new_def iequals_def tolower_def)
qed

end
