(* ===== verification/HttpParser.thy ===== *)
theory HttpParser
  imports HttpMessage
begin

text \<open>
  The class \<open>HttpParser\<close> of \<open>Src/common/include/http_parse.h\<close>: it assembles messages from the
  callbacks of llhttp and hands them to its owner. llhttp itself is not part of the program: a value
  of \<open>llhttp\<close> says what its functions do, and what the program relies on is stated where it is used.
  The callbacks are the functions \<open>on_..._cb\<close>; \<open>feed\<close> runs those that llhttp makes for the data, and
  returns the calls made of the owner, each with the parser as the owner finds it at that moment.
\<close>

subsection \<open>llhttp\<close>

text \<open>The fields of \<open>llhttp_t\<close> read when the headers are complete.\<close>

record ll_info =
  http_major :: nat
  http_minor :: nat
  ll_method :: string
  ll_status :: nat
  flag_chunked :: bool
  flag_keep_alive :: bool
  flag_close :: bool
  flag_content_length :: bool
  ll_content_length :: nat
  ll_upgrade :: bool
  should_keep_alive :: bool

datatype ll_event =
    LlMessageBegin
  | LlUrl string
  | LlStatus string
  | LlHeaderField string
  | LlHeaderValue string
  | LlHeadersComplete ll_info
  | LlBody string
  | LlMessageComplete

text \<open>
  The outcome of \<open>llhttp_execute\<close>; a pause for an upgrade has the error position as an offset into
  the data (\<open>None\<close> when it is null or before the data).
\<close>

datatype ll_result = LlOk | LlPausedUpgrade "nat option" | LlError int string

record 'l llhttp =
  ll_init :: "http_type \<Rightarrow> 'l"
  ll_execute :: "'l \<Rightarrow> string \<Rightarrow> ll_event list \<times> ll_result \<times> 'l"
  ll_resume :: "'l \<Rightarrow> 'l"

text \<open>A library that reports nothing, for the witnesses.\<close>

definition idle_llhttp :: "unit llhttp" where
  "idle_llhttp = \<lparr>ll_init = \<lambda>_. (), ll_execute = \<lambda>l d. ([], LlOk, l), ll_resume = \<lambda>l. l\<rparr>"

subsection \<open>The parser\<close>

record 'l http_parser =
  hp_lib :: 'l
  hp_type :: http_type
  hp_message :: http_message
  cur_header_field :: string
  cur_header_value :: string
  in_header_value :: bool
  cur_url :: string
  cur_status :: string
  message_complete :: bool
  had_error :: bool
  remaining_after_upgrade :: string
  hp_is_chunked :: bool
  cb_headers_complete :: bool
  cb_body :: bool
  cb_message_complete :: bool
  cb_error :: bool
  cb_paused_upgrade :: bool

datatype hp_upcall =
    UpHeadersComplete http_message
  | UpBody string
  | UpMessageComplete
  | UpError int string
  | UpPausedUpgrade string

definition hp_init :: "'l llhttp \<Rightarrow> http_type \<Rightarrow> 'l http_parser \<Rightarrow> 'l http_parser" where
  "hp_init ll ty p =
     (let t = (if ty = TypeUnknown then Request else ty) in
      p\<lparr>hp_type := t, hp_lib := ll_init ll t, hp_message := Message_new\<lparr>m_type := t\<rparr>,
        cur_header_field := [], cur_header_value := [], cur_url := [], cur_status := [],
        in_header_value := False, message_complete := False, had_error := False,
        remaining_after_upgrade := []\<rparr>)"

definition HttpParser_new :: "'l llhttp \<Rightarrow> http_type \<Rightarrow> 'l http_parser" where
  "HttpParser_new ll ty =
     hp_init ll ty
       \<lparr>hp_lib = ll_init ll Request, hp_type = Request, hp_message = Message_new,
        cur_header_field = [], cur_header_value = [], in_header_value = False, cur_url = [],
        cur_status = [], message_complete = False, had_error = False, remaining_after_upgrade = [],
        hp_is_chunked = False, cb_headers_complete = False, cb_body = False,
        cb_message_complete = False, cb_error = False, cb_paused_upgrade = False\<rparr>"

definition set_on_headers_complete :: "'l http_parser \<Rightarrow> 'l http_parser" where
  "set_on_headers_complete p = p\<lparr>cb_headers_complete := True\<rparr>"

definition set_on_body :: "'l http_parser \<Rightarrow> 'l http_parser" where
  "set_on_body p = p\<lparr>cb_body := True\<rparr>"

definition set_on_message_complete :: "'l http_parser \<Rightarrow> 'l http_parser" where
  "set_on_message_complete p = p\<lparr>cb_message_complete := True\<rparr>"

definition set_on_error :: "'l http_parser \<Rightarrow> 'l http_parser" where
  "set_on_error p = p\<lparr>cb_error := True\<rparr>"

definition set_on_pa_upgrade :: "'l http_parser \<Rightarrow> 'l http_parser" where
  "set_on_pa_upgrade p = p\<lparr>cb_paused_upgrade := True\<rparr>"

definition hp_complete :: "'l http_parser \<Rightarrow> bool" where
  "hp_complete p \<longleftrightarrow> message_complete p"

definition is_chunked :: "'l http_parser \<Rightarrow> bool" where
  "is_chunked p \<longleftrightarrow> hp_is_chunked p"

definition take_remaining :: "'l http_parser \<Rightarrow> string \<times> 'l http_parser" where
  "take_remaining p = (remaining_after_upgrade p, p\<lparr>remaining_after_upgrade := []\<rparr>)"

definition hp_reset :: "'l llhttp \<Rightarrow> http_type \<Rightarrow> 'l http_parser \<Rightarrow> 'l http_parser" where
  "hp_reset ll ty p = hp_init ll (if ty = TypeUnknown then hp_type p else ty) p"

subsection \<open>The callbacks of llhttp\<close>

definition on_message_begin_cb :: "'l http_parser \<Rightarrow> 'l http_parser" where
  "on_message_begin_cb p =
     p\<lparr>hp_message := Message_new\<lparr>m_type := hp_type p\<rparr>, cur_header_field := [], cur_header_value := [],
       cur_url := [], cur_status := [], in_header_value := False, message_complete := False\<rparr>"

definition on_url_cb :: "string \<Rightarrow> 'l http_parser \<Rightarrow> 'l http_parser" where
  "on_url_cb s p = p\<lparr>cur_url := cur_url p @ s\<rparr>"

definition on_status_cb :: "string \<Rightarrow> 'l http_parser \<Rightarrow> 'l http_parser" where
  "on_status_cb s p = p\<lparr>cur_status := cur_status p @ s\<rparr>"

text \<open>Push the current field and value as a header.\<close>

definition push_header :: "'l http_parser \<Rightarrow> 'l http_parser" where
  "push_header p =
     p\<lparr>hp_message := (hp_message p)\<lparr>headers := headers (hp_message p) @
         [\<lparr>hd_name = cur_header_field p, hd_value = cur_header_value p\<rparr>]\<rparr>,
       cur_header_field := [], cur_header_value := [], in_header_value := False\<rparr>"

definition on_header_field_cb :: "string \<Rightarrow> 'l http_parser \<Rightarrow> 'l http_parser" where
  "on_header_field_cb s p =
     (let p1 = (if in_header_value p then push_header p else p) in
      p1\<lparr>cur_header_field := cur_header_field p1 @ s\<rparr>)"

definition on_header_value_cb :: "string \<Rightarrow> 'l http_parser \<Rightarrow> 'l http_parser" where
  "on_header_value_cb s p =
     p\<lparr>in_header_value := True, cur_header_value := cur_header_value p @ s\<rparr>"

text \<open>\<open>path\<close> and \<open>query\<close> of a request's URL.\<close>

definition split_url :: "string \<Rightarrow> string \<times> string option" where
  "split_url url =
     (case str_find url (CHR ''?'') 0 of None \<Rightarrow> (url, None)
      | Some q \<Rightarrow> (take q url, Some (drop (q + 1) url)))"

definition request_fields :: "ll_info \<Rightarrow> string \<Rightarrow> http_message \<Rightarrow> http_message" where
  "request_fields i url m =
     (let m1 = m\<lparr>m_method := ll_method i, target := url, connect := (ll_method i = ''CONNECT'')\<rparr> in
      case split_url url of (pa, None) \<Rightarrow> m1\<lparr>path := pa\<rparr>
      | (pa, Some q) \<Rightarrow> m1\<lparr>path := pa, query := q\<rparr>)"

definition connection_fields :: "ll_info \<Rightarrow> http_message \<Rightarrow> http_message" where
  "connection_fields i m =
     (let m1 = m\<lparr>chunked := flag_chunked i, upgrade := ll_upgrade i,
            connection_keep_alive := flag_keep_alive i, connection_close := flag_close i,
            keep_alive := should_keep_alive i\<rparr>;
          m2 = (if flag_content_length i then m1\<lparr>content_length := Some (ll_content_length i)\<rparr> else m1)
      in m2\<lparr>has_body := (\<not> (content_length m2 = Some 0) \<or> chunked m2)\<rparr>)"

definition on_headers_complete_cb ::
  "ll_info \<Rightarrow> 'l http_parser \<Rightarrow> (hp_upcall \<times> 'l http_parser) list \<times> 'l http_parser" where
  "on_headers_complete_cb i p =
     (let p1 = (if cur_header_field p \<noteq> [] \<or> in_header_value p then push_header p else p);
          m1 = (hp_message p1)\<lparr>version := http_major i * 10 + http_minor i\<rparr>;
          m2 = (if hp_type p1 = Request then request_fields i (cur_url p1) m1
                else m1\<lparr>status_code := ll_status i, reason := cur_status p1\<rparr>);
          p2 = p1\<lparr>hp_message := connection_fields i m2, hp_is_chunked := flag_chunked i\<rparr>
      in (if cb_headers_complete p2 then [(UpHeadersComplete (hp_message p2), p2)] else [], p2))"

definition on_body_cb ::
  "string \<Rightarrow> 'l http_parser \<Rightarrow> (hp_upcall \<times> 'l http_parser) list \<times> 'l http_parser" where
  "on_body_cb d p =
     (if cb_body p then ([(UpBody d, p)], p)
      else ([], p\<lparr>hp_message := (hp_message p)\<lparr>body := body (hp_message p) @ d\<rparr>\<rparr>))"

definition on_message_complete_cb ::
  "'l http_parser \<Rightarrow> (hp_upcall \<times> 'l http_parser) list \<times> 'l http_parser" where
  "on_message_complete_cb p =
     (let p1 = p\<lparr>message_complete := True\<rparr> in
      (if cb_message_complete p1 then [(UpMessageComplete, p1)] else [], p1))"

fun on_event :: "ll_event \<Rightarrow> 'l http_parser \<Rightarrow> (hp_upcall \<times> 'l http_parser) list \<times> 'l http_parser" where
  "on_event LlMessageBegin p = ([], on_message_begin_cb p)"
| "on_event (LlUrl s) p = ([], on_url_cb s p)"
| "on_event (LlStatus s) p = ([], on_status_cb s p)"
| "on_event (LlHeaderField s) p = ([], on_header_field_cb s p)"
| "on_event (LlHeaderValue s) p = ([], on_header_value_cb s p)"
| "on_event (LlHeadersComplete i) p = on_headers_complete_cb i p"
| "on_event (LlBody d) p = on_body_cb d p"
| "on_event LlMessageComplete p = on_message_complete_cb p"

fun on_events :: "ll_event list \<Rightarrow> 'l http_parser \<Rightarrow> (hp_upcall \<times> 'l http_parser) list \<times> 'l http_parser" where
  "on_events [] p = ([], p)"
| "on_events (e # es) p =
     (case on_event e p of (u1, p1) \<Rightarrow> (case on_events es p1 of (u2, p2) \<Rightarrow> (u1 @ u2, p2)))"

definition feed ::
  "'l llhttp \<Rightarrow> string \<Rightarrow> 'l http_parser \<Rightarrow> bool \<times> (hp_upcall \<times> 'l http_parser) list \<times> 'l http_parser" where
  "feed ll data p =
     (if had_error p then (False, [], p)
      else (case ll_execute ll (hp_lib p) data of (es, err, l) \<Rightarrow>
        (case on_events es p of (ups, p0) \<Rightarrow>
          let p1 = p0\<lparr>hp_lib := l\<rparr> in
          (case err of
             LlPausedUpgrade pos \<Rightarrow>
               let p2 = (case pos of None \<Rightarrow> p1
                   | Some k \<Rightarrow> if k \<le> length data then p1\<lparr>remaining_after_upgrade := drop k data\<rparr> else p1);
                   p3 = p2\<lparr>hp_lib := ll_resume ll (hp_lib p2)\<rparr>
               in (False,
                   ups @ (if cb_paused_upgrade p3
                          then [(UpPausedUpgrade (remaining_after_upgrade p3), p3)] else []), p3)
           | LlError code why \<Rightarrow>
               let p2 = p1\<lparr>had_error := True\<rparr>
               in (False, ups @ (if cb_error p2 then [(UpError code why, p2)] else []), p2)
           | LlOk \<Rightarrow> (True, ups, p1)))))"

subsection \<open>Assembling a message\<close>

lemma on_events_append:
  "on_events (xs @ ys) p =
     (case on_events xs p of (u1, p1) \<Rightarrow> (case on_events ys p1 of (u2, p2) \<Rightarrow> (u1 @ u2, p2)))"
  by (induction xs arbitrary: p) (auto split: prod.splits)

text \<open>A header as llhttp reports it: its name and its value, each in one or more fragments.\<close>

definition header_events :: "string list \<times> string list \<Rightarrow> ll_event list" where
  "header_events fv = map LlHeaderField (fst fv) @ map LlHeaderValue (snd fv)"

definition whole_header :: "string list \<times> string list \<Rightarrow> http_header" where
  "whole_header fv = \<lparr>hd_name = concat (fst fv), hd_value = concat (snd fv)\<rparr>"

lemma on_events_url:
  "on_events (map LlUrl us) p = ([], p\<lparr>cur_url := cur_url p @ concat us\<rparr>)"
  by (induction us arbitrary: p) (simp_all add: on_url_cb_def)

lemma on_events_status:
  "on_events (map LlStatus us) p = ([], p\<lparr>cur_status := cur_status p @ concat us\<rparr>)"
  by (induction us arbitrary: p) (simp_all add: on_status_cb_def)

lemma on_events_field_more:
  "\<not> in_header_value p \<Longrightarrow> on_events (map LlHeaderField fs) p =
     ([], p\<lparr>cur_header_field := cur_header_field p @ concat fs\<rparr>)"
  by (induction fs arbitrary: p) (simp_all add: on_header_field_cb_def)

lemma on_events_field:
  assumes "fs \<noteq> []"
  shows "on_events (map LlHeaderField fs) p =
     ([], let p1 = (if in_header_value p then push_header p else p)
          in p1\<lparr>cur_header_field := cur_header_field p1 @ concat fs\<rparr>)"
proof -
  from assms obtain f fs' where fs: "fs = f # fs'" by (cases fs) auto
  let ?p1 = "on_header_field_cb f p"
  have "\<not> in_header_value ?p1"
    by (simp add: on_header_field_cb_def push_header_def Let_def)
  from on_events_field_more [OF this, of fs'] show ?thesis
    by (simp add: fs on_header_field_cb_def Let_def)
qed

lemma on_events_value:
  assumes "vs \<noteq> []"
  shows "on_events (map LlHeaderValue vs) p =
     ([], p\<lparr>in_header_value := True, cur_header_value := cur_header_value p @ concat vs\<rparr>)"
proof -
  have "on_events (map LlHeaderValue vs) p =
      ([], p\<lparr>cur_header_value := cur_header_value p @ concat vs\<rparr>)" if "in_header_value p" for vs p
    using that by (induction vs arbitrary: p) (simp_all add: on_header_value_cb_def)
  note more = this
  from assms obtain v vs' where vs: "vs = v # vs'" by (cases vs) auto
  have "in_header_value (on_header_value_cb v p)" by (simp add: on_header_value_cb_def)
  from more [OF this, of vs'] show ?thesis by (simp add: vs on_header_value_cb_def)
qed

text \<open>The parser with some headers pushed and a last one still open.\<close>

definition with_headers :: "http_header list \<Rightarrow> http_header \<Rightarrow> 'l http_parser \<Rightarrow> 'l http_parser" where
  "with_headers hs h p =
     p\<lparr>hp_message := (hp_message p)\<lparr>headers := hs\<rparr>, cur_header_field := hd_name h,
       cur_header_value := hd_value h, in_header_value := True\<rparr>"

lemma header_events_first:
  assumes "fst fv \<noteq> []" "snd fv \<noteq> []" "\<not> in_header_value p" "cur_header_field p = []"
    "cur_header_value p = []"
  shows "on_events (header_events fv) p = ([], with_headers (headers (hp_message p)) (whole_header fv) p)"
  using assms
  by (simp add: header_events_def on_events_append on_events_field on_events_value with_headers_def
      whole_header_def)

lemma header_events_next:
  assumes "fst fv \<noteq> []" "snd fv \<noteq> []"
  shows "on_events (header_events fv) (with_headers hs h p) =
     ([], with_headers (hs @ [h]) (whole_header fv) p)"
  using assms
  by (simp add: header_events_def on_events_append on_events_field on_events_value with_headers_def
      whole_header_def push_header_def Let_def)

lemma headers_events:
  assumes "\<forall>fv\<in>set fvs. fst fv \<noteq> [] \<and> snd fv \<noteq> []" "fvs \<noteq> []"
    and "\<not> in_header_value p" "cur_header_field p = []" "cur_header_value p = []"
  shows "on_events (concat (map header_events fvs)) p =
    ([], with_headers (headers (hp_message p) @ map whole_header (butlast fvs)) (whole_header (last fvs)) p)"
  using assms(1,2)
proof (induction fvs rule: rev_induct)
  case (snoc fv fvs)
  show ?case
  proof (cases "fvs = []")
    case True
    with snoc.prems assms(3-5) show ?thesis by (simp add: header_events_first)
  next
    case False
    with snoc have IH: "on_events (concat (map header_events fvs)) p =
      ([], with_headers (headers (hp_message p) @ map whole_header (butlast fvs)) (whole_header (last fvs)) p)"
      by simp
    have "map whole_header (butlast fvs) @ [whole_header (last fvs)] = map whole_header fvs"
      using False by (metis append_butlast_last_id list.simps(8,9) map_append)
    with snoc.prems False IH show ?thesis
      by (simp add: on_events_append header_events_next)
  qed
qed simp

text \<open>The message that the callbacks of one head describe.\<close>

definition described :: "http_type \<Rightarrow> ll_info \<Rightarrow> string \<Rightarrow> http_header list \<Rightarrow> http_message" where
  "described ty i line hs =
     connection_fields i
       (let m = Message_new\<lparr>m_type := ty, headers := hs, version := http_major i * 10 + http_minor i\<rparr> in
        if ty = Request then request_fields i line m
        else m\<lparr>status_code := ll_status i, reason := line\<rparr>)"

definition line_events :: "http_type \<Rightarrow> string list \<Rightarrow> ll_event list" where
  "line_events ty ls = (if ty = Request then map LlUrl ls else map LlStatus ls)"

text \<open>The start of a message, up to its headers.\<close>

lemma line_begun:
  "on_events (LlMessageBegin # line_events ty ls) p =
     ([], (on_message_begin_cb p)\<lparr>cur_url := (if ty = Request then concat ls else []),
            cur_status := (if ty = Request then [] else concat ls)\<rparr>)"
  by (simp add: line_events_def on_events_url on_events_status on_message_begin_cb_def)

lemma headers_flushed:
  assumes "\<forall>fv\<in>set fvs. fst fv \<noteq> [] \<and> snd fv \<noteq> []"
    and "\<not> in_header_value p" "cur_header_field p = []" "cur_header_value p = []"
    and "headers (hp_message p) = []"
  shows "on_events (concat (map header_events fvs) @ [LlHeadersComplete i]) p =
    on_headers_complete_cb i (p\<lparr>hp_message := (hp_message p)\<lparr>headers := map whole_header fvs\<rparr>\<rparr>)"
proof (cases "fvs = []")
  case True
  with assms(5) have "(hp_message p)\<lparr>headers := map whole_header fvs\<rparr> = hp_message p" by simp
  with True show ?thesis by (simp add: on_events_append)
next
  case False
  have "map whole_header (butlast fvs) @ [whole_header (last fvs)] = map whole_header fvs"
    using False by (metis append_butlast_last_id list.simps(8,9) map_append)
  then show ?thesis
    using assms(2-)
    by (simp add: on_events_append headers_events [OF assms(1) False assms(2-4)]
        on_headers_complete_cb_def with_headers_def push_header_def whole_header_def Let_def)
qed

lemma head_assembled:
  assumes "hp_type p = ty" "ty \<noteq> TypeUnknown"
    and "\<forall>fv\<in>set fvs. fst fv \<noteq> [] \<and> snd fv \<noteq> []"
    and "es = (LlMessageBegin # line_events ty ls) @ concat (map header_events fvs) @ [LlHeadersComplete i]"
    and "m = described ty i (concat ls) (map whole_header fvs)"
  obtains p' where
    "on_events es p = (if cb_headers_complete p then [(UpHeadersComplete m, p')] else [], p')"
    "hp_message p' = m" "hp_is_chunked p' = flag_chunked i"
proof -
  let ?q = "(on_message_begin_cb p)\<lparr>cur_url := (if ty = Request then concat ls else []),
            cur_status := (if ty = Request then [] else concat ls)\<rparr>"
  let ?r = "?q\<lparr>hp_message := (hp_message ?q)\<lparr>headers := map whole_header fvs\<rparr>\<rparr>"
  have "on_events es p = on_events (concat (map header_events fvs) @ [LlHeadersComplete i]) ?q"
    unfolding assms(4) on_events_append [of "LlMessageBegin # _"] line_begun by (simp split: prod.splits)
  also have "\<dots> = on_headers_complete_cb i ?r"
    by (rule headers_flushed [OF assms(3)]) (simp_all add: on_message_begin_cb_def Message_new_def)
  finally have ev: "on_events es p = on_headers_complete_cb i ?r" .
  let ?p' = "snd (on_headers_complete_cb i ?r)"
  have "on_headers_complete_cb i ?r = (if cb_headers_complete p then [(UpHeadersComplete m, ?p')] else [], ?p')"
    "hp_message ?p' = m" "hp_is_chunked ?p' = flag_chunked i"
    using assms(1,2,5)
    by (simp_all add: on_headers_complete_cb_def on_message_begin_cb_def described_def Let_def)
  with ev that show ?thesis by metis
qed

subsection \<open>Data in several segments\<close>

text \<open>What llhttp reports for a list of segments it accepts one after the other.\<close>

fun ll_run :: "'l llhttp \<Rightarrow> 'l \<Rightarrow> string list \<Rightarrow> (ll_event list \<times> 'l) option" where
  "ll_run ll l [] = Some ([], l)"
| "ll_run ll l (s # ss) =
     (case ll_execute ll l s of (es, LlOk, l1) \<Rightarrow>
        map_option (\<lambda>(es', l2). (es @ es', l2)) (ll_run ll l1 ss)
      | _ \<Rightarrow> None)"

definition set_lib :: "'l \<Rightarrow> 'l http_parser \<Rightarrow> 'l http_parser" where
  "set_lib l p = p\<lparr>hp_lib := l\<rparr>"

text \<open>The callbacks do not look at the library's state.\<close>

lemma on_event_lib:
  "on_event e p = (ups, p') \<Longrightarrow> on_event e (set_lib l p) = (map (apsnd (set_lib l)) ups, set_lib l p')"
  by (cases e)
    (auto simp: set_lib_def on_message_begin_cb_def on_url_cb_def on_status_cb_def
      on_header_field_cb_def push_header_def on_header_value_cb_def on_headers_complete_cb_def
      on_body_cb_def on_message_complete_cb_def Let_def)

lemma on_events_lib:
  "on_events es p = (ups, p') \<Longrightarrow> on_events es (set_lib l p) = (map (apsnd (set_lib l)) ups, set_lib l p')"
proof (induction es arbitrary: p ups)
  case (Cons e es)
  obtain u1 p1 where e: "on_event e p = (u1, p1)" by (cases "on_event e p")
  with Cons.prems obtain u2 where es: "on_events es p1 = (u2, p')" "ups = u1 @ u2"
    by (auto split: prod.splits)
  with on_event_lib [OF e] Cons.IH [OF es(1)] show ?case by simp
qed simp

subsection \<open>Properties\<close>

text \<open>C27: A message is assembled from the fragments llhttp reports, however it cuts them: from the start
of a message to the end of its headers, with every name and every value in one or more fragments, the
parser makes one call, with the message whose target (or reason) and headers are the concatenations
of their fragments, in order, whatever the parser held before.\<close>
theorem message_assembled:
  assumes "hp_type p = ty" "ty \<noteq> TypeUnknown"
    and "\<forall>fv\<in>set fvs. fst fv \<noteq> [] \<and> snd fv \<noteq> []"
    and "es = (LlMessageBegin # line_events ty ls) @ concat (map header_events fvs) @ [LlHeadersComplete i]"
  shows "hp_message (snd (on_events es p)) = described ty i (concat ls) (map whole_header fvs) \<and>
    map fst (fst (on_events es p)) =
      (if cb_headers_complete p
       then [UpHeadersComplete (described ty i (concat ls) (map whole_header fvs))] else [])"
  by (rule head_assembled [OF assms refl]) simp

theorem message_assembled_witness:
  "target (hp_message (snd (on_events ((LlMessageBegin # line_events Request [''/a'', ''b'']) @
       concat (map header_events [([''Ho'', ''st''], [''x''])]) @
       [LlHeadersComplete \<lparr>http_major = 1, http_minor = 1, ll_method = ''GET'', ll_status = 0,
          flag_chunked = False, flag_keep_alive = False, flag_close = False, flag_content_length = False,
          ll_content_length = 0, ll_upgrade = False, should_keep_alive = True\<rparr>])
       (HttpParser_new idle_llhttp Request)))) = ''/ab''"
proof -
  have "hp_type (HttpParser_new idle_llhttp Request) = Request"
    by (simp add: HttpParser_new_def hp_init_def)
  from message_assembled [OF this, of "[([''Ho'', ''st''], [''x''])]" _ "[''/a'', ''b'']"] show ?thesis
    by (simp add: described_def connection_fields_def request_fields_def split_url_def str_find_def
        Message_new_def Let_def)
qed

text \<open>The path and the query of a request are its target cut at the first question mark.\<close>

lemma target_is_path_and_query:
  "target (request_fields i url m) = url \<and> CHR ''?'' \<notin> set (path (request_fields i url m)) \<and>
     (url = path (request_fields i url m) \<and> query (request_fields i url m) = query m \<or>
      url = path (request_fields i url m) @ ''?'' @ query (request_fields i url m))"
proof (cases "find_char (CHR ''?'') url")
  case None
  then have "split_url url = (url, None)" by (simp add: split_url_def str_find_def)
  moreover from None have "CHR ''?'' \<notin> set url" by (simp add: find_char_None)
  ultimately show ?thesis by (simp add: request_fields_def Let_def)
next
  case (Some q)
  from find_char_Some [OF this] have "url = take q url @ CHR ''?'' # drop (Suc q) url"
      "CHR ''?'' \<notin> set (take q url)"
    using id_take_nth_drop [of q url] by auto
  with Some show ?thesis
    by (simp add: request_fields_def split_url_def str_find_def Let_def o_def)
qed

lemma on_event_callbacks:
  "on_event e p = (ups, p') \<Longrightarrow> hp_type p' = hp_type p \<and> cb_error p' = cb_error p \<and>
     cb_headers_complete p' = cb_headers_complete p \<and> cb_body p' = cb_body p \<and>
     cb_message_complete p' = cb_message_complete p \<and> cb_paused_upgrade p' = cb_paused_upgrade p \<and>
     had_error p' = had_error p"
  by (cases e)
    (auto simp: on_message_begin_cb_def on_url_cb_def on_status_cb_def on_header_field_cb_def
      push_header_def on_header_value_cb_def on_headers_complete_cb_def on_body_cb_def
      on_message_complete_cb_def Let_def split: if_splits)

lemma on_events_callbacks:
  "on_events es p = (ups, p') \<Longrightarrow> hp_type p' = hp_type p \<and> cb_error p' = cb_error p \<and>
     cb_headers_complete p' = cb_headers_complete p \<and> cb_body p' = cb_body p \<and>
     cb_message_complete p' = cb_message_complete p \<and> cb_paused_upgrade p' = cb_paused_upgrade p \<and>
     had_error p' = had_error p"
proof (induction es arbitrary: p ups)
  case (Cons e es)
  obtain u1 p1 where e: "on_event e p = (u1, p1)" by (cases "on_event e p")
  with Cons.prems obtain u2 where es: "on_events es p1 = (u2, p')" by (auto split: prod.splits)
  with Cons.IH [OF es] on_event_callbacks [OF e] show ?case by simp
qed simp

text \<open>A parse error is reported once and then sticks: after data that llhttp rejects the owner has
been told (if it set a callback), every further feed returns false with no call and no change, and
only a reset makes the parser ready again, with the state llhttp starts with.\<close>
theorem parse_error_sticks:
  assumes "\<not> had_error p" "ll_execute ll (hp_lib p) data = (es, LlError code why, l)"
    and "feed ll data p = (ok, ups, p')"
  shows "\<not> ok \<and> (cb_error p \<longrightarrow> map fst ups = map fst (fst (on_events es p)) @ [UpError code why]) \<and>
    feed ll data' p' = (False, [], p') \<and>
    \<not> had_error (hp_reset ll TypeUnknown p') \<and>
    (hp_type p \<noteq> TypeUnknown \<longrightarrow> hp_lib (hp_reset ll TypeUnknown p') = ll_init ll (hp_type p))"
proof -
  obtain u0 p0 where ev: "on_events es p = (u0, p0)" by (cases "on_events es p")
  from on_events_callbacks [OF this] assms ev show ?thesis
    by (auto simp: feed_def hp_reset_def hp_init_def Let_def)
qed

theorem parse_error_sticks_witness:
  "\<exists>p'. feed \<lparr>ll_init = \<lambda>_. (), ll_execute = \<lambda>l d. ([], LlError 9 ''bad'', l), ll_resume = \<lambda>l. l\<rparr> ''x''
      (HttpParser_new \<lparr>ll_init = \<lambda>_. (), ll_execute = \<lambda>l d. ([], LlError 9 ''bad'', l), ll_resume = \<lambda>l. l\<rparr> Request) =
     (False, [], p') \<and>
    feed \<lparr>ll_init = \<lambda>_. (), ll_execute = \<lambda>l d. ([], LlError 9 ''bad'', l), ll_resume = \<lambda>l. l\<rparr> ''y'' p' = (False, [], p')"
proof -
  let ?ll = "\<lparr>ll_init = \<lambda>_. (), ll_execute = \<lambda>l d. ([], LlError 9 ''bad'', l), ll_resume = \<lambda>l. l\<rparr>"
  let ?p = "HttpParser_new ?ll Request"
  have "\<not> had_error ?p" by (simp add: HttpParser_new_def hp_init_def)
  moreover obtain p' where "feed ?ll ''x'' ?p = (False, [], p')"
    by (simp add: feed_def HttpParser_new_def hp_init_def)
  ultimately show ?thesis using parse_error_sticks [of ?p ?ll "''x''" _ 9] by auto
qed

text \<open>
  Trailers of a chunked body: llhttp reports them with the header callbacks, so all but the last end up
  among the headers, the last one nowhere, and none in \<open>trailers\<close>.
\<close>

lemma trailers_misfiled:
  assumes "\<not> in_header_value p" "cur_header_field p = []" "cur_header_value p = []"
    and "p' = snd (on_events (header_events ([''A''], [''1'']) @ header_events ([''B''], [''2'']) @ [LlMessageComplete]) p)"
  shows "headers (hp_message p') = headers (hp_message p) @ [\<lparr>hd_name = ''A'', hd_value = ''1''\<rparr>] \<and>
    trailers (hp_message p') = trailers (hp_message p)"
  using assms
  by (simp add: header_events_def on_header_field_cb_def on_header_value_cb_def push_header_def
      on_message_complete_cb_def Let_def)

end
