(* ===== verification/HttpRelay.thy ===== *)
theory HttpRelay
  imports HttpParser
begin

text \<open>
  Forwarding a message while it is parsed. The client forwards responses and the server forwards
  requests in the same way: the callbacks send the head, then every piece of the body (as a chunk
  when the message is chunked), then the last chunk. \<open>http_relay\<close> is that contract; the callbacks of
  \<open>Src/client/src/tcp_session.cpp\<close> and of \<open>Src/server/src/http_session.cpp\<close> provide it.
\<close>

fun no_error :: "hp_upcall \<times> 'l http_parser \<Rightarrow> bool" where
  "no_error (UpError code why, p) = False"
| "no_error _ = True"

text \<open>What is sent for a call of the parser: \<open>head\<close> writes the head, \<open>ch\<close> says whether to re-encode.\<close>

fun relay_bytes ::
  "(http_message \<Rightarrow> string) \<Rightarrow> ('l http_parser \<Rightarrow> bool) \<Rightarrow> hp_upcall \<times> 'l http_parser \<Rightarrow> string list" where
  "relay_bytes head ch (UpHeadersComplete msg, p) = [head msg]"
| "relay_bytes head ch (UpBody d, p) = [if ch p then chunk d else d]"
| "relay_bytes head ch (UpMessageComplete, p) = (if ch p then [last_chunk] else [])"
| "relay_bytes head ch _ = []"

lemma no_error_event: "on_event e p = (ups, p') \<Longrightarrow> u \<in> set ups \<Longrightarrow> no_error u"
  by (cases e) (auto simp: on_headers_complete_cb_def on_body_cb_def on_message_complete_cb_def Let_def
      split: if_splits)

lemma no_error_events: "on_events es p = (ups, p') \<Longrightarrow> u \<in> set ups \<Longrightarrow> no_error u"
proof (induction es arbitrary: p ups)
  case (Cons e es)
  obtain u1 p1 where e: "on_event e p = (u1, p1)" by (cases "on_event e p")
  with Cons.prems obtain u2 where "on_events es p1 = (u2, p')" "ups = u1 @ u2"
    by (auto split: prod.splits)
  with Cons.IH [of p1 u2] Cons.prems(2) show ?case
    by (cases "u \<in> set u1") (simp_all add: no_error_event [OF e])
qed simp

lemma on_events_body:
  "cb_body p \<Longrightarrow> on_events (map LlBody parts) p = (map (\<lambda>d. (UpBody d, p)) parts, p)"
  by (induction parts) (simp_all add: on_body_cb_def)

lemma concat_singletons: "concat (concat (map (\<lambda>d. [f d]) ds)) = concat (map f ds)"
  by (induction ds) simp_all

lemma chunked_described [simp]: "chunked (described ty i line hs) = flag_chunked i"
  by (simp add: described_def connection_fields_def Let_def)

text \<open>A whole message: its head, its body in fragments, its end.\<close>

definition message_events ::
  "http_type \<Rightarrow> string list \<Rightarrow> (string list \<times> string list) list \<Rightarrow> ll_info \<Rightarrow> string list \<Rightarrow> ll_event list"
  where
  "message_events ty ls fvs i parts =
     ((LlMessageBegin # line_events ty ls) @ concat (map header_events fvs) @ [LlHeadersComplete i]) @
     map LlBody parts @ [LlMessageComplete]"

definition relayed_body :: "bool \<Rightarrow> string list \<Rightarrow> string" where
  "relayed_body is_ch parts = (if is_ch then concat (map chunk parts) @ last_chunk else concat parts)"

text \<open>A parser at the start of a message, with the callbacks of a relay.\<close>

definition relay_parser :: "http_type \<Rightarrow> 'l http_parser \<Rightarrow> bool" where
  "relay_parser ty p \<longleftrightarrow> hp_type p = ty \<and> ty \<noteq> TypeUnknown \<and> cb_headers_complete p \<and> cb_body p \<and>
     cb_message_complete p \<and> \<not> had_error p"

locale http_relay =
  fixes parser_of :: "'s \<Rightarrow> 'l http_parser"
    and with_parser :: "'l http_parser \<Rightarrow> 's \<Rightarrow> 's"
    and upcall :: "hp_upcall \<times> 'l http_parser \<Rightarrow> ('s, 'a) handler"
    and live :: "'s \<Rightarrow> bool"
    and head :: "http_message \<Rightarrow> string"
    and ch :: "'l http_parser \<Rightarrow> bool"
    and act :: "string \<Rightarrow> 'a"
  assumes parser_with: "parser_of (with_parser p s) = p"
    and with_with: "with_parser p (with_parser q s) = with_parser p s"
    and with_same: "live s \<Longrightarrow> with_parser (parser_of s) s = s"
    and live_with: "live s \<Longrightarrow> live (with_parser p s)"
    and ch_message: "hp_is_chunked p = chunked (hp_message p) \<Longrightarrow> ch p = chunked (hp_message p)"
    and ch_lib: "ch (set_lib l p) = ch p"
    and relays: "live s \<Longrightarrow> no_error u \<Longrightarrow> upcall u s = Inr (s, map act (relay_bytes head ch u))"
begin

definition feed_all :: "'l llhttp \<Rightarrow> string \<Rightarrow> ('s, 'a) handler" where
  "feed_all ll data s =
     (case feed ll data (parser_of s) of (_, ups, p) \<Rightarrow> for_each upcall ups (with_parser p s))"

lemma upcalls:
  assumes "live s" "\<forall>u\<in>set ups. no_error u"
  shows "for_each upcall ups s = Inr (s, map act (concat (map (relay_bytes head ch) ups)))"
  using assms(2)
proof (induction ups)
  case (Cons u ups)
  with relays [OF assms(1), of u] show ?case by (simp add: andThen_def)
qed (simp add: skip_def)

lemma bytes_lib: "relay_bytes head ch (apsnd (set_lib l) u) = relay_bytes head ch u"
  by (cases "(head, ch, u)" rule: relay_bytes.cases) (auto simp: ch_lib)

text \<open>Accepted segments have the effect of the events they give rise to, however they are cut.\<close>

lemma segments:
  assumes "ll_run ll (hp_lib p) segs = Some (es, l)" "\<not> had_error p" "on_events es p = (ups, p')"
    and "live s" "parser_of s = p"
  shows "for_each (feed_all ll) segs s =
    Inr (with_parser (set_lib l p') s, map act (concat (map (relay_bytes head ch) ups))) \<and> live (with_parser (set_lib l p') s)"
  using assms
proof (induction segs arbitrary: s p es ups p')
  case Nil
  have "set_lib (hp_lib p) p = p" by (simp add: set_lib_def)
  with Nil with_same [of s] show ?case by (simp add: skip_def)
next
  case (Cons seg segs)
  then obtain e1 l1 e2 where ex: "ll_execute ll (hp_lib p) seg = (e1, LlOk, l1)"
    and run: "ll_run ll l1 segs = Some (e2, l)" and es: "es = e1 @ e2"
    by (auto split: prod.splits ll_result.splits)
  obtain u1 p1 where ev1: "on_events e1 p = (u1, p1)" by (cases "on_events e1 p")
  with Cons.prems(3) es obtain u2 where ev2: "on_events e2 p1 = (u2, p')" and ups: "ups = u1 @ u2"
    by (auto simp: on_events_append split: prod.splits)
  let ?p1 = "set_lib l1 p1"
  let ?s1 = "with_parser ?p1 s"
  have feed: "feed ll seg p = (True, u1, ?p1)"
    using Cons.prems(2) ex ev1 by (simp add: feed_def set_lib_def)
  have "\<forall>u\<in>set u1. no_error u" using no_error_events [OF ev1] by blast
  moreover have live: "live ?s1" using Cons.prems(4) by (simp add: live_with)
  ultimately have st: "feed_all ll seg s = Inr (?s1, map act (concat (map (relay_bytes head ch) u1)))"
    using Cons.prems(5) upcalls by (simp add: feed_all_def feed)
  have "for_each (feed_all ll) segs ?s1 =
      Inr (with_parser (set_lib l (set_lib l1 p')) ?s1,
        map act (concat (map (relay_bytes head ch) (map (apsnd (set_lib l1)) u2)))) \<and>
      live (with_parser (set_lib l (set_lib l1 p')) ?s1)"
  proof (rule Cons.IH [OF _ _ _ live parser_with])
    show "on_events e2 ?p1 = (map (apsnd (set_lib l1)) u2, set_lib l1 p')"
      by (rule on_events_lib [OF ev2])
    show "ll_run ll (hp_lib ?p1) segs = Some (e2, l)" using run by (simp add: set_lib_def)
    show "\<not> had_error ?p1"
      using on_events_callbacks [OF ev1] Cons.prems(2) by (simp add: set_lib_def)
  qed
  moreover have "set_lib l (set_lib l1 p') = set_lib l p'" by (simp add: set_lib_def)
  ultimately show ?case using st
    by (simp add: andThen_def ups with_with o_def bytes_lib)
qed

lemma message_upcalls:
  assumes "relay_parser ty p" "\<forall>fv\<in>set fvs. fst fv \<noteq> [] \<and> snd fv \<noteq> []"
    and "m = described ty i (concat ls) (map whole_header fvs)"
  obtains ups p' where "on_events (message_events ty ls fvs i parts) p = (ups, p')"
    "concat (concat (map (relay_bytes head ch) ups)) = head m @ relayed_body (flag_chunked i) parts"
proof -
  let ?head = "(LlMessageBegin # line_events ty ls) @ concat (map header_events fvs) @ [LlHeadersComplete i]"
  have p: "hp_type p = ty" "ty \<noteq> TypeUnknown" "cb_headers_complete p" "cb_body p" "cb_message_complete p"
    using assms(1) by (simp_all add: relay_parser_def)
  obtain p1 where "on_events ?head p = (if cb_headers_complete p then [(UpHeadersComplete m, p1)] else [], p1)"
    and m: "hp_message p1 = m" and ic: "hp_is_chunked p1 = flag_chunked i"
    by (rule head_assembled [OF p(1,2) assms(2) refl assms(3)])
  with p(3) have head: "on_events ?head p = ([(UpHeadersComplete m, p1)], p1)" by simp
  have ch: "ch p1 = flag_chunked i" using ch_message [of p1] m ic assms(3) by simp
  from on_events_callbacks [OF head] p have cbs: "cb_body p1" "cb_message_complete p1" by simp_all
  let ?p2 = "p1\<lparr>message_complete := True\<rparr>"
  have ch2: "ch ?p2 = flag_chunked i"
    using ch_message [of ?p2] m assms(3) ic by simp
  have "on_events (map LlBody parts @ [LlMessageComplete]) p1 =
      (map (\<lambda>d. (UpBody d, p1)) parts @ [(UpMessageComplete, ?p2)], ?p2)"
    using cbs by (simp add: on_events_append on_events_body on_message_complete_cb_def Let_def)
  with head have ev: "on_events (message_events ty ls fvs i parts) p =
      ((UpHeadersComplete m, p1) # map (\<lambda>d. (UpBody d, p1)) parts @ [(UpMessageComplete, ?p2)], ?p2)"
    unfolding message_events_def on_events_append [of ?head] by simp
  show ?thesis
    by (rule that [OF ev]) (simp add: ch ch2 o_def concat_singletons relayed_body_def)
qed

text \<open>A message is relayed whole, however the library cuts it and however it arrives.\<close>

lemma message_relayed:
  assumes "live s" "parser_of s = p" "relay_parser ty p" "\<forall>fv\<in>set fvs. fst fv \<noteq> [] \<and> snd fv \<noteq> []"
    and "ll_run ll (hp_lib p) segs = Some (message_events ty ls fvs i parts, l)"
  shows "\<exists>s' bufs. for_each (feed_all ll) segs s = Inr (s', map act bufs) \<and> live s' \<and>
    concat bufs = head (described ty i (concat ls) (map whole_header fvs)) @ relayed_body (flag_chunked i) parts"
proof -
  obtain ups p' where ev: "on_events (message_events ty ls fvs i parts) p = (ups, p')"
    and out: "concat (concat (map (relay_bytes head ch) ups)) =
      head (described ty i (concat ls) (map whole_header fvs)) @ relayed_body (flag_chunked i) parts"
    by (rule message_upcalls [OF assms(3,4) refl])
  have "\<not> had_error p" using assms(3) by (simp add: relay_parser_def)
  from segments [OF assms(5) this ev assms(1,2)] out assms(1) show ?thesis
    by (auto simp: live_with)
qed

end

end
