(* ===== verification/Signaling.thy ===== *)
theory Signaling
  imports RtcPrelude
begin

text \<open>
  \<open>Src/common/include/signaling.h\<close>, \<open>Src/common/src/signaling.cpp\<close>, \<open>Src/common/include/p2p_client.h\<close>
  and \<open>Src/common/src/p2p_client.cpp\<close>: the WebSocket that carries JSON signaling messages, and the
  owner of the WebRTC peer connection and data channel. A WebSocket, a peer connection and a data
  channel are objects of a library: the model keeps whether the program holds one and whether it is
  open, and a handler returns the calls it makes of them. Parsing and printing JSON text is the
  library's as well: \<open>parse\<close> and \<open>dump\<close> are arguments.
\<close>

subsection \<open>JSON values\<close>

datatype json = JStr string | JObj "(string \<times> json) list" | JRaw string

text \<open>\<open>find\<close> on a value that is not an object finds nothing.\<close>

fun json_find :: "json \<Rightarrow> string \<Rightarrow> json option" where
  "json_find (JObj kvs) k = map_of kvs k"
| "json_find _ k = None"

text \<open>Conversion to \<open>std::string\<close> throws unless the value is a string.\<close>

fun json_str :: "json \<Rightarrow> string cpp" where
  "json_str (JStr s) = Inr s"
| "json_str _ = Inl TypeError"

text \<open>\<open>value(key, default)\<close> on an object.\<close>

definition json_value :: "json \<Rightarrow> string \<Rightarrow> string \<Rightarrow> string cpp" where
  "json_value j k d = (case json_find j k of None \<Rightarrow> Inr d | Some v \<Rightarrow> json_str v)"

lemma json_value_str: "json_find j k = Some (JStr s) \<Longrightarrow> json_value j k d = Inr s"
  by (simp add: json_value_def)

text \<open>Calls of the library objects, and of the owners' callbacks.\<close>

datatype link_action =
    WsOpenUrl string
  | WsSend string
  | WsClose
  | PcNew
  | PcSetRemote string string
  | PcAddCandidate string string
  | PcClose
  | DcNew string
  | DcSend bytes
  | DcClose
  | SignalOut json
  | DataOut bytes

subsection \<open>The signaling client\<close>

datatype ws_state = WsConnecting | WsOpen | WsClosed

record signaling_client =
  sg_ws :: "ws_state option"
  sg_message :: bool
  sg_open :: bool
  sg_closed :: bool
  sg_error :: bool

definition SignalingClient_new :: signaling_client where
  "SignalingClient_new =
     \<lparr>sg_ws = None, sg_message = False, sg_open = False, sg_closed = False, sg_error = False\<rparr>"

definition sig_connect_url :: "string \<Rightarrow> signaling_client \<Rightarrow> signaling_client \<times> link_action list" where
  "sig_connect_url url s = (s\<lparr>sg_ws := Some WsConnecting\<rparr>, [WsOpenUrl url])"

text \<open>An accepted WebSocket is in whatever state the server handed it over in.\<close>

definition sig_connect_ws :: "ws_state \<Rightarrow> signaling_client \<Rightarrow> signaling_client" where
  "sig_connect_ws st s = s\<lparr>sg_ws := Some st\<rparr>"

text \<open>\<open>close()\<close> takes the WebSocket out of the open state.\<close>

definition sig_disconnect :: "signaling_client \<Rightarrow> signaling_client \<times> link_action list" where
  "sig_disconnect s =
     (case sg_ws s of None \<Rightarrow> (s, []) | Some _ \<Rightarrow> (s\<lparr>sg_ws := Some WsClosed\<rparr>, [WsClose]))"

definition sig_isOpen :: "signaling_client \<Rightarrow> bool" where
  "sig_isOpen s \<longleftrightarrow> sg_ws s = Some WsOpen"

definition sig_send :: "(json \<Rightarrow> string) \<Rightarrow> json \<Rightarrow> signaling_client \<Rightarrow> link_action list" where
  "sig_send dump msg s = (if sig_isOpen s then [WsSend (dump msg)] else [])"

text \<open>
  A text frame becomes a call of the message callback: \<open>None\<close> when the text is not JSON, has no
  \<open>type\<close> field or there is no callback. Binary frames are ignored.
\<close>

definition sig_on_message :: "(string \<Rightarrow> json option) \<Rightarrow> string \<Rightarrow> signaling_client \<Rightarrow> json option" where
  "sig_on_message parse text s =
     (case parse text of None \<Rightarrow> None
      | Some j \<Rightarrow> (case json_find j ''type'' of None \<Rightarrow> None
         | Some _ \<Rightarrow> if sg_message s then Some j else None))"

definition sig_on_open :: "signaling_client \<Rightarrow> signaling_client \<times> bool" where
  "sig_on_open s = (s\<lparr>sg_ws := Some WsOpen\<rparr>, sg_open s)"

definition sig_on_closed :: "signaling_client \<Rightarrow> signaling_client \<times> bool" where
  "sig_on_closed s = (s\<lparr>sg_ws := Some WsClosed\<rparr>, sg_closed s)"

text \<open>What arrives is what was sent, as far as the fields are concerned.\<close>

definition json_roundtrips :: "(string \<Rightarrow> json option) \<Rightarrow> (json \<Rightarrow> string) \<Rightarrow> json \<Rightarrow> bool" where
  "json_roundtrips parse dump j \<longleftrightarrow>
     (\<exists>j'. parse (dump j) = Some j' \<and> json_find j' = json_find j)"

lemma sig_on_message_dump:
  assumes "json_roundtrips parse dump j" "json_find j ''type'' = Some t" "sg_message s"
  obtains j' where "sig_on_message parse (dump j) s = Some j'" "json_find j' = json_find j"
  using assms by (auto simp: json_roundtrips_def sig_on_message_def)

subsection \<open>The peer-to-peer client\<close>

text \<open>\<open>p2_pc\<close>: there is a peer connection; \<open>p2_dc\<close>: there is a data channel, and whether it is open.\<close>

record p2p_client =
  p2_pc :: bool
  p2_dc :: "bool option"
  p2_data :: bool
  p2_signal_out :: bool
  p2_state_cb :: bool

type_synonym p2p_result = "(p2p_client \<times> link_action list) cpp"

definition P2PClient_new :: p2p_client where
  "P2PClient_new =
     \<lparr>p2_pc = False, p2_dc = None, p2_data = False, p2_signal_out = False, p2_state_cb = False\<rparr>"

text \<open>
  Creation may throw, and the exception is caught: \<open>ok\<close> says whether it succeeded. Then the old
  peer connection, if any, is kept.
\<close>

definition createPeerConnection :: "bool \<Rightarrow> p2p_client \<Rightarrow> p2p_client \<times> link_action list" where
  "createPeerConnection ok p = (if ok then (p\<lparr>p2_pc := True\<rparr>, [PcNew]) else (p, []))"

text \<open>\<open>pc_->createDataChannel\<close> without a peer connection is a null dereference.\<close>

definition createDataChannel :: "bool \<Rightarrow> string \<Rightarrow> p2p_client \<Rightarrow> p2p_result" where
  "createDataChannel ok label p =
     (if \<not> p2_pc p then Inl NullDeref
      else if ok then Inr (p\<lparr>p2_dc := Some False\<rparr>, [DcNew label])
      else Inr (p, []))"

definition handleSignalMessage :: "json \<Rightarrow> p2p_client \<Rightarrow> link_action list cpp" where
  "handleSignalMessage msg p =
     cbind (json_value msg ''type'' []) (\<lambda>type.
       if type = ''description'' then
         (case json_find msg ''description'' of None \<Rightarrow> Inr []
          | Some v \<Rightarrow> cbind (json_str v) (\<lambda>sdp. Inr (if p2_pc p then [PcSetRemote sdp type] else [])))
       else if type = ''candidate'' then
         (case json_find msg ''candidate'' of None \<Rightarrow> Inr []
          | Some c \<Rightarrow> (case json_find msg ''mid'' of None \<Rightarrow> Inr []
             | Some m \<Rightarrow> cbind (json_str c) (\<lambda>candidate. cbind (json_str m) (\<lambda>mid.
                 Inr (if p2_pc p then [PcAddCandidate candidate mid] else [])))))
       else Inr [])"

text \<open>Sending: an exception of the library is caught, so there is nothing but the call.\<close>

definition P2PClient_send :: "bytes \<Rightarrow> nat \<Rightarrow> p2p_client \<Rightarrow> link_action list cpp" where
  "P2PClient_send data n p =
     (if p2_dc p = Some True then cbind (rd_range data 0 n) (\<lambda>d. Inr [DcSend d]) else Inr [])"

definition P2PClient_close :: "p2p_client \<Rightarrow> p2p_client \<times> link_action list" where
  "P2PClient_close p =
     (p\<lparr>p2_dc := map_option (\<lambda>_. False) (p2_dc p)\<rparr>,
      (if p2_dc p \<noteq> None then [DcClose] else []) @ (if p2_pc p then [PcClose] else []))"

text \<open>The callbacks of the peer connection and of the data channel.\<close>

definition candidate_msg :: "string \<Rightarrow> string \<Rightarrow> json" where
  "candidate_msg candidate mid =
     JObj [(''type'', JStr ''candidate''), (''candidate'', JStr candidate), (''mid'', JStr mid)]"

definition description_msg :: "string \<Rightarrow> json" where
  "description_msg sdp = JObj [(''type'', JStr ''description''), (''description'', JStr sdp)]"

definition pc_on_local_candidate :: "string \<Rightarrow> string \<Rightarrow> p2p_client \<Rightarrow> link_action list" where
  "pc_on_local_candidate candidate mid p =
     (if p2_signal_out p then [SignalOut (candidate_msg candidate mid)] else [])"

definition pc_on_local_description :: "string \<Rightarrow> p2p_client \<Rightarrow> link_action list" where
  "pc_on_local_description sdp p =
     (if p2_signal_out p then [SignalOut (description_msg sdp)] else [])"

text \<open>A channel the peer opened replaces the one held; it is bound in the same way.\<close>

definition pc_on_data_channel :: "bool \<Rightarrow> p2p_client \<Rightarrow> p2p_client" where
  "pc_on_data_channel is_open p = p\<lparr>p2_dc := Some is_open\<rparr>"

definition dc_on_message :: "bytes \<Rightarrow> p2p_client \<Rightarrow> link_action list" where
  "dc_on_message d p = (if p2_data p then [DataOut d] else [])"

end
