(* ===== verification/SessionController.thy ===== *)
theory SessionController
  imports Signaling
begin

text \<open>
  \<open>Src/common/include/p2p_session_controller.h\<close>: \<open>P2PSessionController\<close> joins the signaling client and
  the peer-to-peer client of one link, checks the password and reports the link's state. Both the
  client and the server of the tunnel use this class. A handler returns the new state and the calls
  it makes, in order; an exception or undefined behaviour is an \<open>Inl\<close>.
\<close>

subsection \<open>State and operations\<close>

datatype pc_state = PcNewState | PcConnecting | PcConnected | PcDisconnected | PcFailed | PcClosed

datatype controller_state = Connected | Closed

datatype ctl_action =
    Link link_action
  | StateChange controller_state
  | LoginSuccess

record controller =
  ct_sig :: signaling_client
  ct_p2p :: p2p_client
  password :: string
  ct_state_cb :: bool
  ct_login_cb :: bool
  p2p_connected :: bool

type_synonym ctl_result = "(controller \<times> ctl_action list) cpp"

definition Controller_new :: controller where
  "Controller_new =
     \<lparr>ct_sig = SignalingClient_new, ct_p2p = P2PClient_new, password = [], ct_state_cb = False,
      ct_login_cb = False, p2p_connected = False\<rparr>"

definition ctl_init :: "string \<Rightarrow> controller \<Rightarrow> controller" where
  "ctl_init pw c = c\<lparr>password := pw,
     ct_p2p := (ct_p2p c)\<lparr>p2_signal_out := True, p2_state_cb := True\<rparr>,
     ct_sig := (ct_sig c)\<lparr>sg_message := True, sg_closed := True\<rparr>\<rparr>"

definition ctl_onStateChange :: "controller \<Rightarrow> controller" where
  "ctl_onStateChange c = c\<lparr>ct_state_cb := True\<rparr>"

definition ctl_onLoginSuccess :: "controller \<Rightarrow> controller" where
  "ctl_onLoginSuccess c = c\<lparr>ct_login_cb := True\<rparr>"

definition ctl_bindDataChannel :: "controller \<Rightarrow> controller" where
  "ctl_bindDataChannel c = c\<lparr>ct_p2p := (ct_p2p c)\<lparr>p2_data := True\<rparr>\<rparr>"

definition ctl_connect_url :: "string \<Rightarrow> controller \<Rightarrow> controller \<times> ctl_action list" where
  "ctl_connect_url url c =
     (case sig_connect_url url ((ct_sig c)\<lparr>sg_open := True\<rparr>) of
        (s, acts) \<Rightarrow> (c\<lparr>ct_sig := s\<rparr>, map Link acts))"

definition ctl_connect_ws :: "ws_state \<Rightarrow> controller \<Rightarrow> controller" where
  "ctl_connect_ws st c = c\<lparr>ct_sig := sig_connect_ws st (ct_sig c)\<rparr>"

definition ctl_disconnect :: "controller \<Rightarrow> controller \<times> ctl_action list" where
  "ctl_disconnect c =
     (case sig_disconnect (ct_sig c) of (s, acts) \<Rightarrow> (c\<lparr>ct_sig := s\<rparr>, map Link acts))"

definition ctl_send :: "bytes \<Rightarrow> nat \<Rightarrow> controller \<Rightarrow> ctl_action list cpp" where
  "ctl_send data n c = cbind (P2PClient_send data n (ct_p2p c)) (\<lambda>acts. Inr (map Link acts))"

definition report :: "controller_state \<Rightarrow> controller \<Rightarrow> ctl_action list" where
  "report st c = (if ct_state_cb c then [StateChange st] else [])"

text \<open>The lambda given to \<open>p2p_.onStateChange\<close>.\<close>

definition ctl_on_pc_state :: "pc_state \<Rightarrow> controller \<Rightarrow> controller \<times> ctl_action list" where
  "ctl_on_pc_state st c =
     (case st of
        PcConnected \<Rightarrow> (c\<lparr>p2p_connected := True\<rparr>, report Connected c)
      | PcClosed \<Rightarrow>
          (case ctl_disconnect (c\<lparr>p2p_connected := False\<rparr>) of (c', acts) \<Rightarrow> (c', report Closed c @ acts))
      | PcFailed \<Rightarrow>
          (case ctl_disconnect (c\<lparr>p2p_connected := False\<rparr>) of (c', acts) \<Rightarrow> (c', report Closed c @ acts))
      | _ \<Rightarrow> (c, []))"

definition ack_msg :: "bool \<Rightarrow> json" where
  "ack_msg ok = JObj [(''type'', JStr ''verifyACK''), (''result'', JStr (if ok then ''success'' else ''failed''))]"

definition ack_no_password :: json where
  "ack_no_password = JObj [(''status'', JStr ''failed''), (''type'', JStr ''verifyACK'')]"

definition verify_msg :: "string \<Rightarrow> json" where
  "verify_msg pw = JObj [(''type'', JStr ''verify''), (''passwd'', JStr pw)]"

text \<open>
  The lambda given to \<open>signaling_.onMessage\<close>; \<open>pc_ok\<close> and \<open>dc_ok\<close> say whether the library creates the
  peer connection and the data channel when it is asked to.
\<close>

definition on_verifyACK :: "bool \<Rightarrow> bool \<Rightarrow> json \<Rightarrow> controller \<Rightarrow> ctl_result" where
  "on_verifyACK pc_ok dc_ok msg c =
     (if json_find msg ''result'' = Some (JStr ''success'') then
        (case createPeerConnection pc_ok (ct_p2p c) of (p1, acts1) \<Rightarrow>
           cbind (createDataChannel dc_ok ''data'' p1) (\<lambda>(p2, acts2).
             Inr (c\<lparr>ct_p2p := p2\<rparr>, map Link (acts1 @ acts2))))
      else Inr (ctl_disconnect c))"

definition on_verify :: "(json \<Rightarrow> string) \<Rightarrow> bool \<Rightarrow> json \<Rightarrow> controller \<Rightarrow> ctl_result" where
  "on_verify dump pc_ok msg c =
     (case json_find msg ''passwd'' of
        None \<Rightarrow> Inr (c, map Link (sig_send dump ack_no_password (ct_sig c)))
      | Some v \<Rightarrow> cbind (json_str v) (\<lambda>pwd.
          if pwd = password c then
            (case createPeerConnection pc_ok (ct_p2p c) of (p1, acts1) \<Rightarrow>
               Inr (c\<lparr>ct_p2p := p1\<rparr>,
                    map Link acts1 @ (if ct_login_cb c then [LoginSuccess] else []) @
                    map Link (sig_send dump (ack_msg True) (ct_sig c))))
          else Inr (c, map Link (sig_send dump (ack_msg False) (ct_sig c)))))"

definition ctl_on_json :: "(json \<Rightarrow> string) \<Rightarrow> bool \<Rightarrow> bool \<Rightarrow> json \<Rightarrow> controller \<Rightarrow> ctl_result" where
  "ctl_on_json dump pc_ok dc_ok msg c =
     cbind (json_value msg ''type'' []) (\<lambda>type.
       if type = ''verifyACK'' then on_verifyACK pc_ok dc_ok msg c
       else if type = ''verify'' then on_verify dump pc_ok msg c
       else cbind (handleSignalMessage msg (ct_p2p c)) (\<lambda>acts. Inr (c, map Link acts)))"

definition ctl_on_text ::
  "(string \<Rightarrow> json option) \<Rightarrow> (json \<Rightarrow> string) \<Rightarrow> bool \<Rightarrow> bool \<Rightarrow> string \<Rightarrow> controller \<Rightarrow> ctl_result" where
  "ctl_on_text parse dump pc_ok dc_ok text c =
     (case sig_on_message parse text (ct_sig c) of None \<Rightarrow> Inr (c, [])
      | Some msg \<Rightarrow> ctl_on_json dump pc_ok dc_ok msg c)"

text \<open>The lambdas given to \<open>signaling_.onClosed\<close> and \<open>signaling_.onOpen\<close>.\<close>

definition ctl_on_ws_closed :: "controller \<Rightarrow> controller \<times> ctl_action list" where
  "ctl_on_ws_closed c =
     (case sig_on_closed (ct_sig c) of (s, cb) \<Rightarrow>
        if \<not> cb then (c\<lparr>ct_sig := s\<rparr>, [])
        else (case P2PClient_close (ct_p2p c) of (p, acts) \<Rightarrow>
          (c\<lparr>ct_sig := s, ct_p2p := p\<rparr>,
           map Link acts @ (if \<not> p2p_connected c then report Closed c else []))))"

definition ctl_on_ws_open :: "(json \<Rightarrow> string) \<Rightarrow> controller \<Rightarrow> controller \<times> ctl_action list" where
  "ctl_on_ws_open dump c =
     (case sig_on_open (ct_sig c) of (s, cb) \<Rightarrow>
        (c\<lparr>ct_sig := s\<rparr>, if cb then map Link (sig_send dump (verify_msg (password c)) s) else []))"

text \<open>What the peer connection and the data channel report, with \<open>signal_out\<close> going to the signaling client.\<close>

fun route :: "(json \<Rightarrow> string) \<Rightarrow> controller \<Rightarrow> link_action \<Rightarrow> link_action list" where
  "route dump c (SignalOut j) = sig_send dump j (ct_sig c)"
| "route dump c a = [a]"

definition ctl_on_candidate :: "(json \<Rightarrow> string) \<Rightarrow> string \<Rightarrow> string \<Rightarrow> controller \<Rightarrow> ctl_action list" where
  "ctl_on_candidate dump cand mid c =
     map Link (concat (map (route dump c) (pc_on_local_candidate cand mid (ct_p2p c))))"

definition ctl_on_description :: "(json \<Rightarrow> string) \<Rightarrow> string \<Rightarrow> controller \<Rightarrow> ctl_action list" where
  "ctl_on_description dump sdp c =
     map Link (concat (map (route dump c) (pc_on_local_description sdp (ct_p2p c))))"

definition ctl_on_dc_message :: "bytes \<Rightarrow> controller \<Rightarrow> ctl_action list" where
  "ctl_on_dc_message d c = map Link (dc_on_message d (ct_p2p c))"

definition ctl_on_data_channel :: "bool \<Rightarrow> controller \<Rightarrow> controller" where
  "ctl_on_data_channel is_open c = c\<lparr>ct_p2p := pc_on_data_channel is_open (ct_p2p c)\<rparr>"

subsection \<open>Events of one controller\<close>

datatype ctl_event =
    CevOpen
  | CevText string bool bool
  | CevClosed
  | CevPcState pc_state
  | CevCandidate string string
  | CevDescription string
  | CevDataChannel bool
  | CevData bytes
  | CevDisconnect

fun ctl_handle ::
  "(string \<Rightarrow> json option) \<Rightarrow> (json \<Rightarrow> string) \<Rightarrow> ctl_event \<Rightarrow> controller \<Rightarrow> ctl_result" where
  "ctl_handle parse dump CevOpen c = Inr (ctl_on_ws_open dump c)"
| "ctl_handle parse dump (CevText t pc_ok dc_ok) c = ctl_on_text parse dump pc_ok dc_ok t c"
| "ctl_handle parse dump CevClosed c = Inr (ctl_on_ws_closed c)"
| "ctl_handle parse dump (CevPcState st) c = Inr (ctl_on_pc_state st c)"
| "ctl_handle parse dump (CevCandidate a m) c = Inr (c, ctl_on_candidate dump a m c)"
| "ctl_handle parse dump (CevDescription d) c = Inr (c, ctl_on_description dump d c)"
| "ctl_handle parse dump (CevDataChannel b) c = Inr (ctl_on_data_channel b c, [])"
| "ctl_handle parse dump (CevData d) c = Inr (c, ctl_on_dc_message d c)"
| "ctl_handle parse dump CevDisconnect c = Inr (ctl_disconnect c)"

text \<open>
  A JSON type error is an exception that ends its callback, before it has changed anything; a null
  dereference ends the program.
\<close>

fun ctl_run ::
  "(string \<Rightarrow> json option) \<Rightarrow> (json \<Rightarrow> string) \<Rightarrow> ctl_event list \<Rightarrow> controller \<Rightarrow> controller \<times> ctl_action list" where
  "ctl_run parse dump [] c = (c, [])"
| "ctl_run parse dump (e # es) c =
     (case ctl_handle parse dump e c of
        Inl TypeError \<Rightarrow> ctl_run parse dump es c
      | Inl _ \<Rightarrow> (c, [])
      | Inr (c1, acts) \<Rightarrow> (case ctl_run parse dump es c1 of (c2, acts') \<Rightarrow> (c2, acts @ acts')))"

subsection \<open>Lemmas\<close>

lemma json_str_eq_Inr: "json_str v = Inr s \<longleftrightarrow> v = JStr s"
  by (cases v) auto

lemma json_value_type: "json_find j ''type'' = Some (JStr t) \<Longrightarrow> json_value j ''type'' [] = Inr t"
  by (rule json_value_str)

lemma json_find_msgs [simp]:
  "json_find (verify_msg pw) ''type'' = Some (JStr ''verify'')"
  "json_find (verify_msg pw) ''passwd'' = Some (JStr pw)"
  "json_find (ack_msg ok) ''type'' = Some (JStr ''verifyACK'')"
  "json_find (ack_msg ok) ''result'' = Some (JStr (if ok then ''success'' else ''failed''))"
  by (simp_all add: verify_msg_def ack_msg_def)

text \<open>A message that round-trips is handled as the message that was sent.\<close>

lemma handleSignalMessage_cong:
  "json_find j = json_find j' \<Longrightarrow> handleSignalMessage j p = handleSignalMessage j' p"
  by (unfold handleSignalMessage_def json_value_def) (erule ssubst, rule refl)

lemma ctl_on_json_cong:
  assumes "json_find j = json_find j'"
  shows "ctl_on_json dump pc_ok dc_ok j c = ctl_on_json dump pc_ok dc_ok j' c"
  unfolding ctl_on_json_def json_value_def on_verifyACK_def on_verify_def
    handleSignalMessage_cong [OF assms] assms
  by (rule refl)

lemma ctl_on_text_dump:
  assumes "json_roundtrips parse dump j" "json_find j ''type'' = Some t" "sg_message (ct_sig c)"
  shows "ctl_on_text parse dump pc_ok dc_ok (dump j) c = ctl_on_json dump pc_ok dc_ok j c"
proof -
  from assms obtain j' where "sig_on_message parse (dump j) (ct_sig c) = Some j'"
    and "json_find j' = json_find j" by (rule sig_on_message_dump) blast
  then show ?thesis by (simp add: ctl_on_text_def ctl_on_json_cong [of j' j])
qed

lemma ctl_on_json_verify:
  "ctl_on_json dump pc_ok dc_ok (verify_msg pw) c =
     (if pw = password c
      then Inr (c\<lparr>ct_p2p := (ct_p2p c)\<lparr>p2_pc := pc_ok \<or> p2_pc (ct_p2p c)\<rparr>\<rparr>,
        (if pc_ok then [Link PcNew] else []) @ (if ct_login_cb c then [LoginSuccess] else []) @
        map Link (sig_send dump (ack_msg True) (ct_sig c)))
      else Inr (c, map Link (sig_send dump (ack_msg False) (ct_sig c))))"
  by (cases c) (simp add: ctl_on_json_def json_value_type on_verify_def createPeerConnection_def)

lemma ctl_on_json_ack:
  "ctl_on_json dump True True (ack_msg True) c =
     Inr (c\<lparr>ct_p2p := (ct_p2p c)\<lparr>p2_pc := True, p2_dc := Some False\<rparr>\<rparr>, [Link PcNew, Link (DcNew ''data'')])"
  "ctl_on_json dump pc_ok dc_ok (ack_msg False) c = Inr (ctl_disconnect c)"
  by (simp_all add: ctl_on_json_def json_value_type on_verifyACK_def createPeerConnection_def
      createDataChannel_def)

fun texts_of :: "ctl_action list \<Rightarrow> string list" where
  "texts_of [] = []"
| "texts_of (Link (WsSend t) # acts) = t # texts_of acts"
| "texts_of (_ # acts) = texts_of acts"

lemma texts_of_append [simp]: "texts_of (a @ b) = texts_of a @ texts_of b"
  by (induction a rule: texts_of.induct) auto

text \<open>Texts sent over the WebSocket are handled at the other end one by one.\<close>

fun receive_texts ::
  "(string \<Rightarrow> json option) \<Rightarrow> (json \<Rightarrow> string) \<Rightarrow> string list \<Rightarrow> controller \<Rightarrow> ctl_result" where
  "receive_texts parse dump [] c = Inr (c, [])"
| "receive_texts parse dump (t # ts) c =
     cbind (ctl_on_text parse dump True True t c) (\<lambda>(c1, a1).
       cbind (receive_texts parse dump ts c1) (\<lambda>(c2, a2). Inr (c2, a1 @ a2)))"

definition handshake ::
  "(string \<Rightarrow> json option) \<Rightarrow> (json \<Rightarrow> string) \<Rightarrow> controller \<Rightarrow> controller \<Rightarrow>
     ((controller \<times> ctl_action list) \<times> (controller \<times> ctl_action list)) cpp" where
  "handshake parse dump client server =
     (case ctl_on_ws_open dump client of (c1, a1) \<Rightarrow>
        cbind (receive_texts parse dump (texts_of a1) server) (\<lambda>(s1, b1).
          cbind (receive_texts parse dump (texts_of b1) c1) (\<lambda>(c2, a2).
            Inr ((c2, a2), (s1, b1)))))"

text \<open>The two ends as the program sets them up.\<close>

definition client_end :: "string \<Rightarrow> string \<Rightarrow> controller" where
  "client_end pw url = fst (ctl_connect_url url (ctl_onStateChange (ctl_init pw (ctl_bindDataChannel Controller_new))))"

definition server_end :: "string \<Rightarrow> controller" where
  "server_end pw =
     ctl_connect_ws WsOpen (ctl_init pw (ctl_onLoginSuccess (ctl_onStateChange (ctl_bindDataChannel Controller_new))))"

lemmas end_defs = client_end_def server_end_def ctl_connect_url_def sig_connect_url_def
  ctl_connect_ws_def sig_connect_ws_def ctl_init_def ctl_onStateChange_def ctl_onLoginSuccess_def
  ctl_bindDataChannel_def Controller_new_def SignalingClient_new_def P2PClient_new_def

text \<open>The client with its WebSocket open, and what the two ends do first.\<close>

definition client_open :: "string \<Rightarrow> string \<Rightarrow> controller" where
  "client_open pw url =
     (client_end pw url)\<lparr>ct_sig := (ct_sig (client_end pw url))\<lparr>sg_ws := Some WsOpen\<rparr>\<rparr>"

lemma client_opens:
  "ctl_on_ws_open dump (client_end pw url) = (client_open pw url, [Link (WsSend (dump (verify_msg pw)))])"
  by (simp add: end_defs client_open_def ctl_on_ws_open_def sig_on_open_def sig_send_def sig_isOpen_def)

lemma client_open_sig: "sg_message (ct_sig (client_open pw url))" "sg_message (ct_sig (server_end pw))"
  by (simp_all add: end_defs client_open_def)

lemma client_disconnects:
  "ctl_disconnect (client_open pw url) =
     ((client_end pw url)\<lparr>ct_sig := (ct_sig (client_end pw url))\<lparr>sg_ws := Some WsClosed\<rparr>\<rparr>, [Link WsClose])"
  by (simp add: end_defs client_open_def ctl_disconnect_def sig_disconnect_def)

lemma ends_idle: "\<not> p2_pc (ct_p2p (client_end pw url))" "sig_isOpen (ct_sig (server_end pw))"
  by (simp_all add: end_defs sig_isOpen_def)

lemma server_answers:
  "ctl_on_json dump True dc_ok (verify_msg pw) (server_end pw') =
     (if pw = pw'
      then Inr ((server_end pw')\<lparr>ct_p2p := (ct_p2p (server_end pw'))\<lparr>p2_pc := True\<rparr>\<rparr>,
        [Link PcNew, LoginSuccess, Link (WsSend (dump (ack_msg True)))])
      else Inr (server_end pw', [Link (WsSend (dump (ack_msg False)))]))"
  unfolding ctl_on_json_verify by (simp add: end_defs sig_send_def sig_isOpen_def)

lemma ctl_on_text_creates:
  assumes "ctl_on_text parse dump pc_ok dc_ok t c = Inr (c', acts)" "Link PcNew \<in> set acts"
  shows "\<exists>j. parse t = Some j \<and>
    (json_find j ''type'' = Some (JStr ''verify'') \<and> json_find j ''passwd'' = Some (JStr (password c)) \<or>
     json_find j ''type'' = Some (JStr ''verifyACK'') \<and> json_find j ''result'' = Some (JStr ''success''))"
proof -
  from assms obtain j t' where j: "parse t = Some j" "json_find j ''type'' = Some t'"
      "ctl_on_json dump pc_ok dc_ok j c = Inr (c', acts)"
    by (auto simp: ctl_on_text_def sig_on_message_def split: option.splits if_splits)
  then obtain ty where ty: "t' = JStr ty" "json_value j ''type'' [] = Inr ty"
    by (auto simp: ctl_on_json_def json_value_def cbind_eq_Inr json_str_eq_Inr)
  consider "ty = ''verifyACK''" | "ty = ''verify''" | "ty \<noteq> ''verifyACK''" "ty \<noteq> ''verify''" by blast
  then show ?thesis
  proof cases
    case 1
    with j ty assms(2) show ?thesis
      by (auto simp: ctl_on_json_def on_verifyACK_def ctl_disconnect_def sig_disconnect_def
          split: if_splits option.splits)
  next
    case 2
    with j ty assms(2) show ?thesis
      by (auto simp: ctl_on_json_def on_verify_def sig_send_def cbind_eq_Inr json_str_eq_Inr
          split: if_splits option.splits)
  next
    case 3
    with j ty obtain l where "handleSignalMessage j (ct_p2p c) = Inr l" "acts = map Link l"
      by (auto simp: ctl_on_json_def cbind_eq_Inr)
    moreover from this(1) have "PcNew \<notin> set l"
      by (auto simp: handleSignalMessage_def cbind_eq_Inr split: if_splits option.splits)
    ultimately show ?thesis using assms(2) by auto
  qed
qed

lemma ctl_disconnect_fields:
  "ctl_disconnect c = (c', acts) \<Longrightarrow> password c' = password c \<and> Link PcNew \<notin> set acts"
  by (auto simp: ctl_disconnect_def sig_disconnect_def split: option.splits)

lemma ctl_handle_password:
  assumes "ctl_handle parse dump e c = Inr (c', acts)"
  shows "password c' = password c"
proof -
  have "ctl_on_json dump pc_ok dc_ok j c = Inr (c', acts) \<Longrightarrow> password c' = password c" for pc_ok dc_ok j
    by (auto simp: ctl_on_json_def on_verifyACK_def on_verify_def cbind_eq_Inr
        split: if_splits option.splits prod.splits dest!: ctl_disconnect_fields)
  with assms show ?thesis
    by (cases e)
      (auto simp: ctl_on_ws_open_def ctl_on_ws_closed_def ctl_on_pc_state_def ctl_on_data_channel_def
        sig_on_open_def sig_on_closed_def P2PClient_close_def ctl_on_text_def
        split: option.splits if_splits pc_state.splits prod.splits dest: ctl_disconnect_fields)
qed

lemma ctl_handle_creates:
  assumes "ctl_handle parse dump e c = Inr (c', acts)" "Link PcNew \<in> set acts"
  shows "\<exists>t pc_ok dc_ok. e = CevText t pc_ok dc_ok \<and> ctl_on_text parse dump pc_ok dc_ok t c = Inr (c', acts)"
  using assms
  by (cases e)
    (auto simp: ctl_on_ws_open_def ctl_on_ws_closed_def ctl_on_pc_state_def sig_on_open_def
      sig_on_closed_def P2PClient_close_def report_def sig_send_def ctl_on_candidate_def
      pc_on_local_candidate_def ctl_on_description_def pc_on_local_description_def
      ctl_on_dc_message_def dc_on_message_def
      split: if_splits pc_state.splits prod.splits dest: ctl_disconnect_fields)

subsection \<open>Properties\<close>

text \<open>C22: The handshake admits exactly the right password. The client's WebSocket opens, its verify
message reaches the server, and the server's answer reaches the client: when the passwords are equal
the server creates its peer connection, reports the login and the client creates its peer connection
and the data channel; otherwise neither creates anything and the client disconnects, while the server
stays as it was, its WebSocket open for another attempt.\<close>
theorem handshake_admits_password:
  assumes "json_roundtrips parse dump (verify_msg pw)" "json_roundtrips parse dump (ack_msg True)"
    "json_roundtrips parse dump (ack_msg False)"
  shows "\<exists>c s b. handshake parse dump (client_end pw url) (server_end pw') =
      Inr ((c, if pw = pw' then [Link PcNew, Link (DcNew ''data'')] else [Link WsClose]), (s, b)) \<and>
    (pw = pw' \<longrightarrow> b = [Link PcNew, LoginSuccess, Link (WsSend (dump (ack_msg True)))] \<and>
       p2_pc (ct_p2p c) \<and> p2_pc (ct_p2p s)) \<and>
    (pw \<noteq> pw' \<longrightarrow> s = server_end pw' \<and> \<not> p2_pc (ct_p2p c) \<and> sig_isOpen (ct_sig s))"
proof -
  note dump = ctl_on_text_dump [OF assms(1)] ctl_on_text_dump [OF assms(2)] ctl_on_text_dump [OF assms(3)]
  show ?thesis
  proof (cases "pw = pw'")
    case True
    with dump show ?thesis
      by (simp add: handshake_def client_opens server_answers ctl_on_json_ack client_open_sig)
  next
    case False
    with dump show ?thesis
      by (simp add: handshake_def client_opens server_answers ctl_on_json_ack client_open_sig
          client_disconnects ends_idle)
  qed
qed

text \<open>A concrete parser and printer for the witnesses: the text is the list of the fields.\<close>

fun plain_dump :: "json \<Rightarrow> string" where
  "plain_dump (JObj [(k1, JStr v1), (k2, JStr v2)]) = k1 @ CHR 0x0A # v1 @ CHR 0x0A # k2 @ CHR 0x0A # v2"
| "plain_dump (JObj [(k1, JStr v1), (k2, JStr v2), (k3, JStr v3)]) =
     k1 @ CHR 0x0A # v1 @ CHR 0x0A # k2 @ CHR 0x0A # v2 @ CHR 0x0A # k3 @ CHR 0x0A # v3"
| "plain_dump _ = []"

fun split_lines :: "string \<Rightarrow> string list" where
  "split_lines [] = [[]]"
| "split_lines (c # cs) =
     (if c = CHR 0x0A then [] # split_lines cs
      else case split_lines cs of [] \<Rightarrow> [[c]] | l # ls \<Rightarrow> (c # l) # ls)"

fun fields_of :: "string list \<Rightarrow> (string \<times> json) list" where
  "fields_of (k # v # ls) = (k, JStr v) # fields_of ls"
| "fields_of _ = []"

definition plain_parse :: "string \<Rightarrow> json option" where
  "plain_parse t = Some (JObj (fields_of (split_lines t)))"

theorem handshake_admits_password_witness:
  "\<exists>c s b. handshake plain_parse plain_dump (client_end ''pw'' ''ws://h'') (server_end ''pw'') =
     Inr ((c, [Link PcNew, Link (DcNew ''data'')]), (s, b)) \<and> p2_pc (ct_p2p s)"
proof -
  have "json_roundtrips plain_parse plain_dump (verify_msg ''pw'')"
    by (simp add: json_roundtrips_def plain_parse_def verify_msg_def)
  moreover have "json_roundtrips plain_parse plain_dump (ack_msg b)" for b
    by (cases b) (simp_all add: json_roundtrips_def plain_parse_def ack_msg_def)
  ultimately show ?thesis
    using handshake_admits_password [of plain_parse plain_dump "''pw''" "''ws://h''" "''pw''"] by auto
qed

text \<open>C23: The server's password check can be skipped: the class handles \<open>verifyACK\<close> whichever end it
is, so a peer that sends the success answer itself, instead of a password, makes a server with any
password create its peer connection and open a data channel.\<close>
theorem ack_bypasses_password:
  assumes "json_roundtrips parse dump (ack_msg True)"
  shows "ctl_on_text parse dump True True (dump (ack_msg True)) (server_end pw) =
    Inr ((server_end pw)\<lparr>ct_p2p := (ct_p2p (server_end pw))\<lparr>p2_pc := True, p2_dc := Some False\<rparr>\<rparr>,
      [Link PcNew, Link (DcNew ''data'')])"
  using ctl_on_text_dump [OF assms] by (simp add: client_open_sig ctl_on_json_ack)

theorem ack_bypasses_password_witness:
  "\<exists>c. ctl_on_text plain_parse plain_dump True True (plain_dump (ack_msg True)) (server_end ''secret'') =
     Inr (c, [Link PcNew, Link (DcNew ''data'')])"
  using ack_bypasses_password [of plain_parse plain_dump "''secret''"]
  by (simp add: json_roundtrips_def plain_parse_def ack_msg_def)

text \<open>Nothing else creates a peer connection: in any run of events in which one is created, the
peer sent a verify message with exactly the controller's password or a successful verifyACK.\<close>
theorem connection_needs_message:
  assumes "ctl_run parse dump es c = (c', acts)" "Link PcNew \<in> set acts"
  shows "\<exists>t pc_ok dc_ok j. CevText t pc_ok dc_ok \<in> set es \<and> parse t = Some j \<and>
    (json_find j ''type'' = Some (JStr ''verify'') \<and> json_find j ''passwd'' = Some (JStr (password c)) \<or>
     json_find j ''type'' = Some (JStr ''verifyACK'') \<and> json_find j ''result'' = Some (JStr ''success''))"
  using assms
proof (induction es arbitrary: c acts)
  case (Cons e es)
  show ?case
  proof (cases "ctl_handle parse dump e c")
    case (Inl er)
    with Cons.prems have "ctl_run parse dump es c = (c', acts)"
      by (cases er) auto
    from Cons.IH [OF this Cons.prems(2)] show ?thesis by auto
  next
    case (Inr r)
    obtain c1 a1 where r: "r = (c1, a1)" by (cases r)
    obtain c2 a2 where run: "ctl_run parse dump es c1 = (c2, a2)"
      by (cases "ctl_run parse dump es c1")
    with Cons.prems Inr r have acts: "acts = a1 @ a2" "c' = c2" by auto
    show ?thesis
    proof (cases "Link PcNew \<in> set a1")
      case True
      from ctl_handle_creates [OF Inr [unfolded r] this] show ?thesis
        by (auto dest!: ctl_on_text_creates [OF _ True])
    next
      case False
      with Cons.prems acts have "Link PcNew \<in> set a2" by auto
      with Cons.IH run acts(2) ctl_handle_password [OF Inr [unfolded r]] show ?thesis
        by fastforce
    qed
  qed
qed simp

theorem connection_needs_message_witness:
  "\<exists>c' acts. ctl_run plain_parse plain_dump [CevText (plain_dump (verify_msg ''pw'')) True True] (server_end ''pw'') =
     (c', acts) \<and> (\<exists>t pc_ok dc_ok j. CevText t pc_ok dc_ok \<in>
        set [CevText (plain_dump (verify_msg ''pw'')) True True] \<and> plain_parse t = Some j)"
proof -
  let ?es = "[CevText (plain_dump (verify_msg ''pw'')) True True]"
  have "json_roundtrips plain_parse plain_dump (verify_msg ''pw'')"
    by (simp add: json_roundtrips_def plain_parse_def verify_msg_def)
  from ctl_on_text_dump [OF this]
  have "ctl_run plain_parse plain_dump ?es (server_end ''pw'') =
     ((server_end ''pw'')\<lparr>ct_p2p := (ct_p2p (server_end ''pw''))\<lparr>p2_pc := True\<rparr>\<rparr>,
      [Link PcNew, LoginSuccess, Link (WsSend (plain_dump (ack_msg True)))])" (is "_ = (?c, ?a)")
    by (simp add: client_open_sig server_answers del: plain_dump.simps)
  from this connection_needs_message [OF this] show ?thesis by auto
qed

text \<open>ICE candidates and session descriptions are relayed unchanged: what the peer connection of
one end reports, sent over the open WebSocket, reaches the peer connection of the other end with the
same candidate, mid and description.\<close>
theorem signaling_relays:
  assumes "sig_isOpen (ct_sig c)" "p2_signal_out (ct_p2p c)"
    and "sg_message (ct_sig d)" "p2_pc (ct_p2p d)"
    and "json_roundtrips parse dump (candidate_msg cand mid)"
    and "json_roundtrips parse dump (description_msg sdp)"
  shows "receive_texts parse dump (texts_of (ctl_on_candidate dump cand mid c)) d =
      Inr (d, [Link (PcAddCandidate cand mid)]) \<and>
    receive_texts parse dump (texts_of (ctl_on_description dump sdp c)) d =
      Inr (d, [Link (PcSetRemote sdp ''description'')])"
  using assms(1-4) ctl_on_text_dump [OF assms(5)] ctl_on_text_dump [OF assms(6)]
  by (simp add: ctl_on_candidate_def ctl_on_description_def pc_on_local_candidate_def
      pc_on_local_description_def sig_send_def ctl_on_json_def json_value_type handleSignalMessage_def
      candidate_msg_def description_msg_def)

theorem signaling_relays_witness:
  "receive_texts plain_parse plain_dump
      (texts_of (ctl_on_candidate plain_dump ''cand'' ''0'' (server_end ''pw'')))
      ((server_end ''pw'')\<lparr>ct_p2p := (ct_p2p (server_end ''pw''))\<lparr>p2_pc := True\<rparr>\<rparr>) =
    Inr ((server_end ''pw'')\<lparr>ct_p2p := (ct_p2p (server_end ''pw''))\<lparr>p2_pc := True\<rparr>\<rparr>,
      [Link (PcAddCandidate ''cand'' ''0'')])"
proof -
  let ?d = "(server_end ''pw'')\<lparr>ct_p2p := (ct_p2p (server_end ''pw''))\<lparr>p2_pc := True\<rparr>\<rparr>"
  have "json_roundtrips plain_parse plain_dump (candidate_msg ''cand'' ''0'')"
    "json_roundtrips plain_parse plain_dump (description_msg ''sdp'')"
    by (simp_all add: json_roundtrips_def plain_parse_def candidate_msg_def description_msg_def)
  moreover have "sig_isOpen (ct_sig (server_end ''pw''))" "p2_signal_out (ct_p2p (server_end ''pw''))"
    "sg_message (ct_sig ?d)" "p2_pc (ct_p2p ?d)"
    by (simp_all add: end_defs sig_isOpen_def)
  ultimately show ?thesis using signaling_relays by blast
qed

text \<open>A link that fails is reported closed twice: the failure reports \<open>Closed\<close> and disconnects the
WebSocket, whose own closing finds the link not connected and reports \<open>Closed\<close> again. While the
link is up, losing the WebSocket closes the peer connection and leaves the report to it.\<close>
theorem closed_reports:
  assumes "ct_state_cb c" "sg_closed (ct_sig c)"
  shows "filter (\<lambda>a. a = StateChange Closed) (snd (ctl_run parse dump [CevPcState PcFailed, CevClosed] c)) =
      [StateChange Closed, StateChange Closed] \<and>
    (p2p_connected c \<longrightarrow>
      filter (\<lambda>a. a = StateChange Closed) (snd (ctl_run parse dump [CevClosed, CevPcState PcClosed] c)) =
        [StateChange Closed])"
  using assms
  by (simp add: ctl_on_pc_state_def ctl_on_ws_closed_def sig_on_closed_def P2PClient_close_def
      ctl_disconnect_def sig_disconnect_def report_def split: option.splits)

theorem closed_reports_witness:
  "filter (\<lambda>a. a = StateChange Closed)
     (snd (ctl_run plain_parse plain_dump [CevPcState PcFailed, CevClosed] (server_end ''pw''))) =
   [StateChange Closed, StateChange Closed]"
  using closed_reports [of "server_end ''pw''" plain_parse plain_dump] by (simp add: end_defs)

end
