(* ===== verification/ClientUdpSession.thy ===== *)
theory ClientUdpSession
  imports SessionMux UdpSocket
begin

text \<open>
  \<open>Src/client/include/udp_session.h\<close> and \<open>Src/client/src/udp_session.cpp\<close>: the client's end of a
  SOCKS5 UDP association. Datagrams of the local application, in the SOCKS5 UDP request format, become
  DATA frames for the peer, and the peer's data becomes datagrams for the application. The calls of
  the UDP socket are events of \<open>UdpSocket\<close>'s step relation; the frames go out through the multiplexer.
\<close>

subsection \<open>State and handlers\<close>

text \<open>\<open>remote_port_\<close> is not initialised: its first value is an argument of the constructor.\<close>

record client_udp =
  cu_socket :: bool
  client_known :: bool
  remote_ip :: string
  remote_port :: u16
  cu_session_id :: u32

datatype cu_action =
    CuSockStart u16
  | CuSock udp_event
  | CuToPeer u32 bytes

type_synonym cu_result = "(client_udp \<times> cu_action list) cpp"

definition UdpSession_new :: "u32 \<Rightarrow> u16 \<Rightarrow> client_udp" where
  "UdpSession_new sid garbage =
     \<lparr>cu_socket = True, client_known = False, remote_ip = [], remote_port = garbage, cu_session_id = sid\<rparr>"

definition frame_out :: "(u32 \<times> bytes) option \<Rightarrow> cu_action list" where
  "frame_out r = (case r of None \<Rightarrow> [] | Some (conn, f) \<Rightarrow> [CuToPeer conn f])"

definition cu_close :: "client_udp \<Rightarrow> cu_action list" where
  "cu_close u = (if cu_socket u then [CuSock UevClose] else [])"

text \<open>
  \<open>getLocalPort\<close> reads the socket now: \<open>now\<close> is its port, \<open>None\<close> while it is not open. \<open>start\<close> only
  posts the opening of the socket before it reads the port for a debug line, which is evaluated when
  debug lines are logged (\<open>dbg\<close>).
\<close>

definition cu_getLocalPort :: "u16 option \<Rightarrow> client_udp \<Rightarrow> u16 cpp" where
  "cu_getLocalPort now u =
     (if \<not> cu_socket u then Inl NullDeref
      else case now of None \<Rightarrow> Inl SystemError | Some p \<Rightarrow> Inr p)"

definition cu_start :: "bool \<Rightarrow> u16 option \<Rightarrow> client_udp \<Rightarrow> (bool \<times> client_udp \<times> cu_action list) cpp" where
  "cu_start dbg now u =
     (if \<not> cu_socket u then Inl NullDeref
      else if dbg then cbind (cu_getLocalPort now u) (\<lambda>_. Inr (True, u, [CuSockStart 0]))
      else Inr (True, u, [CuSockStart 0]))"

definition send_ipv4 :: "'c session_mux \<Rightarrow> bytes \<Rightarrow> nat \<Rightarrow> client_udp \<Rightarrow> cu_action list cpp" where
  "send_ipv4 x d n u =
     (if n < 10 then Inr []
      else cbind (rd_range d 4 6) (\<lambda>a.
        let host = ipv4_text (a ! 0) (a ! 1) (a ! 2) (a ! 3); port = port_of_bytes (a ! 4) (a ! 5) in
        cbind (encode_udp_payload host port (drop 10 d) (n - 10)) (\<lambda>pl.
        cbind (send_data x (cu_session_id u) pl (length pl) UdpAssociate) (\<lambda>r. Inr (frame_out r)))))"

definition send_domain :: "'c session_mux \<Rightarrow> bytes \<Rightarrow> nat \<Rightarrow> client_udp \<Rightarrow> cu_action list cpp" where
  "send_domain x d n u =
     (if n < 5 then Inr []
      else cbind (rd d 4) (\<lambda>l. let len = unat l in
        if 5 + len + 2 > n then Inr []
        else cbind (rd_range d 5 len) (\<lambda>host.
          cbind (rd d (6 + len)) (\<lambda>hi. cbind (rd d (7 + len)) (\<lambda>lo.
          cbind (encode_udp_payload (string_of_bytes host) (port_of_bytes hi lo)
                   (drop (8 + len) d) (size_sub n (8 + len))) (\<lambda>pl.
          cbind (send_data x (cu_session_id u) pl (length pl) UdpAssociate) (\<lambda>r.
          Inr (frame_out r))))))))"

definition send_p2p_data :: "'c session_mux \<Rightarrow> bytes \<Rightarrow> nat \<Rightarrow> client_udp \<Rightarrow> cu_action list cpp" where
  "send_p2p_data x d n u =
     cbind (rd d 3) (\<lambda>atyp.
       if atyp = 0x01 then send_ipv4 x d n u
       else if atyp = 0x03 then send_domain x d n u
       else Inr [])"

text \<open>The socket's data callback: \<open>d\<close> is its receive buffer, \<open>n\<close> what was received.\<close>

definition cu_on_data ::
  "'c session_mux \<Rightarrow> string \<Rightarrow> u16 \<Rightarrow> bytes \<Rightarrow> nat \<Rightarrow> client_udp \<Rightarrow> cu_result" where
  "cu_on_data x host port d n u =
     (if \<not> client_known u then
        let u1 = u\<lparr>remote_ip := host, remote_port := port, client_known := True\<rparr> in
        cbind (send_p2p_data x d n u1) (\<lambda>a. Inr (u1, a))
      else if host \<noteq> remote_ip u then Inr (u\<lparr>remote_ip := host\<rparr>, [])
      else
        let u1 = (if port \<noteq> remote_port u then u\<lparr>remote_port := port\<rparr> else u) in
        cbind (send_p2p_data x d n u1) (\<lambda>a. Inr (u1, a)))"

definition cu_on_open :: "'c session_mux \<Rightarrow> bool \<Rightarrow> client_udp \<Rightarrow> cu_action list" where
  "cu_on_open x success u = frame_out (send_synack x (cu_session_id u) success UdpAssociate)"

definition cu_on_write_queue :: "'c session_mux \<Rightarrow> write_queue_status \<Rightarrow> client_udp \<Rightarrow> cu_action list" where
  "cu_on_write_queue x q u =
     frame_out (send_data_ctrl x (cu_session_id u)
       (if q = Danger then CtrlPause else CtrlReceive) UdpAssociate)"

definition cu_on_close :: "client_udp \<Rightarrow> client_udp" where
  "cu_on_close u = u\<lparr>cu_socket := False\<rparr>"

text \<open>\<open>v4\<close> is \<open>asio::ip::make_address_v4\<close>: the four bytes of an address, \<open>None\<close> when it throws.\<close>

definition udp_reply :: "bytes \<Rightarrow> u16 \<Rightarrow> bytes \<Rightarrow> bytes" where
  "udp_reply addr port data =
     [0, 0, 0, 1] @ addr @ [ucast (drop_bit 8 port), ucast (port AND 0xFF)] @ data"

definition cu_revP2pData ::
  "(string \<Rightarrow> bytes option) \<Rightarrow> bytes \<Rightarrow> nat \<Rightarrow> client_udp \<Rightarrow> cu_action list cpp" where
  "cu_revP2pData v4 d n u =
     cbind (decode_udp_payload d n) (\<lambda>r. case r of None \<Rightarrow> Inr []
       | Some (host, port, data) \<Rightarrow>
         (case v4 host of None \<Rightarrow> Inl SystemError
          | Some addr \<Rightarrow>
            if \<not> cu_socket u then Inl NullDeref
            else Inr [CuSock (UevSend \<lparr>target_host = remote_ip u, target_port = remote_port u,
                        send_bytes = udp_reply addr port data\<rparr>)]))"

definition cu_p2p_data_ctrl :: "ctrl_type \<Rightarrow> client_udp \<Rightarrow> cu_action list cpp" where
  "cu_p2p_data_ctrl ctrl u =
     (case ctrl of
        CtrlPause \<Rightarrow> if cu_socket u then Inr [CuSock UevStopReading] else Inl NullDeref
      | CtrlReceive \<Rightarrow> if cu_socket u then Inr [CuSock UevStartReading] else Inl NullDeref
      | CtrlOther _ \<Rightarrow> Inr [])"

text \<open>What the UDP socket reports, through the callbacks \<open>start\<close> sets on it.\<close>

datatype udp_report =
    UdpGot string u16 bytes nat
  | UdpOpened bool
  | UdpQueue write_queue_status
  | UdpClosed

fun cu_handle :: "udp_report \<Rightarrow> 'c session_mux \<Rightarrow> client_udp \<Rightarrow> cu_result" where
  "cu_handle (UdpGot host port d n) x u = cu_on_data x host port d n u"
| "cu_handle (UdpOpened ok) x u = Inr (u, cu_on_open x ok u)"
| "cu_handle (UdpQueue q) x u = Inr (u, cu_on_write_queue x q u)"
| "cu_handle UdpClosed x u = Inr (cu_on_close u, [])"

subsection \<open>The SOCKS5 UDP request header\<close>

text \<open>The datagram a SOCKS5 client sends for a target, RFC 1928: the header, then the data.\<close>

definition socks_udp_ipv4 :: "u8 \<Rightarrow> u8 \<Rightarrow> u8 \<Rightarrow> u8 \<Rightarrow> u16 \<Rightarrow> bytes \<Rightarrow> bytes" where
  "socks_udp_ipv4 a b c e port data =
     [0, 0, 0, 1, a, b, c, e, ucast (drop_bit 8 port), ucast (port AND 0xFF)] @ data"

definition socks_udp_domain :: "string \<Rightarrow> u16 \<Rightarrow> bytes \<Rightarrow> bytes" where
  "socks_udp_domain host port data =
     [0, 0, 0, 3, word_of_nat (length host)] @ bytes_of_string host @
     [ucast (drop_bit 8 port), ucast (port AND 0xFF)] @ data"

lemma send_data_all: "send_data x sid pl (length pl) p = Inr (mux_send x (make_frame sid DATA p pl))"
  by (simp add: send_data_def)

lemma send_ipv4_eq:
  assumes "length data < 2 ^ 32"
  obtains pl where
    "encode_udp_payload (ipv4_text a b c e) port data (length data) = Inr pl"
    "send_p2p_data x (socks_udp_ipv4 a b c e port data @ rest) (10 + length data) u =
       Inr (frame_out (mux_send x (make_frame (cu_session_id u) DATA UdpAssociate pl)))"
proof -
  obtain pl where pl: "encode_udp_payload (ipv4_text a b c e) port data (length data) = Inr pl"
    using encode_udp_payload_ok by blast
  let ?d = "socks_udp_ipv4 a b c e port data @ rest"
  have at: "rd ?d 3 = Inr 1" by (simp add: socks_udp_ipv4_def rd_def)
  have rng: "rd_range ?d 4 6 = Inr [a, b, c, e, ucast (drop_bit 8 port), ucast (port AND 0xFF)]"
    by (simp add: socks_udp_ipv4_def rd_range_def numeral_eq_Suc)
  have body: "rd_range (drop 10 ?d) 0 (length data) = rd_range data 0 (length data)"
    by (simp add: socks_udp_ipv4_def rd_range_def)
  have "encode_udp_payload (ipv4_text a b c e) port (drop 10 ?d) (length data) = Inr pl"
    using pl unfolding encode_udp_payload_def body .
  then have "send_p2p_data x ?d (10 + length data) u =
       Inr (frame_out (mux_send x (make_frame (cu_session_id u) DATA UdpAssociate pl)))"
    by (simp add: send_p2p_data_def at send_ipv4_def rng send_data_all Let_def)
  with pl show ?thesis by (rule that)
qed

lemma udp_payload_decodes:
  assumes "length host < 256" "length data < 2 ^ 32"
    and "encode_udp_payload host port data (length data) = Inr pl"
  shows "decode_udp_payload pl (length pl) = Inr (Some (host, port, data))"
  using decode_encode_udp_payload_eq [OF assms, of "[]"] by simp

text \<open>The domain form: the header's fields, as the code reads them.\<close>

lemma domain_reads:
  assumes "length host < 256" "d = socks_udp_domain host port data @ rest"
  shows "rd d 3 = Inr 3" "rd d 4 = Inr (word_of_nat (length host))"
    "rd_range d 5 (length host) = Inr (bytes_of_string host)"
    "rd d (6 + length host) = Inr (ucast (port AND 0xFF))"
    "drop (8 + length host) d = drop 1 (data @ rest)"
    "rd d (7 + length host) = rd (data @ rest) 0"
proof -
  let ?h = "[0, 0, 0, 3, word_of_nat (length host)] @ bytes_of_string host @
      [ucast (drop_bit 8 port), ucast (port AND 0xFF)]"
  have d: "d = ?h @ data @ rest" and l: "length ?h = 7 + length host"
    by (simp_all add: assms(2) socks_udp_domain_def)
  show "drop (8 + length host) d = drop 1 (data @ rest)"
    unfolding d by (simp only: drop_append [of _ ?h] l) simp
  show "rd d (7 + length host) = rd (data @ rest) 0"
    unfolding d by (simp only: rd_def nth_append [of ?h] length_append [of ?h] l) simp
qed (simp_all add: assms(2) socks_udp_domain_def rd_def rd_range_def nth_append)

lemma unat_len_byte: "n < 256 \<Longrightarrow> unat (word_of_nat n :: u8) = n"
  by (simp add: unat_of_nat take_bit_nat_eq_self)

subsection \<open>Properties\<close>

text \<open>C28: A datagram for an IPv4 target is relayed: from a SOCKS5 UDP request with an IPv4 address, in
a receive buffer with anything behind it, the session sends one DATA frame on its stream id whose
payload decodes to the dotted address, the port and the data.\<close>
theorem udp_ipv4_relayed:
  assumes "length data < 2 ^ 32" "send_func_set x"
  shows "\<exists>f. send_p2p_data x (socks_udp_ipv4 a b c e port data @ rest) (10 + length data) u =
      Inr [CuToPeer (peer_conn_id x) f] \<and>
    FrameHeader_decode f (length f) =
      Inr (Some \<lparr>fh_stream_id = cu_session_id u, fh_type = DATA, fh_protocol = UdpAssociate\<rparr>) \<and>
    decode_udp_payload (drop kSize f) (length f - kSize) = Inr (Some (ipv4_text a b c e, port, data))"
proof -
  obtain pl where pl: "encode_udp_payload (ipv4_text a b c e) port data (length data) = Inr pl"
    and sent: "send_p2p_data x (socks_udp_ipv4 a b c e port data @ rest) (10 + length data) u =
       Inr (frame_out (mux_send x (make_frame (cu_session_id u) DATA UdpAssociate pl)))"
    by (rule send_ipv4_eq [OF assms(1)])
  have "length (ipv4_text a b c e) < 256" using length_ipv4_text [of a b c e] by simp
  note dec = udp_payload_decodes [OF this assms(1) pl]
  have "wf_frame_type DATA" "wf_protocol UdpAssociate"
    by simp_all
  note fr = FrameHeader_decode_make_frame [OF this]
  show ?thesis
    using sent dec fr assms(2) by (auto simp: mux_send_def frame_out_def)
qed

theorem udp_ipv4_relayed_witness:
  "\<exists>f. send_p2p_data (set_send_func (SessionMux_new 9 :: nat session_mux))
       (socks_udp_ipv4 8 8 4 4 53 [1, 2] @ [0, 0]) (10 + length [1, 2 :: u8]) (UdpSession_new 7 0) =
      Inr [CuToPeer 9 f] \<and>
    decode_udp_payload (drop kSize f) (length f - kSize) = Inr (Some (ipv4_text 8 8 4 4, 53, [1, 2]))"
proof -
  let ?x = "set_send_func (SessionMux_new 9 :: nat session_mux)"
  have "length [1, 2 :: u8] < 2 ^ 32" "send_func_set ?x" by (simp_all add: set_send_func_def)
  from udp_ipv4_relayed [OF this, of 8 8 4 4 53 "[0, 0]" "UdpSession_new 7 0"] show ?thesis
    by (auto simp: set_send_func_def SessionMux_new_def)
qed

text \<open>A datagram for a domain target is sent to the wrong port: the port is read one byte too far,
so its high byte is the port's low byte, its low byte the first byte of the data, and the data is
relayed without that byte; a datagram with no data runs off the receive buffer.\<close>
theorem udp_domain_off_by_one:
  assumes "length host < 256" "send_func_set x" "length data < 2 ^ 31" "length rest < 2 ^ 32"
  shows "(\<exists>f. send_p2p_data x (socks_udp_domain host port (b # data) @ rest)
        (8 + length host + length data) u = Inr [CuToPeer (peer_conn_id x) f] \<and>
      decode_udp_payload (drop kSize f) (length f - kSize) =
        Inr (Some (host, port_of_bytes (ucast (port AND 0xFF)) b, data))) \<and>
    send_p2p_data x (socks_udp_domain host port [] @ rest) (7 + length host) u = Inl OutOfBounds"
proof
  let ?d = "socks_udp_domain host port (b # data) @ rest"
  note len = unat_len_byte [OF assms(1)]
  have ld: "length data < 2 ^ 32" using assms(3) by simp
  obtain pl where pl: "encode_udp_payload host (port_of_bytes (ucast (port AND 0xFF)) b) data (length data) = Inr pl"
    using encode_udp_payload_ok by blast
  have "encode_udp_payload host (port_of_bytes (ucast (port AND 0xFF)) b) (data @ rest) (length data) = Inr pl"
    using pl by (simp add: encode_udp_payload_def rd_range_def)
  then have sent: "send_p2p_data x ?d (8 + length host + length data) u =
       Inr (frame_out (mux_send x (make_frame (cu_session_id u) DATA UdpAssociate pl)))"
    using domain_reads [OF assms(1) refl, of port "b # data" rest]
    by (simp add: send_p2p_data_def send_domain_def len send_data_all rd_def [of "b # _"])
  have "wf_frame_type DATA" "wf_protocol UdpAssociate"
    by simp_all
  note fr = FrameHeader_decode_make_frame [OF this]
  show "\<exists>f. send_p2p_data x ?d (8 + length host + length data) u = Inr [CuToPeer (peer_conn_id x) f] \<and>
      decode_udp_payload (drop kSize f) (length f - kSize) =
        Inr (Some (host, port_of_bytes (ucast (port AND 0xFF)) b, data))"
    using sent udp_payload_decodes [OF assms(1) ld pl] fr assms(2)
    by (auto simp: mux_send_def frame_out_def)
next
  let ?d = "socks_udp_domain host port [] @ rest"
  note len = unat_len_byte [OF assms(1)]
  have big: "size_sub (7 + length host) (8 + length host) = 2 ^ 64 - 1"
    by (simp add: size_sub_def)
  have "rd_range (drop 1 rest) 0 (2 ^ 64 - 1) = Inl OutOfBounds"
    using assms(4) by (simp add: rd_range_def)
  then have "encode_udp_payload h p (drop 1 rest) (2 ^ 64 - 1) = Inl OutOfBounds" for h p
    by (simp add: encode_udp_payload_def)
  then show "send_p2p_data x ?d (7 + length host) u = Inl OutOfBounds"
    using domain_reads [OF assms(1) refl, of port "[]" rest] big
    by (simp add: send_p2p_data_def send_domain_def len rd_def [of rest])
qed

theorem udp_domain_off_by_one_witness:
  "\<exists>f. send_p2p_data (set_send_func (SessionMux_new 9 :: nat session_mux))
       (socks_udp_domain ''a.b'' 53 (7 # [8]) @ []) (8 + length ''a.b'' + length [8 :: u8]) (UdpSession_new 7 0) =
      Inr [CuToPeer 9 f] \<and>
    decode_udp_payload (drop kSize f) (length f - kSize) =
      Inr (Some (''a.b'', port_of_bytes (ucast ((53 :: u16) AND 0xFF)) 7, [8]))"
proof -
  let ?x = "set_send_func (SessionMux_new 9 :: nat session_mux)"
  have "length ''a.b'' < 256" "send_func_set ?x" "length [8 :: u8] < 2 ^ 31" "length ([] :: u8 list) < 2 ^ 32"
    by (simp_all add: set_send_func_def)
  from udp_domain_off_by_one [OF this, of 53 7 "UdpSession_new 7 0"] show ?thesis
    by (auto simp: set_send_func_def SessionMux_new_def)
qed

text \<open>The reply from a target comes back to the application behind the SOCKS5 UDP header of its
source: the peer's payload for an IPv4 source becomes one datagram to the recorded endpoint, in the
same format as a request. A payload that does not decode is dropped; a source that is not an IPv4
address throws.\<close>
theorem udp_reply_delivered:
  assumes "encode_udp_payload (ipv4_text a b c e) port data (length data) = Inr pl"
    and "length data < 2 ^ 32" "v4 (ipv4_text a b c e) = Some [a, b, c, e]" "cu_socket u"
  shows "cu_revP2pData v4 pl (length pl) u =
      Inr [CuSock (UevSend \<lparr>target_host = remote_ip u, target_port = remote_port u,
        send_bytes = socks_udp_ipv4 a b c e port data\<rparr>)] \<and>
    (\<forall>d n. decode_udp_payload d n = Inr None \<longrightarrow> cu_revP2pData v4 d n u = Inr [])"
proof -
  have "length (ipv4_text a b c e) < 256" using length_ipv4_text [of a b c e] by simp
  from udp_payload_decodes [OF this assms(2,1)] assms(3,4) show ?thesis
    by (simp add: cu_revP2pData_def udp_reply_def socks_udp_ipv4_def)
qed

theorem udp_reply_delivered_witness:
  "\<exists>pl. encode_udp_payload (ipv4_text 8 8 4 4) 53 [5] (length [5 :: u8]) = Inr pl \<and>
    cu_revP2pData (\<lambda>h. if h = ipv4_text 8 8 4 4 then Some [8, 8, 4, 4] else None) pl (length pl)
      (UdpSession_new 7 0) =
    Inr [CuSock (UevSend \<lparr>target_host = [], target_port = 0, send_bytes = socks_udp_ipv4 8 8 4 4 53 [5]\<rparr>)]"
proof -
  obtain pl where pl: "encode_udp_payload (ipv4_text 8 8 4 4) 53 [5] (length [5 :: u8]) = Inr pl"
    using encode_udp_payload_ok by blast
  have "length [5 :: u8] < 2 ^ 32" by simp
  from udp_reply_delivered [OF pl this, of "\<lambda>h. if h = ipv4_text 8 8 4 4 then Some [8, 8, 4, 4] else None"
      "UdpSession_new 7 0"] pl
  show ?thesis by (simp add: UdpSession_new_def)
qed

text \<open>The source check does not hold: a datagram from an address other than the recorded one is
dropped, but its address is recorded, so a second datagram from it is relayed and the replies go
to it.\<close>
theorem udp_source_check_bypassed:
  assumes "client_known u" "host \<noteq> remote_ip u" "length data < 2 ^ 32" "send_func_set x"
    and "d = socks_udp_ipv4 a b c e port data @ rest" "n = 10 + length data"
  shows "\<exists>u1 u2 f. cu_on_data x host p d n u = Inr (u1, []) \<and>
    cu_on_data x host p d n u1 = Inr (u2, [CuToPeer (peer_conn_id x) f]) \<and>
    remote_ip u2 = host \<and> remote_port u2 = p"
proof -
  let ?u1 = "u\<lparr>remote_ip := host\<rparr>"
  let ?u2 = "if p \<noteq> remote_port ?u1 then ?u1\<lparr>remote_port := p\<rparr> else ?u1"
  obtain pl where "send_p2p_data x d n ?u2 =
       Inr (frame_out (mux_send x (make_frame (cu_session_id ?u2) DATA UdpAssociate pl)))"
    unfolding assms(5,6) by (rule send_ipv4_eq [OF assms(3)])
  then have "cu_on_data x host p d n ?u1 =
      Inr (?u2, [CuToPeer (peer_conn_id x) (make_frame (cu_session_id ?u2) DATA UdpAssociate pl)])"
    using assms(1,4) by (simp add: cu_on_data_def mux_send_def frame_out_def Let_def)
  moreover have "cu_on_data x host p d n u = Inr (?u1, [])"
    using assms(1,2) by (simp add: cu_on_data_def)
  moreover have "remote_ip ?u2 = host" "remote_port ?u2 = p" by auto
  ultimately show ?thesis by blast
qed

theorem udp_source_check_bypassed_witness:
  "\<exists>u1 u2 f. cu_on_data (set_send_func (SessionMux_new 9 :: nat session_mux)) ''6.6.6.6'' 1
       (socks_udp_ipv4 8 8 4 4 53 [5] @ []) (10 + length [5 :: u8])
       ((UdpSession_new 7 0)\<lparr>client_known := True, remote_ip := ''127.0.0.1''\<rparr>) = Inr (u1, []) \<and>
     cu_on_data (set_send_func (SessionMux_new 9 :: nat session_mux)) ''6.6.6.6'' 1
       (socks_udp_ipv4 8 8 4 4 53 [5] @ []) (10 + length [5 :: u8]) u1 = Inr (u2, [CuToPeer 9 f]) \<and>
     remote_ip u2 = ''6.6.6.6''"
proof -
  let ?x = "set_send_func (SessionMux_new 9 :: nat session_mux)"
  let ?u = "(UdpSession_new 7 0)\<lparr>client_known := True, remote_ip := ''127.0.0.1''\<rparr>"
  have "client_known ?u" "''6.6.6.6'' \<noteq> remote_ip ?u" "length [5 :: u8] < 2 ^ 32" "send_func_set ?x"
    by (simp_all add: set_send_func_def)
  from udp_source_check_bypassed [OF this refl refl, where a = 8 and b = 8 and c = 4 and e = 4
      and port = 53 and rest = "[]" and p = 1] show ?thesis
    by (auto simp: set_send_func_def SessionMux_new_def)
qed

end
