(* ===== verification/ClientSession.thy ===== *)
theory ClientSession
  imports SessionMux TcpSocket HttpRelay ClientUdpSession
begin

text \<open>
  \<open>Src/client/include/tcp_session.h\<close> and \<open>Src/client/src/tcp_session.cpp\<close>: the session the client keeps
  for every local connection. It recognises SOCKS5 or HTTP, asks the peer for a connection to the
  target, and then forwards. A handler runs on the session together with the multiplexer it shares
  with the other sessions, and returns the calls it makes of its TCP socket (events of \<open>TcpSocket\<close>),
  of its UDP session, of the peer and of the server that owns it.

  The bytes of a read are the whole receive buffer (8192 bytes) and the number received: the handlers
  look at fixed offsets whatever was received.
\<close>

subsection \<open>State\<close>

text \<open>
  \<open>cs_tcp\<close>: there is a TCP socket; \<open>cs_sess\<close>: the multiplexer's session object. A callback in the
  multiplexer captures the session, so \<open>'c\<close> there is the session's id.
\<close>

record 'l client_session =
  cs_tcp :: bool
  cs_session_id :: u32
  cs_target_host :: string
  cs_target_port :: u16
  cs_sess :: "sess_ptr option"
  cs_udp :: "client_udp option"
  cs_on_close :: bool
  http_response_parser :: "'l http_parser"
  http_request_parser :: "'l http_parser"
  pending_buf :: "bytes list"
  cs_phase :: phase
  cs_protocol :: protocol
  cs_is_closed :: bool
  is_p2p_closed :: bool

text \<open>The session, the shared multiplexer, and the numbers its random generator will draw.\<close>

record 'l client_world =
  cs :: "'l client_session"
  mux :: "u32 session_mux"
  draws :: "u32 list"

datatype cs_action =
    CsTcp tcp_event
  | CsUdp cu_action
  | CsToPeer u32 bytes
  | CsClosed u32

type_synonym 'l cs_handler = "('l client_world, cs_action) handler"

definition Socks5Session_new :: "'l llhttp \<Rightarrow> u32 \<Rightarrow> 'l client_session" where
  "Socks5Session_new ll sid =
     \<lparr>cs_tcp = True, cs_session_id = sid, cs_target_host = [], cs_target_port = 0, cs_sess = None,
      cs_udp = None, cs_on_close = False,
      http_response_parser = set_on_message_complete (set_on_error (set_on_body
        (set_on_headers_complete (HttpParser_new ll Response)))),
      http_request_parser = set_on_error (set_on_headers_complete (HttpParser_new ll Request)),
      pending_buf = [], cs_phase = WaitGreetingVersion, cs_protocol = Unknown,
      cs_is_closed = False, is_p2p_closed = False\<rparr>"

text \<open>The accepted socket with the callbacks \<open>start\<close> sets on it.\<close>

definition cs_socket :: "bool \<Rightarrow> tcp_socket" where
  "cs_socket ok = setWriteQueueCallback (setDataCallback (setCloseCallback (TcpSocket_from ok)))"

definition cs_upd :: "('l client_session \<Rightarrow> 'l client_session) \<Rightarrow> 'l client_world \<Rightarrow> 'l client_world" where
  "cs_upd f w = w\<lparr>cs := f (cs w)\<rparr>"

lemma cs_upd_fields [simp]:
  "cs (cs_upd f w) = f (cs w)" "mux (cs_upd f w) = mux w" "draws (cs_upd f w) = draws w"
  by (simp_all add: cs_upd_def)

text \<open>A call through \<open>tcp_socket_\<close>.\<close>

definition on_socket :: "tcp_event \<Rightarrow> 'l cs_handler" where
  "on_socket e w = (if cs_tcp (cs w) then emit [CsTcp e] w else Inl NullDeref)"

definition sock_send :: "bytes \<Rightarrow> 'l cs_handler" where
  "sock_send b = on_socket (EvSend b)"

definition sock_send_n :: "bytes \<Rightarrow> nat \<Rightarrow> 'l cs_handler" where
  "sock_send_n d n w = cbind (rd_range d 0 n) (\<lambda>b. sock_send b w)"

definition peer_frame :: "(u32 \<times> bytes) option \<Rightarrow> cs_action list" where
  "peer_frame r = (case r of None \<Rightarrow> [] | Some (conn, f) \<Rightarrow> [CsToPeer conn f])"

text \<open>\<open>session_->stream_id()\<close>.\<close>

definition stream_id :: "'l client_world \<Rightarrow> u32 cpp" where
  "stream_id w =
     (case cs_sess (cs w) of None \<Rightarrow> Inl NullDeref
      | Some p \<Rightarrow> (case store (manager (mux w)) p of None \<Rightarrow> Inl NullDeref
         | Some s \<Rightarrow> Inr (sess_stream_id s)))"

lemma stream_id_upd: "(\<And>s. cs_sess (f s) = cs_sess s) \<Longrightarrow> stream_id (cs_upd f w) = stream_id w"
  unfolding stream_id_def cs_upd_fields by simp

definition peer_data :: "bytes \<Rightarrow> nat \<Rightarrow> 'l cs_handler" where
  "peer_data d n w =
     cbind (stream_id w) (\<lambda>sid.
     cbind (send_data (mux w) sid d n (cs_protocol (cs w))) (\<lambda>r. emit (peer_frame r) w))"

subsection \<open>Replies\<close>

definition send_socks_reply :: "u8 \<Rightarrow> 'l cs_handler" where
  "send_socks_reply rep_code = sock_send [0x05, rep_code, 0x00, 0x01, 0, 0, 0, 0, 0, 0]"

text \<open>\<open>v4\<close> is \<open>asio::ip::make_address_v4\<close>.\<close>

definition send_udp_reply :: "(string \<Rightarrow> bytes option) \<Rightarrow> string \<Rightarrow> u16 \<Rightarrow> 'l cs_handler" where
  "send_udp_reply v4 host port w =
     (case v4 host of None \<Rightarrow> Inl SystemError
      | Some addr \<Rightarrow>
        sock_send ([0x05, 0x00, 0x00, 0x01] @ addr @ [ucast (drop_bit 8 port), ucast (port AND 0xFF)]) w)"

definition http_ok_reply :: string where
  "http_ok_reply = ''HTTP/1.1 200 Connection Established'' @ crlf @ crlf"

definition http_fail_reply :: string where
  "http_fail_reply = ''HTTP/1.1 502 Bad Gateway'' @ crlf @ crlf"

definition http_connected :: "bool \<Rightarrow> 'l cs_handler" where
  "http_connected ok =
     (if ok then
        (\<lambda>w. andThen (for_each (\<lambda>buf. peer_data buf (length buf)) (pending_buf (cs w)))
               (modify (cs_upd (\<lambda>s. s\<lparr>pending_buf := []\<rparr>))) w)
      else sock_send (bytes_of_string http_fail_reply))"

definition https_connected :: "bool \<Rightarrow> 'l cs_handler" where
  "https_connected ok =
     sock_send (bytes_of_string (if ok then http_ok_reply else http_fail_reply))"

text \<open>
  What the system answers when a UDP association is made: the address functions, the local address
  it chooses, whether debug lines are logged, and the UDP socket's port when \<open>start\<close> logs it and when
  the reply is made (\<open>None\<close> while the socket is not open yet).
\<close>

record udp_env =
  ue_v4 :: "string \<Rightarrow> bytes option"
  ue_local_ip :: string
  ue_debug :: bool
  ue_port_at_start :: "u16 option"
  ue_port_at_reply :: "u16 option"
  ue_garbage :: u16

definition udp_connected :: "udp_env \<Rightarrow> bool \<Rightarrow> 'l cs_handler" where
  "udp_connected ue ok w =
     (if \<not> ok then send_socks_reply 0x07 w
      else
        let reply = (\<lambda>w1. case cs_udp (cs w1) of None \<Rightarrow> Inl NullDeref
              | Some u \<Rightarrow> cbind (cu_getLocalPort (ue_port_at_reply ue) u) (\<lambda>port.
                  send_udp_reply (ue_v4 ue) (ue_local_ip ue) port w1))
        in (if cs_udp (cs w) = None then
              cbind (cu_start (ue_debug ue) (ue_port_at_start ue)
                      (UdpSession_new (cs_session_id (cs w)) (ue_garbage ue))) (\<lambda>(started, u, acts).
                let w1 = cs_upd (\<lambda>s. s\<lparr>cs_udp := Some u\<rparr>) w in
                andThen (emit (map CsUdp acts)) (if started then reply else send_socks_reply 0x01) w1)
            else reply w))"

subsection \<open>Asking the peer for a connection\<close>

text \<open>A new multiplexer session with this session behind its callbacks, and a SYN for the target.\<close>

definition request_remote_connect :: "'l cs_handler" where
  "request_remote_connect w =
     (case SessionMux_create_session (mux w) (draws w) of None \<Rightarrow> Inl NoReturn
      | Some (p, x1, ds) \<Rightarrow>
        let me = cs_session_id (cs w);
            x2 = x1\<lparr>manager := update_session p (set_on_close me)
                   (update_session p (set_on_synack me) (update_session p (set_on_data me) (manager x1)))\<rparr>;
            w1 = (cs_upd (\<lambda>s. s\<lparr>cs_sess := Some p\<rparr>) w)\<lparr>mux := x2, draws := ds\<rparr>
        in cbind (stream_id w1) (\<lambda>sid.
             andThen
               (emit (peer_frame (send_syn x2 sid (cs_target_host (cs w1)) (cs_target_port (cs w1))
                 (cs_protocol (cs w1)))))
               (modify (cs_upd (\<lambda>s. s\<lparr>cs_phase := Connecting\<rparr>))) w1))"

subsection \<open>The HTTP parsers' callbacks\<close>

text \<open>
  \<open>std::stoi\<close>: leading white space, an optional sign, decimal digits up to the first other character;
  it throws when there is no digit and when the value is not an \<open>int\<close>.
\<close>

definition stoi :: "string \<Rightarrow> int cpp" where
  "stoi s =
     (let t = dropWhile is_space s;
          neg = (t \<noteq> [] \<and> hd t = CHR ''-'');
          u = (if t \<noteq> [] \<and> (hd t = CHR ''-'' \<or> hd t = CHR ''+'') then tl t else t);
          ds = takeWhile is_digit u;
          n = int (radix_value 10 ds);
          v = (if neg then - n else n)
      in if ds = [] then Inl InvalidArgument
         else if v < - (2 ^ 31) \<or> 2 ^ 31 \<le> v then Inl OutOfRange
         else Inr v)"

text \<open>Host and port of a request: at the first colon, port 80 without one.\<close>

definition split_host_port :: "string \<Rightarrow> (string \<times> u16) cpp" where
  "split_host_port h =
     (case str_find h (CHR '':'') 0 of None \<Rightarrow> Inr (h, 80)
      | Some colon \<Rightarrow> cbind (stoi (drop (colon + 1) h)) (\<lambda>v. Inr (take colon h, word_of_int v)))"

definition on_request_headers :: "http_message \<Rightarrow> 'l cs_handler" where
  "on_request_headers msg w =
     (let h = (if m_method msg = ''CONNECT'' then target msg else get_header msg ''Host'') in
      cbind (split_host_port h) (\<lambda>(host, port).
        let w1 = cs_upd (\<lambda>s. s\<lparr>cs_target_host := host, cs_target_port := port\<rparr>) w in
        if host = [] then on_socket EvClose w1
        else
          andThen (modify (cs_upd (\<lambda>s. s\<lparr>cs_protocol :=
              (if m_method msg = ''CONNECT'' then HttpsConnect else HttpPlain)\<rparr>)))
            request_remote_connect w1))"

fun on_request_upcall :: "hp_upcall \<times> 'l http_parser \<Rightarrow> 'l cs_handler" where
  "on_request_upcall (UpHeadersComplete msg, p) = on_request_headers msg"
| "on_request_upcall (UpError code why, p) = on_socket EvClose"
| "on_request_upcall _ = skip"

fun on_response_upcall :: "hp_upcall \<times> 'l http_parser \<Rightarrow> 'l cs_handler" where
  "on_response_upcall (UpHeadersComplete msg, p) =
     sock_send (bytes_of_string (serialize_headers_only False None msg))"
| "on_response_upcall (UpBody d, p) =
     (if is_chunked p then sock_send (bytes_of_string (chunk d)) else sock_send (bytes_of_string d))"
| "on_response_upcall (UpError code why, p) = on_socket EvClose"
| "on_response_upcall (UpMessageComplete, p) =
     guarded (is_chunked p) (sock_send (bytes_of_string last_chunk))"
| "on_response_upcall (UpPausedUpgrade s, p) = skip"

definition feed_request :: "'l llhttp \<Rightarrow> string \<Rightarrow> 'l cs_handler" where
  "feed_request ll data w =
     (case feed ll data (http_request_parser (cs w)) of (_, ups, p) \<Rightarrow>
        for_each on_request_upcall ups (cs_upd (\<lambda>s. s\<lparr>http_request_parser := p\<rparr>) w))"

definition feed_response :: "'l llhttp \<Rightarrow> string \<Rightarrow> 'l cs_handler" where
  "feed_response ll data w =
     (case feed ll data (http_response_parser (cs w)) of (_, ups, p) \<Rightarrow>
        for_each on_response_upcall ups (cs_upd (\<lambda>s. s\<lparr>http_response_parser := p\<rparr>) w))"

subsection \<open>The SOCKS5 handlers\<close>

text \<open>
  Each looks at fixed offsets of the buffer \<open>d\<close>, of which \<open>len\<close> bytes were received now, and
  returns how many bytes the caller is to count as consumed.
\<close>

type_synonym 'l socks_handler = "'l client_world \<Rightarrow> (nat \<times> 'l client_world \<times> cs_action list) cpp"

definition returns :: "nat \<Rightarrow> 'l cs_handler \<Rightarrow> 'l socks_handler" where
  "returns k m w = cbind (m w) (\<lambda>(w1, a). Inr (k, w1, a))"

definition set_phase :: "phase \<Rightarrow> 'l cs_handler" where
  "set_phase ph = modify (cs_upd (\<lambda>s. s\<lparr>cs_phase := ph\<rparr>))"

definition handle_greeting_version :: "bytes \<Rightarrow> nat \<Rightarrow> 'l socks_handler" where
  "handle_greeting_version d len w =
     cbind (rd d 0) (\<lambda>v0.
       returns 2
         (if v0 = 0x05 then andThen (set_phase WaitSocksMethods) (sock_send [0x05, 0x00])
          else set_phase WaitHttpRequestHeaders) w)"

definition handle_socks_methods :: "bytes \<Rightarrow> nat \<Rightarrow> 'l socks_handler" where
  "handle_socks_methods d len w =
     cbind (rd d 1) (\<lambda>cmd.
       if cmd = 0x01 then
         returns 2 (modify (cs_upd (\<lambda>s. s\<lparr>cs_phase := WaitSocksTCP, cs_protocol := Socks5Connect\<rparr>))) w
       else if cmd = 0x03 then
         returns 2 (modify (cs_upd (\<lambda>s. s\<lparr>cs_phase := WaitSocksUDP, cs_protocol := UdpAssociate\<rparr>))) w
       else returns 1 (andThen (set_phase Closed) (send_socks_reply 0x07)) w)"

definition handle_socks_tcp_udp :: "bytes \<Rightarrow> nat \<Rightarrow> 'l socks_handler" where
  "handle_socks_tcp_udp d len w =
     cbind (rd d 3) (\<lambda>atyp.
       returns 2
         (if atyp = 0x01 then set_phase WaitSocksIpv4
          else if atyp = 0x03 then set_phase WaitSocksDomain
          else andThen (send_socks_reply 0x08) (set_phase Closed)) w)"

definition handle_socks_ipv4 :: "bytes \<Rightarrow> nat \<Rightarrow> 'l socks_handler" where
  "handle_socks_ipv4 d len w =
     cbind (rd_range d 4 6) (\<lambda>a.
       returns 6
         (andThen (modify (cs_upd (\<lambda>s. s\<lparr>cs_target_host := ipv4_text (a ! 0) (a ! 1) (a ! 2) (a ! 3),
              cs_target_port := port_of_bytes (a ! 4) (a ! 5)\<rparr>)))
            request_remote_connect) w)"

definition handle_socks_domain :: "bytes \<Rightarrow> nat \<Rightarrow> 'l socks_handler" where
  "handle_socks_domain d len w =
     cbind (rd d 4) (\<lambda>l. let domain_len = unat l in
     cbind (rd_range d 5 domain_len) (\<lambda>host.
     cbind (rd d (domain_len + 5)) (\<lambda>hi. cbind (rd d (domain_len + 6)) (\<lambda>lo.
       returns (3 + domain_len)
         (andThen (modify (cs_upd (\<lambda>s. s\<lparr>cs_target_host := string_of_bytes host,
              cs_target_port := port_of_bytes hi lo\<rparr>)))
            request_remote_connect) w))))"

text \<open>The \<open>switch\<close> of the loop; \<open>None\<close> for its default, which leaves the function.\<close>

fun socks_step :: "phase \<Rightarrow> bytes \<Rightarrow> nat \<Rightarrow> 'l socks_handler option" where
  "socks_step WaitGreetingVersion d len = Some (handle_greeting_version d len)"
| "socks_step WaitSocksMethods d len = Some (handle_socks_methods d len)"
| "socks_step WaitSocksTCP d len = Some (handle_socks_tcp_udp d len)"
| "socks_step WaitSocksUDP d len = Some (handle_socks_tcp_udp d len)"
| "socks_step WaitSocksIpv4 d len = Some (handle_socks_ipv4 d len)"
| "socks_step WaitSocksDomain d len = Some (handle_socks_domain d len)"
| "socks_step _ d len = None"

definition leaves_loop :: "phase \<Rightarrow> bool" where
  "leaves_loop ph \<longleftrightarrow> ph \<in> {Closed, WaitHttpRequestHeaders, Connecting, Connected}"

lemma returns_positive: "0 < k \<Longrightarrow> returns k m w = Inr (n, w1, a) \<Longrightarrow> 0 < n"
  by (auto simp: returns_def cbind_eq_Inr)

lemma returns_eq_Inr: "returns k m w = Inr (n, w1, a) \<longleftrightarrow> n = k \<and> m w = Inr (w1, a)"
  by (auto simp: returns_def cbind_eq_Inr)

lemma socks_step_positive:
  "socks_step ph d len = Some h \<Longrightarrow> h w = Inr (n, w1, a) \<Longrightarrow> 0 < n"
  by (cases ph)
    (auto simp: handle_greeting_version_def handle_socks_methods_def handle_socks_tcp_udp_def
      handle_socks_ipv4_def handle_socks_domain_def returns_eq_Inr cbind_eq_Inr Let_def
      split: if_splits)

text \<open>
  The loop of \<open>consume_pending\<close>. The flag of the result says whether the code after the loop runs:
  closing inside the loop, and a phase with no case, return from the function.
\<close>

function (sequential) consume_loop ::
  "bytes \<Rightarrow> nat \<Rightarrow> nat \<Rightarrow> 'l client_world \<Rightarrow> (bool \<times> 'l client_world \<times> cs_action list) cpp" where
  "consume_loop d len consumed w =
     (if leaves_loop (cs_phase (cs w)) \<or> consumed \<ge> len then Inr (True, w, [])
      else case socks_step (cs_phase (cs w)) d len of None \<Rightarrow> Inr (False, w, [])
      | Some h \<Rightarrow> cbind (h w) (\<lambda>(n, w1, a1).
          if cs_phase (cs w1) = Closed
          then cbind (on_socket EvClose w1) (\<lambda>(w2, a2). Inr (False, w2, a1 @ a2))
          else cbind (consume_loop d len (consumed + n) w1) (\<lambda>(go, w2, a2). Inr (go, w2, a1 @ a2))))"
  by pat_completeness auto

termination
  by (relation "measure (\<lambda>(d, len, consumed, w). len - consumed)")
    (auto dest!: socks_step_positive)

declare consume_loop.simps [simp del]

definition consume_pending :: "'l llhttp \<Rightarrow> bytes \<Rightarrow> nat \<Rightarrow> 'l cs_handler" where
  "consume_pending ll d len w =
     cbind (consume_loop d len 0 w) (\<lambda>(go, w1, a1).
       if go \<and> cs_phase (cs w1) = WaitHttpRequestHeaders then
         cbind (rd_range d 0 len) (\<lambda>b.
         cbind (andThen (feed_request ll (string_of_bytes b))
                  (modify (cs_upd (\<lambda>s. s\<lparr>pending_buf := pending_buf s @ [b]\<rparr>))) w1) (\<lambda>(w2, a2).
           Inr (w2, a1 @ a2)))
       else Inr (w1, a1))"

definition process_data :: "'l llhttp \<Rightarrow> bytes \<Rightarrow> nat \<Rightarrow> 'l cs_handler" where
  "process_data ll d len w =
     (if cs_phase (cs w) = Connected then
        (case cs_protocol (cs w) of
           Socks5Connect \<Rightarrow> peer_data d len w
         | HttpPlain \<Rightarrow> peer_data d len w
         | HttpsConnect \<Rightarrow> peer_data d len w
         | _ \<Rightarrow> skip w)
      else if cs_phase (cs w) = Closed then
        (if cs_tcp (cs w) then on_socket EvClose w else skip w)
      else consume_pending ll d len w)"

subsection \<open>Frames from the peer\<close>

definition p2p_data :: "'l llhttp \<Rightarrow> (string \<Rightarrow> bytes option) \<Rightarrow> bytes \<Rightarrow> nat \<Rightarrow> protocol \<Rightarrow> 'l cs_handler" where
  "p2p_data ll v4 d n prot w =
     (case prot of
        UdpAssociate \<Rightarrow> (case cs_udp (cs w) of None \<Rightarrow> Inl NullDeref
          | Some u \<Rightarrow> cbind (cu_revP2pData v4 d n u) (\<lambda>acts. emit (map CsUdp acts) w))
      | HttpPlain \<Rightarrow> cbind (rd_range d 0 n) (\<lambda>b. feed_response ll (string_of_bytes b) w)
      | Socks5Connect \<Rightarrow> sock_send_n d n w
      | HttpsConnect \<Rightarrow> sock_send_n d n w
      | _ \<Rightarrow> skip w)"

definition synack_reply :: "udp_env \<Rightarrow> bool \<Rightarrow> protocol \<Rightarrow> 'l cs_handler" where
  "synack_reply ue ok prot =
     (case prot of
        UdpAssociate \<Rightarrow> udp_connected ue ok
      | HttpPlain \<Rightarrow> http_connected ok
      | Socks5Connect \<Rightarrow> send_socks_reply (if ok then 0x00 else 0x05)
      | HttpsConnect \<Rightarrow> https_connected ok
      | _ \<Rightarrow> skip)"

definition p2p_synack :: "udp_env \<Rightarrow> bool \<Rightarrow> protocol \<Rightarrow> 'l cs_handler" where
  "p2p_synack ue ok prot =
     andThen (synack_reply ue ok prot)
       (if \<not> ok then andThen (set_phase Closed) (on_socket EvClose) else set_phase Connected)"

definition cs_close :: "'l cs_handler" where
  "cs_close w = (if cs_tcp (cs w) then on_socket EvClose w else skip w)"

definition p2p_close :: "protocol \<Rightarrow> 'l cs_handler" where
  "p2p_close prot = andThen (modify (cs_upd (\<lambda>s. s\<lparr>is_p2p_closed := True\<rparr>))) cs_close"

text \<open>Defined in the source; no callback of the program reaches it on the client.\<close>

definition p2p_data_ctrl :: "ctrl_type \<Rightarrow> protocol \<Rightarrow> 'l cs_handler" where
  "p2p_data_ctrl ctrl prot w =
     (let tcp = (case ctrl of CtrlPause \<Rightarrow> on_socket EvStopReading w
            | CtrlReceive \<Rightarrow> on_socket EvStartReading w
            | CtrlOther _ \<Rightarrow> skip w)
      in case prot of
        UdpAssociate \<Rightarrow> (case cs_udp (cs w) of None \<Rightarrow> Inl NullDeref
          | Some u \<Rightarrow> cbind (cu_p2p_data_ctrl ctrl u) (\<lambda>acts. emit (map CsUdp acts) w))
      | HttpPlain \<Rightarrow> tcp
      | Socks5Connect \<Rightarrow> tcp
      | HttpsConnect \<Rightarrow> tcp
      | _ \<Rightarrow> skip w)"

subsection \<open>Closing\<close>

definition close_session :: "'l cs_handler" where
  "close_session w =
     cbind (if \<not> is_p2p_closed (cs w) \<and> cs_sess (cs w) \<noteq> None
            then cbind (stream_id w) (\<lambda>sid. Inr (peer_frame (send_fin (mux w) sid (cs_protocol (cs w)))))
            else Inr []) (\<lambda>fin.
       if cs_is_closed (cs w) then emit fin w
       else andThen (emit fin)
         (andThen (modify (cs_upd (\<lambda>s. s\<lparr>cs_is_closed := True\<rparr>)))
           (emit (if cs_on_close (cs w) then [CsClosed (cs_session_id (cs w))] else []))) w)"

text \<open>The callbacks \<open>start\<close> sets on the socket, and \<open>start\<close> itself.\<close>

definition on_tcp_close :: "'l cs_handler" where
  "on_tcp_close = andThen close_session (modify (cs_upd (\<lambda>s. s\<lparr>cs_tcp := False\<rparr>)))"

definition on_tcp_write_queue :: "write_queue_status \<Rightarrow> 'l cs_handler" where
  "on_tcp_write_queue st w =
     cbind (stream_id w) (\<lambda>sid.
       emit (peer_frame (send_data_ctrl (mux w) sid (if st = Danger then CtrlPause else CtrlReceive)
         (cs_protocol (cs w)))) w)"

definition cs_start :: "'l cs_handler" where
  "cs_start = on_socket EvStart"

definition cs_set_on_close :: "bool \<Rightarrow> 'l client_session \<Rightarrow> 'l client_session" where
  "cs_set_on_close b s = s\<lparr>cs_on_close := b\<rparr>"

definition cs_destroy :: "'l cs_handler" where
  "cs_destroy w =
     andThen (emit (case cs_udp (cs w) of None \<Rightarrow> [] | Some u \<Rightarrow> map CsUdp (cu_close u)))
       (\<lambda>w1. if cs_sess (cs w1) = None then skip w1
              else cbind (stream_id w1) (\<lambda>sid. modify (\<lambda>w2. w2\<lparr>mux := SessionMux_remove_session sid (mux w2)\<rparr>) w1)) w"

subsection \<open>Asking for a connection\<close>

lemma request_connects:
  assumes "gen_stream_id (manager (mux w)) (draws w) = Some (sid, ds)" "send_func_set (mux w)"
  obtains w' where
    "request_remote_connect w = Inr (w', [CsToPeer (peer_conn_id (mux w))
       (make_frame sid SYN (cs_protocol (cs w))
         (encode_syn_payload (cs_target_host (cs w)) (cs_target_port (cs w))))])"
    "cs w' = (cs w)\<lparr>cs_sess := Some (next_ptr (manager (mux w))), cs_phase := Connecting\<rparr>"
    "store (manager (mux w')) (next_ptr (manager (mux w))) =
       Some \<lparr>on_data = Some (cs_session_id (cs w)), on_synack = Some (cs_session_id (cs w)),
         on_close = Some (cs_session_id (cs w)), on_data_ctrl = None, sess_stream_id = sid\<rparr>"
    "sessions (manager (mux w')) = (sessions (manager (mux w)))(sid \<mapsto> next_ptr (manager (mux w)))"
    "send_func_set (mux w')" "peer_conn_id (mux w') = peer_conn_id (mux w)"
    "wf_manager (manager (mux w)) \<Longrightarrow> wf_manager (manager (mux w'))"
proof -
  let ?m = "manager (mux w)"
  let ?p = "next_ptr ?m"
  let ?me = "cs_session_id (cs w)"
  let ?s = "\<lparr>on_data = Some ?me, on_synack = Some ?me, on_close = Some ?me, on_data_ctrl = None,
      sess_stream_id = sid\<rparr>"
  define x1 where "x1 = (mux w)\<lparr>manager := snd (create_session_at ?m sid)\<rparr>"
  define x2 where "x2 = x1\<lparr>manager := update_session ?p (set_on_close ?me)
      (update_session ?p (set_on_synack ?me) (update_session ?p (set_on_data ?me) (manager x1)))\<rparr>"
  have cr: "SessionMux_create_session (mux w) (draws w) = Some (?p, x1, ds)"
    using assms(1)
    by (simp add: x1_def SessionMux_create_session_def create_session_def create_session_at_def Let_def)
  have st: "store (manager x2) ?p = Some ?s"
    by (simp add: x2_def x1_def update_session_def create_session_at_def Let_def Session_new_def
        set_on_data_def set_on_synack_def set_on_close_def)
  have se: "sessions (manager x2) = (sessions ?m)(sid \<mapsto> ?p)"
    by (simp add: x2_def x1_def update_session_def create_session_at_def Let_def)
  have x2: "send_func_set x2" "peer_conn_id x2 = peer_conn_id (mux w)"
    using assms(2) by (simp_all add: x2_def x1_def)
  let ?w1 = "(cs_upd (\<lambda>s. s\<lparr>cs_sess := Some ?p\<rparr>) w)\<lparr>mux := x2, draws := ds\<rparr>"
  let ?w' = "cs_upd (\<lambda>s. s\<lparr>cs_phase := Connecting\<rparr>) ?w1"
  have sid: "stream_id ?w1 = Inr sid"
    by (simp add: stream_id_def st)
  have out: "peer_frame (send_syn x2 sid h p pr) =
      [CsToPeer (peer_conn_id (mux w)) (make_frame sid SYN pr (encode_syn_payload h p))]" for h p pr
    by (simp add: send_syn_def mux_send_def peer_frame_def x2)
  show ?thesis
  proof (rule that)
    show "request_remote_connect w = Inr (?w', [CsToPeer (peer_conn_id (mux w))
       (make_frame sid SYN (cs_protocol (cs w))
         (encode_syn_payload (cs_target_host (cs w)) (cs_target_port (cs w))))])"
      unfolding request_remote_connect_def cr option.case prod.case Let_def x2_def [symmetric]
      by (simp add: sid out andThen_def emit_def modify_def)
    show "wf_manager (manager (mux ?w'))" if "wf_manager ?m"
    proof -
      have "wf_manager (manager x1)"
        using wf_create_session_at [OF that] by (simp add: x1_def create_session_at_def Let_def)
      then have "wf_manager (manager x2)"
        by (simp add: x2_def, intro wf_update_session)
          (simp_all add: set_on_data_def set_on_synack_def set_on_close_def)
      then show ?thesis by simp
    qed
  qed (simp_all add: st se x2)
qed

subsection \<open>Running the loop\<close>

lemma loop_stop:
  "leaves_loop (cs_phase (cs w)) \<or> len \<le> consumed \<Longrightarrow> consume_loop d len consumed w = Inr (True, w, [])"
  by (simp add: consume_loop.simps)

lemma loop_step:
  assumes "socks_step (cs_phase (cs w)) d len = Some h" "consumed < len"
    and "h w = Inr (n, w1, a1)" "cs_phase (cs w1) \<noteq> Closed"
  shows "consume_loop d len consumed w =
    cbind (consume_loop d len (consumed + n) w1) (\<lambda>(go, w2, a2). Inr (go, w2, a1 @ a2))"
proof -
  have "\<not> leaves_loop (cs_phase (cs w))"
    using assms(1) by (cases "cs_phase (cs w)") (auto simp: leaves_loop_def)
  with assms show ?thesis by (subst consume_loop.simps) simp
qed

lemma loop_close:
  assumes "socks_step (cs_phase (cs w)) d len = Some h" "consumed < len"
    and "h w = Inr (n, w1, a1)" "cs_phase (cs w1) = Closed" "cs_tcp (cs w1)"
  shows "consume_loop d len consumed w = Inr (False, w1, a1 @ [CsTcp EvClose])"
proof -
  have "\<not> leaves_loop (cs_phase (cs w))"
    using assms(1) by (cases "cs_phase (cs w)") (auto simp: leaves_loop_def)
  with assms show ?thesis by (subst consume_loop.simps) (simp add: on_socket_def emit_def)
qed

lemma sock_send_run: "cs_tcp (cs w) \<Longrightarrow> sock_send b w = Inr (w, [CsTcp (EvSend b)])"
  by (simp add: sock_send_def on_socket_def emit_def)

lemma set_phase_run: "set_phase ph w = Inr (cs_upd (\<lambda>s. s\<lparr>cs_phase := ph\<rparr>) w, [])"
  by (simp add: set_phase_def modify_def)

lemma greeting_run:
  assumes "cs_tcp (cs w)" "rd d 0 = Inr 0x05"
  shows "handle_greeting_version d len w =
    Inr (2, cs_upd (\<lambda>s. s\<lparr>cs_phase := WaitSocksMethods\<rparr>) w, [CsTcp (EvSend [0x05, 0x00])])"
  using assms
  by (simp add: handle_greeting_version_def returns_def andThen_def set_phase_run sock_send_run)

lemma methods_connect_run:
  "rd d 1 = Inr 0x01 \<Longrightarrow> handle_socks_methods d len w =
     Inr (2, cs_upd (\<lambda>s. s\<lparr>cs_phase := WaitSocksTCP, cs_protocol := Socks5Connect\<rparr>) w, [])"
  by (simp add: handle_socks_methods_def returns_def modify_def)

lemma methods_udp_run:
  "rd d 1 = Inr 0x03 \<Longrightarrow> handle_socks_methods d len w =
     Inr (2, cs_upd (\<lambda>s. s\<lparr>cs_phase := WaitSocksUDP, cs_protocol := UdpAssociate\<rparr>) w, [])"
  by (simp add: handle_socks_methods_def returns_def modify_def)

lemma methods_refused_run:
  assumes "cs_tcp (cs w)" "rd d 1 = Inr cmd" "cmd \<noteq> 0x01" "cmd \<noteq> 0x03"
  shows "handle_socks_methods d len w =
     Inr (1, cs_upd (\<lambda>s. s\<lparr>cs_phase := Closed\<rparr>) w,
       [CsTcp (EvSend [0x05, 0x07, 0x00, 0x01, 0, 0, 0, 0, 0, 0])])"
  using assms
  by (simp add: handle_socks_methods_def returns_def andThen_def set_phase_run send_socks_reply_def sock_send_run)

subsection \<open>SOCKS5 requests\<close>

text \<open>A request as the protocol has it: version, command, reserved, address type, address, port.\<close>

datatype socks_addr = AddrIpv4 u8 u8 u8 u8 | AddrDomain string

fun addr_text :: "socks_addr \<Rightarrow> string" where
  "addr_text (AddrIpv4 a b c e) = ipv4_text a b c e"
| "addr_text (AddrDomain h) = h"

fun addr_bytes :: "socks_addr \<Rightarrow> bytes" where
  "addr_bytes (AddrIpv4 a b c e) = [1, a, b, c, e]"
| "addr_bytes (AddrDomain h) = [3, word_of_nat (length h)] @ bytes_of_string h"

definition socks_request :: "u8 \<Rightarrow> socks_addr \<Rightarrow> u16 \<Rightarrow> bytes" where
  "socks_request cmd addr port =
     [5, cmd, 0] @ addr_bytes addr @ [ucast (drop_bit 8 port), ucast (port AND 0xFF)]"

fun wf_addr :: "socks_addr \<Rightarrow> bool" where
  "wf_addr (AddrIpv4 a b c e) = True"
| "wf_addr (AddrDomain h) = (length h < 256)"

lemma addr_text_short: "wf_addr addr \<Longrightarrow> length (addr_text addr) < 256"
proof (cases addr)
  case (AddrIpv4 a b c e)
  then show ?thesis using length_ipv4_text [of a b c e] by simp
qed auto

text \<open>Either address handler stores the address and asks the peer to connect to it.\<close>

lemma address_step:
  assumes "cs_phase (cs w) = (case addr of AddrIpv4 _ _ _ _ \<Rightarrow> WaitSocksIpv4 | AddrDomain _ \<Rightarrow> WaitSocksDomain)"
    and "wf_addr addr"
  shows "\<exists>h n. socks_step (cs_phase (cs w)) (socks_request cmd addr port @ stale) len = Some h \<and>
    h w = cbind (request_remote_connect (cs_upd (\<lambda>s. s\<lparr>cs_target_host := addr_text addr, cs_target_port := port\<rparr>) w))
      (\<lambda>(w3, a). Inr (n, w3, a))"
proof (cases addr)
  case (AddrIpv4 a b c e)
  have "rd_range (socks_request cmd addr port @ stale) 4 6 =
      Inr [a, b, c, e, ucast (drop_bit 8 port), ucast (port AND 0xFF)]"
    by (simp add: AddrIpv4 socks_request_def rd_range_def numeral_eq_Suc)
  then show ?thesis using assms(1)
    by (simp add: AddrIpv4 handle_socks_ipv4_def returns_def andThen_def modify_def
        cbind_pair_Nil [simplified] cs_upd_def Let_def) (auto intro!: exI [of _ 6])
next
  case (AddrDomain h)
  with assms(2) have len: "unat (word_of_nat (length h) :: u8) = length h" by (simp add: unat_len_byte)
  let ?d = "socks_request cmd addr port @ stale"
  have "rd ?d 4 = Inr (word_of_nat (length h))" "rd_range ?d 5 (length h) = Inr (bytes_of_string h)"
    "rd ?d (length h + 5) = Inr (ucast (drop_bit 8 port))" "rd ?d (length h + 6) = Inr (ucast (port AND 0xFF))"
    by (simp_all add: AddrDomain socks_request_def rd_def rd_range_def nth_append)
  then show ?thesis using assms(1)
    by (simp add: AddrDomain handle_socks_domain_def returns_def andThen_def modify_def
        cbind_pair_Nil [simplified] cs_upd_def Let_def len) (auto intro!: exI [of _ "3 + length h"])
qed

text \<open>
  The request phases read the address type at offset 3 and then the address and the port; what they
  do depends on the buffer only, as soon as more than two bytes count as received.
\<close>

lemma request_run:
  assumes "cs_phase (cs w) = WaitSocksTCP \<or> cs_phase (cs w) = WaitSocksUDP" "2 < len"
    and "wf_addr addr"
    and "d = socks_request cmd addr port @ stale"
    and "gen_stream_id (manager (mux w)) (draws w) = Some (sid, ds)" "send_func_set (mux w)"
  obtains w' where
    "consume_loop d len 0 w = Inr (True, w', [CsToPeer (peer_conn_id (mux w))
       (make_frame sid SYN (cs_protocol (cs w)) (encode_syn_payload (addr_text addr) port))])"
    "cs w' = (cs w)\<lparr>cs_target_host := addr_text addr, cs_target_port := port,
       cs_sess := Some (next_ptr (manager (mux w))), cs_phase := Connecting\<rparr>"
    "store (manager (mux w')) (next_ptr (manager (mux w))) =
       Some \<lparr>on_data = Some (cs_session_id (cs w)), on_synack = Some (cs_session_id (cs w)),
         on_close = Some (cs_session_id (cs w)), on_data_ctrl = None, sess_stream_id = sid\<rparr>"
    "sessions (manager (mux w')) = (sessions (manager (mux w)))(sid \<mapsto> next_ptr (manager (mux w)))"
    "send_func_set (mux w')" "peer_conn_id (mux w') = peer_conn_id (mux w)"
    "wf_manager (manager (mux w)) \<Longrightarrow> wf_manager (manager (mux w'))"
proof -
  define ph where "ph = (case addr of AddrIpv4 _ _ _ _ \<Rightarrow> WaitSocksIpv4 | AddrDomain _ \<Rightarrow> WaitSocksDomain)"
  define w1 where "w1 = cs_upd (\<lambda>s. s\<lparr>cs_phase := ph\<rparr>) w"
  define w2 where "w2 = cs_upd (\<lambda>s. s\<lparr>cs_target_host := addr_text addr, cs_target_port := port\<rparr>) w1"
  have "gen_stream_id (manager (mux w2)) (draws w2) = Some (sid, ds)" "send_func_set (mux w2)"
    using assms(5,6) by (simp_all add: w1_def w2_def)
  then obtain w' where w': "request_remote_connect w2 = Inr (w', [CsToPeer (peer_conn_id (mux w))
       (make_frame sid SYN (cs_protocol (cs w)) (encode_syn_payload (addr_text addr) port))])"
    "cs w' = (cs w2)\<lparr>cs_sess := Some (next_ptr (manager (mux w))), cs_phase := Connecting\<rparr>"
    "store (manager (mux w')) (next_ptr (manager (mux w))) =
       Some \<lparr>on_data = Some (cs_session_id (cs w)), on_synack = Some (cs_session_id (cs w)),
         on_close = Some (cs_session_id (cs w)), on_data_ctrl = None, sess_stream_id = sid\<rparr>"
    "sessions (manager (mux w')) = (sessions (manager (mux w)))(sid \<mapsto> next_ptr (manager (mux w)))"
    "send_func_set (mux w')" "peer_conn_id (mux w') = peer_conn_id (mux w)"
    "wf_manager (manager (mux w)) \<Longrightarrow> wf_manager (manager (mux w'))"
    by (rule request_connects) (simp_all add: w1_def w2_def)
  have step1: "handle_socks_tcp_udp d len w = Inr (2, w1, [])"
    by (cases addr)
      (simp_all add: handle_socks_tcp_udp_def assms(4) socks_request_def rd_def returns_def set_phase_run
        w1_def ph_def)
  have ph: "cs_phase (cs w1) = (case addr of AddrIpv4 _ _ _ _ \<Rightarrow> WaitSocksIpv4 | AddrDomain _ \<Rightarrow> WaitSocksDomain)"
    by (simp add: w1_def ph_def)
  from address_step [OF ph assms(3), of cmd port stale len] have "\<exists>h n. socks_step (cs_phase (cs w1)) d len = Some h \<and>
      h w1 = cbind (request_remote_connect w2) (\<lambda>(w3, a). Inr (n, w3, a))" unfolding assms(4) w2_def .
  then obtain h n where h: "socks_step (cs_phase (cs w1)) d len = Some h"
    and hr: "h w1 = cbind (request_remote_connect w2) (\<lambda>(w3, a). Inr (n, w3, a))" by blast
  have ss: "socks_step (cs_phase (cs w)) d len = Some (handle_socks_tcp_udp d len)"
    using assms(1) by auto
  have "cs_phase (cs w1) \<noteq> Closed" by (cases addr) (simp_all add: w1_def ph_def)
  then have "consume_loop d len 0 w =
      cbind (consume_loop d len 2 w1) (\<lambda>(go, w2, a2). Inr (go, w2, [] @ a2))"
    using loop_step [OF ss _ step1, of 0] assms(2) by (simp add: numeral_2_eq_2)
  also have "consume_loop d len 2 w1 = Inr (True, w', [CsToPeer (peer_conn_id (mux w))
       (make_frame sid SYN (cs_protocol (cs w)) (encode_syn_payload (addr_text addr) port))])"
    using loop_step [OF h, of 2] hr w'(1,2) assms(2) by (simp add: loop_stop leaves_loop_def)
  finally have run: "consume_loop d len 0 w = Inr (True, w', [CsToPeer (peer_conn_id (mux w))
       (make_frame sid SYN (cs_protocol (cs w)) (encode_syn_payload (addr_text addr) port))])"
    by simp
  have "cs w' = (cs w)\<lparr>cs_target_host := addr_text addr, cs_target_port := port,
       cs_sess := Some (next_ptr (manager (mux w))), cs_phase := Connecting\<rparr>"
    by (simp add: w'(2) w1_def w2_def)
  from that [OF run this w'(3-7)] show ?thesis .
qed

text \<open>A greeting with one method, in one segment, is already read as the start of a CONNECT request.\<close>

lemma greeting_loop:
  assumes "cs_phase (cs w) = WaitGreetingVersion" "cs_tcp (cs w)" "d = [5, 1, m] @ stale"
  shows "consume_loop d 3 0 w =
    Inr (True, cs_upd (\<lambda>s. s\<lparr>cs_phase := WaitSocksTCP, cs_protocol := Socks5Connect\<rparr>) w,
      [CsTcp (EvSend [0x05, 0x00])])"
proof -
  let ?w1 = "cs_upd (\<lambda>s. s\<lparr>cs_phase := WaitSocksMethods\<rparr>) w"
  let ?w2 = "cs_upd (\<lambda>s. s\<lparr>cs_phase := WaitSocksTCP, cs_protocol := Socks5Connect\<rparr>) ?w1"
  have rds: "rd d 0 = Inr 0x05" "rd d 1 = Inr 0x01" by (simp_all add: assms(3) rd_def)
  have "consume_loop d 3 4 ?w2 = Inr (True, ?w2, [])" by (rule loop_stop) simp
  moreover have "consume_loop d 3 2 ?w1 = cbind (consume_loop d 3 (2 + 2) ?w2) (\<lambda>(go, w2, a2). Inr (go, w2, [] @ a2))"
    by (rule loop_step [where h = "handle_socks_methods d 3"]) (simp_all add: methods_connect_run [OF rds(2)])
  moreover have "consume_loop d 3 0 w = cbind (consume_loop d 3 (0 + 2) ?w1)
      (\<lambda>(go, w2, a2). Inr (go, w2, [CsTcp (EvSend [0x05, 0x00])] @ a2))"
    by (rule loop_step [where h = "handle_greeting_version d 3"])
      (simp_all add: assms(1) greeting_run [OF assms(2) rds(1)])
  ultimately show ?thesis by (simp add: cs_upd_def numeral_2_eq_2 [symmetric])
qed

lemma refused_loop:
  assumes "cs_phase (cs w) = WaitGreetingVersion" "cs_tcp (cs w)" "d = [5, n] @ rest" "2 < len"
    "n \<noteq> 1" "n \<noteq> 3"
  shows "\<exists>w'. consume_loop d len 0 w =
    Inr (False, w', [CsTcp (EvSend [0x05, 0x00]),
      CsTcp (EvSend [0x05, 0x07, 0x00, 0x01, 0, 0, 0, 0, 0, 0]), CsTcp EvClose]) \<and> cs_phase (cs w') = Closed"
proof -
  let ?w1 = "cs_upd (\<lambda>s. s\<lparr>cs_phase := WaitSocksMethods\<rparr>) w"
  let ?w2 = "cs_upd (\<lambda>s. s\<lparr>cs_phase := Closed\<rparr>) ?w1"
  have rds: "rd d 0 = Inr 0x05" "rd d 1 = Inr n" by (simp_all add: assms(3) rd_def)
  have tcp: "cs_tcp (cs ?w1)" using assms(2) by simp
  have "consume_loop d len 2 ?w1 = Inr (False, ?w2,
      [CsTcp (EvSend [0x05, 0x07, 0x00, 0x01, 0, 0, 0, 0, 0, 0])] @ [CsTcp EvClose])"
    by (rule loop_close [where h = "handle_socks_methods d len"])
      (use assms(2,4) methods_refused_run [OF tcp rds(2) assms(5,6)] in simp_all)
  moreover have "consume_loop d len 0 w = cbind (consume_loop d len (0 + 2) ?w1)
      (\<lambda>(go, w2, a2). Inr (go, w2, [CsTcp (EvSend [0x05, 0x00])] @ a2))"
    by (rule loop_step [where h = "handle_greeting_version d len"])
      (use assms(1,4) greeting_run [OF assms(2) rds(1)] in simp_all)
  ultimately show ?thesis by (simp add: numeral_2_eq_2 [symmetric])
qed

text \<open>With three methods the greeting goes on to be read as a UDP request, whose address type is the second.\<close>

definition second_method_phase :: "u8 \<Rightarrow> phase" where
  "second_method_phase m = (if m = 1 then WaitSocksIpv4 else if m = 3 then WaitSocksDomain else Closed)"

definition second_method_calls :: "u8 \<Rightarrow> cs_action list" where
  "second_method_calls m =
     (if m = 1 \<or> m = 3 then [] else [CsTcp (EvSend [0x05, 0x08, 0x00, 0x01, 0, 0, 0, 0, 0, 0]), CsTcp EvClose])"

lemma three_methods_loop:
  assumes "cs_phase (cs w) = WaitGreetingVersion" "cs_tcp (cs w)" "d = [5, 3, m0, m1, m2] @ stale"
  shows "\<exists>go. consume_loop d 5 0 w =
    Inr (go, cs_upd (\<lambda>s. s\<lparr>cs_phase := second_method_phase m1, cs_protocol := UdpAssociate\<rparr>) w,
      CsTcp (EvSend [0x05, 0x00]) # second_method_calls m1)"
proof -
  let ?w1 = "cs_upd (\<lambda>s. s\<lparr>cs_phase := WaitSocksMethods\<rparr>) w"
  let ?w2 = "cs_upd (\<lambda>s. s\<lparr>cs_phase := WaitSocksUDP, cs_protocol := UdpAssociate\<rparr>) ?w1"
  let ?w3 = "cs_upd (\<lambda>s. s\<lparr>cs_phase := second_method_phase m1\<rparr>) ?w2"
  have rds: "rd d 0 = Inr 0x05" "rd d 1 = Inr 0x03" "rd d 3 = Inr m1" by (simp_all add: assms(3) rd_def)
  have tcp: "cs_tcp (cs ?w2)" using assms(2) by simp
  have "\<exists>go. consume_loop d 5 4 ?w2 = Inr (go, ?w3, second_method_calls m1)"
  proof (cases "m1 = 1 \<or> m1 = 3")
    case True
    then have "handle_socks_tcp_udp d 5 ?w2 = Inr (2, ?w3, [])"
      by (auto simp: handle_socks_tcp_udp_def rds(3) returns_def set_phase_run second_method_phase_def)
    moreover have "cs_phase (cs ?w3) \<noteq> Closed" using True by (auto simp: second_method_phase_def)
    ultimately have "consume_loop d 5 4 ?w2 = cbind (consume_loop d 5 (4 + 2) ?w3) (\<lambda>(go, w2, a2). Inr (go, w2, [] @ a2))"
      by (intro loop_step [where h = "handle_socks_tcp_udp d 5"]) simp_all
    then show ?thesis using True by (auto simp: loop_stop second_method_calls_def)
  next
    case False
    then have run: "handle_socks_tcp_udp d 5 ?w2 = Inr (2, ?w3, [CsTcp (EvSend [0x05, 0x08, 0x00, 0x01, 0, 0, 0, 0, 0, 0])])"
      using sock_send_run [OF tcp]
      by (simp add: handle_socks_tcp_udp_def rds(3) returns_def andThen_def set_phase_run send_socks_reply_def
          second_method_phase_def)
    have "cs_phase (cs ?w3) = Closed" "cs_tcp (cs ?w3)" using False assms(2) by (simp_all add: second_method_phase_def)
    from loop_close [where h = "handle_socks_tcp_udp d 5", where consumed = 4, OF _ _ run this] False show ?thesis by (auto simp: second_method_calls_def)
  qed
  then obtain go where last: "consume_loop d 5 4 ?w2 = Inr (go, ?w3, second_method_calls m1)" by blast
  have "handle_socks_methods d 5 ?w1 = Inr (2, ?w2, [])"
    by (rule methods_udp_run [OF rds(2)])
  then have "consume_loop d 5 2 ?w1 = cbind (consume_loop d 5 (2 + 2) ?w2) (\<lambda>(go, w2, a2). Inr (go, w2, [] @ a2))"
    by (intro loop_step [where h = "handle_socks_methods d 5"]) simp_all
  moreover have "consume_loop d 5 0 w = cbind (consume_loop d 5 (0 + 2) ?w1)
      (\<lambda>(go, w2, a2). Inr (go, w2, [CsTcp (EvSend [0x05, 0x00])] @ a2))"
    by (rule loop_step [where h = "handle_greeting_version d 5"])
      (simp_all add: assms(1) greeting_run [OF assms(2) rds(1)])
  ultimately show ?thesis using last by (simp add: cs_upd_def numeral_2_eq_2 [symmetric])
qed

lemma process_socks:
  assumes "consume_loop d len 0 w = Inr (go, w1, acts)" "cs_phase (cs w1) \<noteq> WaitHttpRequestHeaders \<or> \<not> go"
    and "cs_phase (cs w) \<noteq> Connected" "cs_phase (cs w) \<noteq> Closed"
  shows "process_data ll d len w = Inr (w1, acts)"
  using assms by (auto simp: process_data_def consume_pending_def)

lemma peer_data_run:
  assumes "stream_id w = Inr sid" "send_func_set (mux w)"
  shows "peer_data (data @ stale) (length data) w =
    Inr (w, [CsToPeer (peer_conn_id (mux w)) (make_frame sid DATA (cs_protocol (cs w)) data)])"
  using assms
  by (simp add: peer_data_def send_data_def rd_range_def mux_send_def peer_frame_def emit_def)

subsection \<open>Memory safety\<close>

text \<open>
  What holds of a live session: it has its socket, its multiplexer session is an object, and it has
  one once it is connected. \<open>fine\<close>: a handler does not run into undefined behaviour and keeps that.
\<close>

definition sess_ok :: "'l client_world \<Rightarrow> bool" where
  "sess_ok w \<longleftrightarrow> cs_tcp (cs w) \<and>
     (\<forall>p. cs_sess (cs w) = Some p \<longrightarrow> store (manager (mux w)) p \<noteq> None) \<and>
     (cs_phase (cs w) = Connected \<longrightarrow> cs_sess (cs w) \<noteq> None)"

definition no_ub :: "cpp_error \<Rightarrow> bool" where
  "no_ub e \<longleftrightarrow> e \<noteq> OutOfBounds \<and> e \<noteq> NullDeref"

fun fine :: "('l client_world \<times> cs_action list) cpp \<Rightarrow> bool" where
  "fine (Inl e) = no_ub e"
| "fine (Inr (w, acts)) = sess_ok w"

lemma no_ub_simps [simp]: "no_ub InvalidArgument" "no_ub OutOfRange" "no_ub NoReturn"
  by (simp_all add: no_ub_def)

lemma fine_andThen: "fine (m w) \<Longrightarrow> (\<And>w'. sess_ok w' \<Longrightarrow> fine (k w')) \<Longrightarrow> fine (andThen m k w)"
proof (cases "m w")
  case (Inr r)
  obtain w1 a1 where r: "r = (w1, a1)" by (cases r)
  assume "fine (m w)" "\<And>w'. sess_ok w' \<Longrightarrow> fine (k w')"
  with Inr r have "fine (k w1)" by simp
  with Inr r show ?thesis by (cases "k w1") (auto simp: andThen_def)
qed (simp add: andThen_def)

lemma fine_socket: "sess_ok w \<Longrightarrow> fine (on_socket e w)"
  by (simp add: on_socket_def emit_def sess_ok_def)

lemma fine_send: "sess_ok w \<Longrightarrow> fine (sock_send b w)"
  by (simp add: sock_send_def fine_socket)

lemma fine_phase: "sess_ok w \<Longrightarrow> ph \<noteq> Connected \<Longrightarrow> fine (set_phase ph w)"
  by (simp add: set_phase_run sess_ok_def)

lemma fine_request:
  assumes "sess_ok w"
  shows "fine (request_remote_connect w)"
proof (cases "SessionMux_create_session (mux w) (draws w)")
  case (Some r)
  obtain p x1 ds where r: "r = (p, x1, ds)" by (cases r)
  from Some r obtain s1 where st: "store (manager x1) p = Some s1"
    by (auto simp: SessionMux_create_session_def create_session_def create_session_at_def Let_def
        split: option.splits prod.splits)
  from assms st show ?thesis
    by (simp add: request_remote_connect_def Some r Let_def stream_id_def update_session_def
        andThen_def emit_def modify_def sess_ok_def)
qed (simp add: request_remote_connect_def)

lemma split_host_port_errors: "split_host_port h = Inl e \<Longrightarrow> no_ub e"
  by (auto simp: split_host_port_def stoi_def cbind_eq_Inl Let_def split: option.splits if_splits)

lemma fine_request_headers:
  assumes "sess_ok w"
  shows "fine (on_request_headers msg w)"
proof -
  let ?h = "if m_method msg = ''CONNECT'' then target msg else get_header msg ''Host''"
  show ?thesis
  proof (cases "split_host_port ?h")
    case (Inl e)
    then show ?thesis by (simp add: on_request_headers_def split_host_port_errors)
  next
    case (Inr hp)
    obtain host port where hp: "hp = (host, port)" by (cases hp)
    let ?w1 = "cs_upd (\<lambda>s. s\<lparr>cs_target_host := host, cs_target_port := port\<rparr>) w"
    have ok: "sess_ok ?w1" using assms by (simp add: sess_ok_def)
    have "fine (andThen (modify (cs_upd (\<lambda>s. s\<lparr>cs_protocol := pr\<rparr>))) request_remote_connect ?w1)" for pr
      by (rule fine_andThen) (use assms in \<open>simp_all add: modify_def sess_ok_def fine_request\<close>)
    with fine_socket [OF ok] show ?thesis
      by (cases "host = []") (simp_all add: on_request_headers_def Inr hp Let_def)
  qed
qed

lemma fine_request_upcalls: "sess_ok w \<Longrightarrow> fine (for_each on_request_upcall ups w)"
proof (induction ups arbitrary: w)
  case (Cons u ups)
  have "fine (on_request_upcall u w)"
    using Cons.prems
    by (cases u rule: on_request_upcall.cases)
      (simp_all add: fine_request_headers fine_socket skip_def)
  with Cons.IH show ?case by (simp add: fine_andThen)
qed (simp add: skip_def)

lemma fine_feed: "sess_ok w \<Longrightarrow> fine (feed_request ll data w)"
  by (auto simp: feed_request_def sess_ok_def intro!: fine_request_upcalls split: prod.splits)

text \<open>The handlers of the loop read at most the first 262 bytes.\<close>

definition fine_step :: "(nat \<times> 'l client_world \<times> cs_action list) cpp \<Rightarrow> bool" where
  "fine_step r \<longleftrightarrow> (case r of Inl e \<Rightarrow> no_ub e | Inr (n, w, a) \<Rightarrow> sess_ok w)"

lemma fine_returns: "fine (m w) \<Longrightarrow> fine_step (returns k m w)"
  by (cases "m w") (auto simp: returns_def fine_step_def)

lemma fine_socks_step:
  assumes "sess_ok w" "262 \<le> length d" "socks_step (cs_phase (cs w)) d len = Some h"
  shows "fine_step (h w)"
proof -
  have rds: "rd d i = Inr (d ! i)" if "i < 262" for i
    using assms(2) that by (simp add: rd_def)
  have mods: "fine (modify (cs_upd f) w)"
    if "\<And>s. cs_tcp (f s) = cs_tcp s \<and> cs_sess (f s) = cs_sess s \<and> cs_phase (f s) \<noteq> Connected" for f
    using that [of "cs w"] assms(1) by (simp add: modify_def sess_ok_def)
  have reply: "sess_ok w' \<Longrightarrow> fine (send_socks_reply c w')" for c and w' :: "'l client_world"
    by (simp add: send_socks_reply_def fine_send)
  have conn: "fine (andThen (modify (cs_upd (\<lambda>s. s\<lparr>cs_target_host := a, cs_target_port := b\<rparr>)))
      request_remote_connect w)" for a b
  proof (rule fine_andThen)
    show "fine (modify (cs_upd (\<lambda>s. s\<lparr>cs_target_host := a, cs_target_port := b\<rparr>)) w)"
      using assms(1) by (simp add: modify_def sess_ok_def)
  qed (rule fine_request)
  have phases: "cs_phase (cs w) \<noteq> Connected \<Longrightarrow>
     fine (andThen (set_phase ph) k w)" if "ph \<noteq> Connected" "\<And>w'. sess_ok w' \<Longrightarrow> fine (k w')" for ph k
    by (rule fine_andThen) (use that in \<open>simp_all add: fine_phase assms(1)\<close>)
  show ?thesis
  proof (cases "cs_phase (cs w)")
    case WaitGreetingVersion
    with assms(3) show ?thesis
      by (auto simp: handle_greeting_version_def rds
          intro!: fine_returns phases fine_send fine_phase assms(1))
  next
    case WaitSocksMethods
    with assms(3) show ?thesis
      by (auto simp: handle_socks_methods_def rds intro!: fine_returns phases mods reply)
  next
    case WaitSocksTCP
    with assms(3) show ?thesis
      by (auto simp: handle_socks_tcp_udp_def rds
          intro!: fine_returns fine_andThen fine_phase reply assms(1))
  next
    case WaitSocksUDP
    with assms(3) show ?thesis
      by (auto simp: handle_socks_tcp_udp_def rds
          intro!: fine_returns fine_andThen fine_phase reply assms(1))
  next
    case WaitSocksIpv4
    with assms(2,3) show ?thesis
      by (auto simp: handle_socks_ipv4_def rd_range_def intro!: fine_returns conn)
  next
    case WaitSocksDomain
    have "unat (d ! 4) < 256" using unsigned_less [of "d ! 4"] by simp
    with WaitSocksDomain assms(2,3) show ?thesis
      by (auto simp: handle_socks_domain_def rds rd_range_def Let_def intro!: fine_returns conn)
  qed (use assms(3) in auto)
qed

lemma fine_loop:
  fixes w :: "'l client_world"
  assumes "sess_ok w" "262 \<le> length d"
  shows "case consume_loop d len consumed w of Inl e \<Rightarrow> no_ub e | Inr (go, w', acts) \<Rightarrow> sess_ok w'"
  using assms
proof (induction d len consumed w rule: consume_loop.induct)
  case (1 d len consumed w)
  show ?case
  proof (cases "leaves_loop (cs_phase (cs w)) \<or> len \<le> consumed")
    case False
    show ?thesis
    proof (cases "socks_step (cs_phase (cs w)) d len :: 'l socks_handler option")
      case (Some h)
      from fine_socks_step [OF "1.prems" Some] have st: "fine_step (h w)" .
      show ?thesis
      proof (cases "h w")
        case (Inl e)
        with False Some st show ?thesis by (subst consume_loop.simps) (simp add: fine_step_def)
      next
        case (Inr r)
        obtain n w1 a1 where r: "r = (n, w1, a1)" by (cases r)
        from st Inr r have ok: "sess_ok w1" by (simp add: fine_step_def)
        show ?thesis
        proof (cases "cs_phase (cs w1) = Closed")
          case True
          with False Some Inr r ok show ?thesis
            by (subst consume_loop.simps) (simp add: on_socket_def emit_def sess_ok_def)
        next
          case open1: False
          from "1.IH" [OF False Some Inr [unfolded r] refl refl open1 ok "1.prems"(2)] False Some Inr r open1
          show ?thesis
            by (subst consume_loop.simps)
              (auto split: sum.splits prod.splits simp: cbind_eq_Inl cbind_eq_Inr)
        qed
      qed
    qed (use False "1.prems" in \<open>subst consume_loop.simps, simp\<close>)
  qed (use "1.prems" in \<open>simp add: loop_stop\<close>)
qed

lemma fine_process_data:
  assumes "sess_ok w" "length d = 8192" "len \<le> 8192"
  shows "fine (process_data ll d len w)"
proof -
  have peer: "fine (peer_data d len w)" if conn: "cs_phase (cs w) = Connected"
  proof -
    from assms(1) conn obtain p s1 where "cs_sess (cs w) = Some p" "store (manager (mux w)) p = Some s1"
      by (auto simp: sess_ok_def)
    with assms show ?thesis
      by (simp add: peer_data_def stream_id_def send_data_def rd_range_def emit_def)
  qed
  have pending: "fine (consume_pending ll d len w)"
  proof (cases "consume_loop d len 0 w")
    case (Inl e)
    with fine_loop [of w d len 0] assms show ?thesis by (simp add: consume_pending_def)
  next
    case (Inr r)
    obtain go w1 a1 where r: "r = (go, w1, a1)" by (cases r)
    from fine_loop [of w d len 0] assms Inr r have ok: "sess_ok w1" by simp
    let ?b = "take len d"
    have push: "fine (modify (cs_upd (\<lambda>s. s\<lparr>pending_buf := pending_buf s @ [?b]\<rparr>)) w')" if "sess_ok w'" for w'
      using that by (simp add: modify_def sess_ok_def)
    have "fine (andThen (feed_request ll (string_of_bytes ?b))
        (modify (cs_upd (\<lambda>s. s\<lparr>pending_buf := pending_buf s @ [?b]\<rparr>))) w1)"
      by (rule fine_andThen) (use fine_feed [OF ok] push in auto)
    then show ?thesis
      using ok assms(2,3)
      by (cases "andThen (feed_request ll (string_of_bytes ?b))
          (modify (cs_upd (\<lambda>s. s\<lparr>pending_buf := pending_buf s @ [?b]\<rparr>))) w1")
        (auto simp: consume_pending_def Inr r rd_range_def)
  qed
  show ?thesis
    using assms(1) peer pending
    by (auto simp: process_data_def skip_def fine_socket split: protocol.splits)
qed

subsection \<open>Forwarding a response\<close>

lemma response_upcalls_same: "for_each on_response_upcall ups w = Inr (w', a) \<Longrightarrow> w' = w"
proof (induction ups arbitrary: w a)
  case (Cons u ups)
  then obtain w1 a1 a2 where "on_response_upcall u w = Inr (w1, a1)" "for_each on_response_upcall ups w1 = Inr (w', a2)"
    by (auto simp: andThen_Inr)
  moreover from this(1) have "w1 = w"
    by (cases u rule: on_response_upcall.cases)
      (auto simp: sock_send_def on_socket_def emit_def skip_def guarded_def split: if_splits)
  ultimately show ?case using Cons.IH by blast
qed (simp add: skip_def)

lemma on_response_upcall_sends:
  assumes "cs_tcp (cs w)" "no_error u"
  shows "on_response_upcall u w = Inr (w, map (\<lambda>b. CsTcp (EvSend (bytes_of_string b)))
    (relay_bytes (serialize_headers_only False None) is_chunked u))"
  using assms
  by (cases u rule: on_response_upcall.cases) (auto simp: sock_send_run skip_def guarded_def)

interpretation response_relay: http_relay "\<lambda>w. http_response_parser (cs w)"
  "\<lambda>p. cs_upd (\<lambda>s. s\<lparr>http_response_parser := p\<rparr>)" on_response_upcall "\<lambda>w. cs_tcp (cs w)"
  "serialize_headers_only False None" is_chunked "\<lambda>b. CsTcp (EvSend (bytes_of_string b))"
  by unfold_locales (simp_all add: cs_upd_def is_chunked_def set_lib_def on_response_upcall_sends)

lemma feed_response_relay: "feed_response = response_relay.feed_all"
  by (rule ext)+ (simp add: feed_response_def response_relay.feed_all_def)

subsection \<open>Properties\<close>

text \<open>A SOCKS5 CONNECT is served, for an IPv4 address and for a domain: to a greeting with one method
the session answers "no authentication", to the request it sends one SYN with the target's host and
port on a fresh stream, to the peer's success it answers the SOCKS5 success reply, and from then on
what it reads goes to the peer unchanged; whatever is left in the receive buffer behind each segment.\<close>
theorem socks_connect_served:
  assumes "cs w = Socks5Session_new ll sid" "send_func_set (mux w)"
    and "gen_stream_id (manager (mux w)) (draws w) = Some (st, ds)"
    and "wf_addr addr"
  shows "\<exists>w1 w2 w3. process_data ll ([5, 1, m] @ stale1) 3 w = Inr (w1, [CsTcp (EvSend [0x05, 0x00])]) \<and>
    process_data ll (socks_request 1 addr port @ stale2) (length (socks_request 1 addr port)) w1 =
      Inr (w2, [CsToPeer (peer_conn_id (mux w))
        (make_frame st SYN Socks5Connect (encode_syn_payload (addr_text addr) port))]) \<and>
    p2p_synack ue True Socks5Connect w2 =
      Inr (w3, [CsTcp (EvSend [0x05, 0x00, 0x00, 0x01, 0, 0, 0, 0, 0, 0])]) \<and>
    process_data ll (data @ stale3) (length data) w3 =
      Inr (w3, [CsToPeer (peer_conn_id (mux w)) (make_frame st DATA Socks5Connect data)])"
proof -
  let ?w1 = "cs_upd (\<lambda>s. s\<lparr>cs_phase := WaitSocksTCP, cs_protocol := Socks5Connect\<rparr>) w"
  have new: "cs_phase (cs w) = WaitGreetingVersion" "cs_tcp (cs w)"
    by (simp_all add: assms(1) Socks5Session_new_def)
  have g: "process_data ll ([5, 1, m] @ stale1) 3 w = Inr (?w1, [CsTcp (EvSend [0x05, 0x00])])"
    by (rule process_socks [OF greeting_loop [OF new refl]]) (simp_all add: new)
  have long: "2 < length (socks_request 1 addr port)" by (cases addr) (simp_all add: socks_request_def)
  have "gen_stream_id (manager (mux ?w1)) (draws ?w1) = Some (st, ds)" "send_func_set (mux ?w1)"
    "cs_phase (cs ?w1) = WaitSocksTCP \<or> cs_phase (cs ?w1) = WaitSocksUDP"
    using assms(2,3) by simp_all
  note rr = request_run [where addr = addr and port = port and cmd = 1 and stale = stale2,
      OF this(3) long assms(4) refl this(1,2)]
  obtain w2 where w2: "consume_loop (socks_request 1 addr port @ stale2) (length (socks_request 1 addr port)) 0 ?w1 =
      Inr (True, w2, [CsToPeer (peer_conn_id (mux w))
        (make_frame st SYN Socks5Connect (encode_syn_payload (addr_text addr) port))])"
    "cs w2 = (cs ?w1)\<lparr>cs_target_host := addr_text addr, cs_target_port := port,
       cs_sess := Some (next_ptr (manager (mux w))), cs_phase := Connecting\<rparr>"
    "\<exists>o1. store (manager (mux w2)) (next_ptr (manager (mux w))) = Some o1 \<and> sess_stream_id o1 = st"
    "send_func_set (mux w2)" "peer_conn_id (mux w2) = peer_conn_id (mux w)"
    by (rule rr) auto
  have r: "process_data ll (socks_request 1 addr port @ stale2) (length (socks_request 1 addr port)) ?w1 =
      Inr (w2, [CsToPeer (peer_conn_id (mux w))
        (make_frame st SYN Socks5Connect (encode_syn_payload (addr_text addr) port))])"
    by (rule process_socks [OF w2(1)]) (simp_all add: w2(2))
  let ?w3 = "cs_upd (\<lambda>s. s\<lparr>cs_phase := Connected\<rparr>) w2"
  have sy: "p2p_synack ue True Socks5Connect w2 =
      Inr (?w3, [CsTcp (EvSend [0x05, 0x00, 0x00, 0x01, 0, 0, 0, 0, 0, 0])])"
    using new(2) by (simp add: p2p_synack_def synack_reply_def send_socks_reply_def andThen_def
        sock_send_run set_phase_run w2(2))
  have sid: "stream_id ?w3 = Inr st" using w2(2,3) by (auto simp: stream_id_def)
  have "process_data ll (data @ stale3) (length data) ?w3 =
      Inr (?w3, [CsToPeer (peer_conn_id (mux w)) (make_frame st DATA Socks5Connect data)])"
    using peer_data_run [OF sid] w2(4,5) by (simp add: process_data_def w2(2))
  with g r sy show ?thesis by blast
qed

text \<open>A system for the witnesses: debug lines are not logged, the socket is open on port 5000.\<close>

definition plain_udp_env :: udp_env where
  "plain_udp_env = \<lparr>ue_v4 = (\<lambda>h. if h = ''10.0.0.2'' then Some [10, 0, 0, 2] else None),
     ue_local_ip = ''10.0.0.2'', ue_debug = False, ue_port_at_start = None,
     ue_port_at_reply = Some 5000, ue_garbage = 0\<rparr>"

theorem socks_connect_served_witness:
  "\<exists>w w1 w2.
     process_data idle_llhttp ([5, 1, 0] @ []) 3 w = Inr (w1, [CsTcp (EvSend [0x05, 0x00])]) \<and>
     process_data idle_llhttp (socks_request 1 (AddrDomain ''a.b'') 80 @ [])
       (length (socks_request 1 (AddrDomain ''a.b'') 80)) w1 =
       Inr (w2, [CsToPeer 4 (make_frame 77 SYN Socks5Connect (encode_syn_payload ''a.b'' 80))])"
proof -
  define w where "w = \<lparr>cs = Socks5Session_new idle_llhttp 1, mux = set_send_func (SessionMux_new 4), draws = [77]\<rparr>"
  have w: "cs w = Socks5Session_new idle_llhttp 1" "send_func_set (mux w)"
    "gen_stream_id (manager (mux w)) (draws w) = Some (77, [])" and conn: "peer_conn_id (mux w) = 4"
    by (simp_all add: w_def set_send_func_def SessionMux_new_def SessionManager_new_def)
  have "wf_addr (AddrDomain ''a.b'')" by simp
  note t = socks_connect_served [OF w this, where m = 0 and ?stale1.0 = "[]" and port = 80 and ?stale2.0 = "[]"
      and ue = plain_udp_env and data = "[]" and ?stale3.0 = "[]"]
  from t obtain w1 w2 where
    1: "process_data idle_llhttp ([5, 1, 0] @ []) 3 w = Inr (w1, [CsTcp (EvSend [0x05, 0x00])])" and
    2: "process_data idle_llhttp (socks_request 1 (AddrDomain ''a.b'') 80 @ [])
       (length (socks_request 1 (AddrDomain ''a.b'') 80)) w1 =
       Inr (w2, [CsToPeer 4 (make_frame 77 SYN Socks5Connect (encode_syn_payload ''a.b'' 80))])"
    unfolding conn addr_text.simps by (elim exE conjE) (rule that)
  show ?thesis by (rule exI, rule exI, rule exI, rule conjI [OF 1 2])
qed

text \<open>Reading a segment is memory safe: the SOCKS5 handlers and the forwarding of a live session
never leave the 8192-byte receive buffer nor follow a null pointer, whatever was received and
whatever llhttp reports, and the session stays live.\<close>
theorem process_data_memory_safe:
  assumes "sess_ok w" "length d = 8192" "len \<le> 8192"
  shows "process_data ll d len w \<noteq> Inl OutOfBounds \<and> process_data ll d len w \<noteq> Inl NullDeref \<and>
    (\<forall>w' acts. process_data ll d len w = Inr (w', acts) \<longrightarrow> sess_ok w')"
  using fine_process_data [OF assms, of ll] by (cases "process_data ll d len w" rule: fine.cases) (auto simp: no_ub_def)

theorem process_data_memory_safe_witness:
  "process_data idle_llhttp (replicate 8192 5) 700
     \<lparr>cs = Socks5Session_new idle_llhttp 1, mux = set_send_func (SessionMux_new 4), draws = []\<rparr> \<noteq> Inl OutOfBounds"
proof -
  let ?w = "\<lparr>cs = Socks5Session_new idle_llhttp 1, mux = set_send_func (SessionMux_new 4), draws = []\<rparr>"
  have "sess_ok ?w" by (simp add: sess_ok_def Socks5Session_new_def)
  from process_data_memory_safe [OF this, of "replicate 8192 5" 700 idle_llhttp] show ?thesis by simp
qed

text \<open>The three cases of a greeting that arrives whole, by the number of its methods.\<close>

lemma one_method_greeting:
  assumes "cs w = Socks5Session_new ll sid" "send_func_set (mux w)"
    and "gen_stream_id (manager (mux w)) (draws w) = Some (st, ds)" "wf_addr addr"
  shows "\<exists>w1 w2. process_data ll ([5, 1, 0] @ stale1) 3 w = Inr (w1, [CsTcp (EvSend [0x05, 0x00])]) \<and>
    process_data ll (socks_request cmd addr port @ stale2) (length (socks_request cmd addr port)) w1 =
      Inr (w2, [CsToPeer (peer_conn_id (mux w))
        (make_frame st SYN Socks5Connect (encode_syn_payload (addr_text addr) port))])"
proof -
  let ?w1 = "cs_upd (\<lambda>s. s\<lparr>cs_phase := WaitSocksTCP, cs_protocol := Socks5Connect\<rparr>) w"
  have new: "cs_phase (cs w) = WaitGreetingVersion" "cs_tcp (cs w)"
    by (simp_all add: assms(1) Socks5Session_new_def)
  have g: "process_data ll ([5, 1, 0] @ stale1) 3 w = Inr (?w1, [CsTcp (EvSend [0x05, 0x00])])"
    by (rule process_socks [OF greeting_loop [OF new refl]]) (simp_all add: new)
  have long: "2 < length (socks_request cmd addr port)" by (cases addr) (simp_all add: socks_request_def)
  have "gen_stream_id (manager (mux ?w1)) (draws ?w1) = Some (st, ds)" "send_func_set (mux ?w1)"
    "cs_phase (cs ?w1) = WaitSocksTCP \<or> cs_phase (cs ?w1) = WaitSocksUDP"
    using assms(2,3) by simp_all
  note rr = request_run [where addr = addr and port = port and cmd = cmd and stale = stale2,
      OF this(3) long assms(4) refl this(1,2)]
  obtain w2 where w2: "consume_loop (socks_request cmd addr port @ stale2) (length (socks_request cmd addr port)) 0 ?w1 =
      Inr (True, w2, [CsToPeer (peer_conn_id (mux w))
        (make_frame st SYN Socks5Connect (encode_syn_payload (addr_text addr) port))])"
    "cs_phase (cs w2) = Connecting"
    by (rule rr) auto
  have "process_data ll (socks_request cmd addr port @ stale2) (length (socks_request cmd addr port)) ?w1 =
      Inr (w2, [CsToPeer (peer_conn_id (mux w))
        (make_frame st SYN Socks5Connect (encode_syn_payload (addr_text addr) port))])"
    by (rule process_socks [OF w2(1)]) (simp_all add: w2(2))
  with g show ?thesis by blast
qed

lemma three_methods_greeting:
  assumes "cs w = Socks5Session_new ll sid"
  shows "\<exists>w1. process_data ll ([5, 3, m0, m1, m2] @ stale) 5 w =
      Inr (w1, CsTcp (EvSend [0x05, 0x00]) # second_method_calls m1) \<and>
    cs_protocol (cs w1) = UdpAssociate \<and> cs_phase (cs w1) = second_method_phase m1"
proof -
  have new: "cs_phase (cs w) = WaitGreetingVersion" "cs_tcp (cs w)"
    by (simp_all add: assms Socks5Session_new_def)
  let ?w3 = "cs_upd (\<lambda>s. s\<lparr>cs_phase := second_method_phase m1, cs_protocol := UdpAssociate\<rparr>) w"
  from three_methods_loop [OF new refl] obtain go where
    "consume_loop ([5, 3, m0, m1, m2] @ stale) 5 0 w = Inr (go, ?w3, CsTcp (EvSend [0x05, 0x00]) # second_method_calls m1)"
    by blast
  from process_socks [OF this] new show ?thesis by (simp add: second_method_phase_def)
qed

lemma refused_greeting:
  assumes "cs w = Socks5Session_new ll sid" "n \<noteq> 1" "n \<noteq> 3" "0 < length methods"
  shows "\<exists>w1. process_data ll ([5, n] @ methods @ stale) (2 + length methods) w =
    Inr (w1, [CsTcp (EvSend [0x05, 0x00]),
      CsTcp (EvSend [0x05, 0x07, 0x00, 0x01, 0, 0, 0, 0, 0, 0]), CsTcp EvClose])"
proof -
  have new: "cs_phase (cs w) = WaitGreetingVersion" "cs_tcp (cs w)"
    by (simp_all add: assms(1) Socks5Session_new_def)
  from assms(4) have "2 < 2 + length methods" by simp
  from refused_loop [OF new refl this assms(2,3), of "methods @ stale"] obtain w' where
    "consume_loop ([5, n] @ methods @ stale) (2 + length methods) 0 w =
     Inr (False, w', [CsTcp (EvSend [0x05, 0x00]),
        CsTcp (EvSend [0x05, 0x07, 0x00, 0x01, 0, 0, 0, 0, 0, 0]), CsTcp EvClose])" by blast
  from process_socks [OF this] show ?thesis by (simp add: new)
qed



text \<open>A request cut after its address type is not waited for: the address and the port are taken from
whatever an earlier read left in the buffer, and the SYN goes out for that stale target.\<close>
theorem short_request_uses_stale_bytes:
  assumes "cs_phase (cs w) = WaitSocksTCP" "send_func_set (mux w)"
    and "gen_stream_id (manager (mux w)) (draws w) = Some (st, ds)"
    and "d = [5, 1, 0, 1] @ [a, b, c, e, ucast (drop_bit 8 port), ucast (port AND 0xFF)] @ rest"
  shows "\<exists>w'. process_data ll d 4 w = Inr (w', [CsToPeer (peer_conn_id (mux w))
      (make_frame st SYN (cs_protocol (cs w)) (encode_syn_payload (ipv4_text a b c e) port))])"
proof -
  have d: "d = socks_request 1 (AddrIpv4 a b c e) port @ rest" by (simp add: assms(4) socks_request_def)
  have ph: "cs_phase (cs w) = WaitSocksTCP \<or> cs_phase (cs w) = WaitSocksUDP" using assms(1) by simp
  have "2 < (4 :: nat)" "wf_addr (AddrIpv4 a b c e)" by simp_all
  note rr = request_run [OF ph this d assms(3,2)]
  obtain w' where w': "consume_loop d 4 0 w = Inr (True, w', [CsToPeer (peer_conn_id (mux w))
      (make_frame st SYN (cs_protocol (cs w)) (encode_syn_payload (ipv4_text a b c e) port))])"
    "cs_phase (cs w') = Connecting"
    by (rule rr) auto
  have "process_data ll d 4 w = Inr (w', [CsToPeer (peer_conn_id (mux w))
      (make_frame st SYN (cs_protocol (cs w)) (encode_syn_payload (ipv4_text a b c e) port))])"
    by (rule process_socks [OF w'(1)]) (simp_all add: w'(2) assms(1))
  then show ?thesis by blast
qed

theorem short_request_uses_stale_bytes_witness:
  "\<exists>w'. process_data idle_llhttp ([5, 1, 0, 1] @ [9, 9, 9, 9, ucast (drop_bit 8 (80 :: u16)), ucast ((80 :: u16) AND 0xFF)] @ []) 4
      \<lparr>cs = (Socks5Session_new idle_llhttp 1)\<lparr>cs_phase := WaitSocksTCP, cs_protocol := Socks5Connect\<rparr>,
       mux = set_send_func (SessionMux_new 4), draws = [77]\<rparr> =
    Inr (w', [CsToPeer 4 (make_frame 77 SYN Socks5Connect (encode_syn_payload (ipv4_text 9 9 9 9) 80))])"
proof -
  let ?w = "\<lparr>cs = (Socks5Session_new idle_llhttp 1)\<lparr>cs_phase := WaitSocksTCP, cs_protocol := Socks5Connect\<rparr>,
       mux = set_send_func (SessionMux_new 4), draws = [77]\<rparr>"
  have w: "cs_phase (cs ?w) = WaitSocksTCP" "send_func_set (mux ?w)"
    "gen_stream_id (manager (mux ?w)) (draws ?w) = Some (77, [])"
    and c: "peer_conn_id (mux ?w) = 4" "cs_protocol (cs ?w) = Socks5Connect"
    by (simp_all add: set_send_func_def SessionMux_new_def SessionManager_new_def)
  from short_request_uses_stale_bytes [OF w refl, where a = 9 and b = 9 and c = 9 and e = 9
      and port = 80 and rest = "[]" and ll = idle_llhttp] show ?thesis
    unfolding c .
qed

text \<open>A response of the peer is forwarded whole: for a response llhttp reports, in any number of
segments and of fragments, the local connection is sent its head (the start line and the headers in
order), then its body (re-encoded in chunks with the last chunk at the end when it came chunked, as
it is otherwise), and nothing else.\<close>
theorem http_response_forwarded:
  assumes "http_response_parser (cs w) = http_response_parser (Socks5Session_new ll sid)" "cs_tcp (cs w)"
    and "ll_run ll (ll_init ll Response) segs = Some (message_events Response ls fvs i parts, l)"
    and "\<forall>fv\<in>set fvs. fst fv \<noteq> [] \<and> snd fv \<noteq> []"
  shows "\<exists>w' bufs. for_each (\<lambda>seg. p2p_data ll v4 (bytes_of_string seg) (length seg) HttpPlain) segs w =
      Inr (w', map (\<lambda>b. CsTcp (EvSend (bytes_of_string b))) bufs) \<and>
    concat bufs = serialize_headers_only False None (described Response i (concat ls) (map whole_header fvs)) @
      (if flag_chunked i then concat (map chunk parts) @ last_chunk else concat parts)"
proof -
  let ?p = "http_response_parser (Socks5Session_new ll sid)"
  have p: "relay_parser Response ?p" "hp_lib ?p = ll_init ll Response"
    by (simp_all add: relay_parser_def Socks5Session_new_def HttpParser_new_def hp_init_def
        set_on_message_complete_def set_on_error_def set_on_body_def set_on_headers_complete_def)
  have "(\<lambda>seg. p2p_data ll v4 (bytes_of_string seg) (length seg) HttpPlain) = response_relay.feed_all ll"
    by (rule ext, rule ext) (simp add: p2p_data_def rd_range_def feed_response_relay)
  moreover have "ll_run ll (hp_lib ?p) segs = Some (message_events Response ls fvs i parts, l)"
    using assms(3) p(2) by simp
  note response_relay.message_relayed [OF assms(2,1) p(1) assms(4) this]
  ultimately show ?thesis by (auto simp: relayed_body_def)
qed

theorem http_response_forwarded_witness:
  "\<exists>ll :: unit llhttp. \<exists>w' bufs. for_each (\<lambda>seg. p2p_data ll (\<lambda>_. None) (bytes_of_string seg) (length seg) HttpPlain) [''x'', ''y'']
       \<lparr>cs = Socks5Session_new ll 1, mux = SessionMux_new 4, draws = []\<rparr> =
      Inr (w', map (\<lambda>b. CsTcp (EvSend (bytes_of_string b))) bufs) \<and>
    (\<exists>head. concat bufs = head @ ''abc'')"
proof -
  define i where "i = \<lparr>http_major = 1, http_minor = 1, ll_method = [], ll_status = 200, flag_chunked = False,
      flag_keep_alive = False, flag_close = False, flag_content_length = True, ll_content_length = 3,
      ll_upgrade = False, should_keep_alive = True\<rparr>"
  define es where "es = message_events Response [''OK''] [([''A''], [''1''])] i [''a'', ''bc'']"
  let ?ll = "\<lparr>ll_init = \<lambda>_. (), ll_execute = \<lambda>l d. (if d = ''x'' then es else [], LlOk, l), ll_resume = \<lambda>l. l\<rparr>"
  let ?w = "\<lparr>cs = Socks5Session_new ?ll 1, mux = SessionMux_new 4, draws = []\<rparr>"
  have "http_response_parser (cs ?w) = http_response_parser (Socks5Session_new ?ll 1)" "cs_tcp (cs ?w)"
    "ll_run ?ll (ll_init ?ll Response) [''x'', ''y''] = Some (message_events Response [''OK''] [([''A''], [''1''])] i [''a'', ''bc''], ())"
    "\<forall>fv\<in>set [([''A''], [''1''])]. fst fv \<noteq> [] \<and> snd fv \<noteq> []"
    by (simp_all add: es_def Socks5Session_new_def)
  from http_response_forwarded [OF this, of "\<lambda>_. None"] obtain w' bufs where
    "for_each (\<lambda>seg. p2p_data ?ll (\<lambda>_. None) (bytes_of_string seg) (length seg) HttpPlain) [''x'', ''y''] ?w =
      Inr (w', map (\<lambda>b. CsTcp (EvSend (bytes_of_string b))) bufs)" "\<exists>head. concat bufs = head @ ''abc''"
    by (auto simp: i_def)
  then show ?thesis by blast
qed

text \<open>C24: The application reads the body the target sent: for a response llhttp reports, in any number of
segments from the peer and of body fragments that are not empty, the bytes sent to the application are the
head and a body, which a decoder of chunked bodies reads back as the fragments put together, with nothing
of what follows consumed, when the response came chunked (the client encodes it anew, as the library hands
over the body without its chunks), and which is the fragments themselves when it did not.\<close>
theorem response_body_decodes:
  assumes "http_response_parser (cs w) = http_response_parser (Socks5Session_new ll sid)" "cs_tcp (cs w)"
    and "ll_run ll (ll_init ll Response) segs = Some (message_events Response ls fvs i parts, l)"
    and "\<forall>fv\<in>set fvs. fst fv \<noteq> [] \<and> snd fv \<noteq> []" "\<forall>d\<in>set parts. d \<noteq> []"
  shows "\<exists>w' bufs tail. for_each (\<lambda>seg. p2p_data ll v4 (bytes_of_string seg) (length seg) HttpPlain) segs w =
      Inr (w', map (\<lambda>b. CsTcp (EvSend (bytes_of_string b))) bufs) \<and>
    concat bufs = serialize_headers_only False None (described Response i (concat ls) (map whole_header fvs)) @ tail \<and>
    (if flag_chunked i then decode_chunks (tail @ rest) = Some (concat parts, rest) else tail = concat parts)"
proof -
  let ?tail = "if flag_chunked i then concat (map chunk parts) @ last_chunk else concat parts"
  from http_response_forwarded [OF assms(1-4), of v4] obtain w' bufs where
    "for_each (\<lambda>seg. p2p_data ll v4 (bytes_of_string seg) (length seg) HttpPlain) segs w =
      Inr (w', map (\<lambda>b. CsTcp (EvSend (bytes_of_string b))) bufs)"
    "concat bufs = serialize_headers_only False None (described Response i (concat ls) (map whole_header fvs)) @ ?tail" by blast
  moreover have "if flag_chunked i then decode_chunks (?tail @ rest) = Some (concat parts, rest) else ?tail = concat parts"
    using chunk_stream_decodes [OF assms(5), of rest] by simp
  ultimately show ?thesis by blast
qed

theorem response_body_decodes_witness:
  "\<exists>ll :: unit llhttp. \<exists>w' bufs head tail. for_each (\<lambda>seg. p2p_data ll (\<lambda>_. None) (bytes_of_string seg) (length seg) HttpPlain) [''x'', ''y'']
       \<lparr>cs = Socks5Session_new ll 1, mux = SessionMux_new 4, draws = []\<rparr> =
      Inr (w', map (\<lambda>b. CsTcp (EvSend (bytes_of_string b))) bufs) \<and>
    concat bufs = head @ tail \<and> decode_chunks (tail @ ''Z'') = Some (''abc'', ''Z'')"
proof -
  define i where "i = \<lparr>http_major = 1, http_minor = 1, ll_method = [], ll_status = 200, flag_chunked = True,
      flag_keep_alive = False, flag_close = False, flag_content_length = False, ll_content_length = 0,
      ll_upgrade = False, should_keep_alive = True\<rparr>"
  define es where "es = message_events Response [''OK''] [([''A''], [''1''])] i [''a'', ''bc'']"
  let ?ll = "\<lparr>ll_init = \<lambda>_. (), ll_execute = \<lambda>l d. (if d = ''x'' then es else [], LlOk, l), ll_resume = \<lambda>l. l\<rparr>"
  let ?w = "\<lparr>cs = Socks5Session_new ?ll 1, mux = SessionMux_new 4, draws = []\<rparr>"
  have "http_response_parser (cs ?w) = http_response_parser (Socks5Session_new ?ll 1)" "cs_tcp (cs ?w)"
    "ll_run ?ll (ll_init ?ll Response) [''x'', ''y''] = Some (message_events Response [''OK''] [([''A''], [''1''])] i [''a'', ''bc''], ())"
    "\<forall>fv\<in>set [([''A''], [''1''])]. fst fv \<noteq> [] \<and> snd fv \<noteq> []" "\<forall>d\<in>set [''a'', ''bc'']. d \<noteq> []"
    by (simp_all add: es_def Socks5Session_new_def)
  from response_body_decodes [OF this, of "\<lambda>_. None" "''Z''"] obtain w' bufs tail where
    "for_each (\<lambda>seg. p2p_data ?ll (\<lambda>_. None) (bytes_of_string seg) (length seg) HttpPlain) [''x'', ''y''] ?w =
      Inr (w', map (\<lambda>b. CsTcp (EvSend (bytes_of_string b))) bufs)"
    "\<exists>head. concat bufs = head @ tail" "decode_chunks (tail @ ''Z'') = Some (''abc'', ''Z'')"
    by (auto simp: i_def)
  then show ?thesis by blast
qed

text \<open>Bytes read while the request's headers are incomplete are kept, whatever the parser calls.\<close>

definition keeps_pending :: "'l cs_handler \<Rightarrow> bool" where
  "keeps_pending m \<longleftrightarrow> (\<forall>w w' a. m w = Inr (w', a) \<longrightarrow> pending_buf (cs w') = pending_buf (cs w))"

lemma keeps_andThen: "keeps_pending m \<Longrightarrow> keeps_pending k \<Longrightarrow> keeps_pending (andThen m k)"
  unfolding keeps_pending_def andThen_Inr by metis

lemma keeps_simps:
  "keeps_pending (on_socket e)" "keeps_pending skip" "keeps_pending (emit acts)"
  "(\<And>s. pending_buf (f s) = pending_buf s) \<Longrightarrow> keeps_pending (modify (cs_upd f))"
  by (simp_all add: keeps_pending_def on_socket_def emit_def skip_def modify_def)

lemma keeps_request: "keeps_pending request_remote_connect"
  by (auto simp: keeps_pending_def request_remote_connect_def Let_def andThen_Inr cbind_eq_Inr emit_def
      modify_def split: option.splits)

lemma keeps_request_upcall: "keeps_pending (on_request_upcall u)"
proof (cases u rule: on_request_upcall.cases)
  case (1 msg p)
  have "keeps_pending (andThen (modify (cs_upd (\<lambda>s. s\<lparr>cs_protocol := pr\<rparr>))) request_remote_connect)"
    for pr :: protocol
    by (intro keeps_andThen keeps_request keeps_simps) simp
  note k = this keeps_simps(1)
  show ?thesis
    unfolding keeps_pending_def 1 on_request_upcall.simps on_request_headers_def
    by (auto simp: Let_def cbind_eq_Inr split: if_splits dest: k [unfolded keeps_pending_def, rule_format])
qed (simp_all add: keeps_simps)

lemma keeps_for_each: "(\<And>u. keeps_pending (f u)) \<Longrightarrow> keeps_pending (for_each f us)"
  by (induction us) (simp_all add: keeps_simps keeps_andThen)

lemma http_bytes_kept:
  assumes "cs_phase (cs w) = WaitHttpRequestHeaders" "process_data ll b (length b) w = Inr (w', acts)"
  shows "pending_buf (cs w') = pending_buf (cs w) @ [b]"
proof -
  from assms obtain w1 a1 where "feed_request ll (string_of_bytes b) w = Inr (w1, a1)"
    "pending_buf (cs w') = pending_buf (cs w1) @ [b]"
    by (auto simp: process_data_def consume_pending_def loop_stop leaves_loop_def cbind_eq_Inr andThen_Inr
        modify_def)
  moreover have "keeps_pending (feed_request ll (string_of_bytes b))"
  proof -
    have "keeps_pending (for_each on_request_upcall us)" for us
      by (rule keeps_for_each) (rule keeps_request_upcall)
    note k = this
    show ?thesis
      unfolding keeps_pending_def
    proof (intro allI impI)
      fix w w' :: "'a client_world" and a
      assume run: "feed_request ll (string_of_bytes b) w = Inr (w', a)"
      obtain ok ups q where "feed ll (string_of_bytes b) (http_request_parser (cs w)) = (ok, ups, q)"
        by (cases "feed ll (string_of_bytes b) (http_request_parser (cs w))")
      with run have "for_each on_request_upcall ups (cs_upd (\<lambda>s. s\<lparr>http_request_parser := q\<rparr>) w) = Inr (w', a)"
        by (simp add: feed_request_def)
      with k [of ups] have "pending_buf (cs w') = pending_buf (cs (cs_upd (\<lambda>s. s\<lparr>http_request_parser := q\<rparr>) w))"
        unfolding keeps_pending_def by blast
      then show "pending_buf (cs w') = pending_buf (cs w)" by simp
    qed
  qed
  ultimately show ?thesis by (simp add: keeps_pending_def)
qed

text \<open>Segments read one after the other, each while the headers are still incomplete.\<close>

fun read_segments :: "'l llhttp \<Rightarrow> bytes list \<Rightarrow> 'l cs_handler" where
  "read_segments ll [] = skip"
| "read_segments ll (b # bs) = andThen (process_data ll b (length b)) (read_segments ll bs)"

fun all_pending :: "'l llhttp \<Rightarrow> bytes list \<Rightarrow> 'l client_world \<Rightarrow> bool" where
  "all_pending ll [] w = True"
| "all_pending ll (b # bs) w =
     (cs_phase (cs w) = WaitHttpRequestHeaders \<and>
      (case process_data ll b (length b) w of Inl _ \<Rightarrow> False | Inr (w1, _) \<Rightarrow> all_pending ll bs w1))"

lemma read_segments_kept:
  "all_pending ll bs w \<Longrightarrow> read_segments ll bs w = Inr (w', acts) \<Longrightarrow>
     pending_buf (cs w') = pending_buf (cs w) @ bs"
proof (induction bs arbitrary: w acts)
  case (Cons b bs)
  from Cons.prems(2) obtain w1 a1 a2 where
    p: "process_data ll b (length b) w = Inr (w1, a1)" and r: "read_segments ll bs w1 = Inr (w', a2)"
    by (auto simp: andThen_Inr)
  from Cons.prems(1) p have "cs_phase (cs w) = WaitHttpRequestHeaders" "all_pending ll bs w1" by auto
  with http_bytes_kept [OF _ p] Cons.IH [OF _ r] show ?case by simp
qed (simp add: skip_def)

lemma flush_pending:
  assumes "stream_id w = Inr sid" "send_func_set (mux w)"
  shows "for_each (\<lambda>b. peer_data b (length b)) bufs w =
    Inr (w, map (\<lambda>b. CsToPeer (peer_conn_id (mux w)) (make_frame sid DATA (cs_protocol (cs w)) b)) bufs)"
proof (induction bufs)
  case (Cons b bufs)
  with peer_data_run [OF assms, of b "[]"] show ?case by (simp add: andThen_def)
qed (simp add: skip_def)

text \<open>A plain HTTP request reaches the peer unchanged: every segment read up to and including the one
that completes its headers is kept, whatever the parser makes of it, and when the peer reports the
connection all of them are sent, in order and byte for byte, on the session's stream; then the session
is connected.\<close>
theorem http_request_forwarded:
  assumes "all_pending ll segs w" "read_segments ll segs w = Inr (w1, acts)" "pending_buf (cs w) = []"
    and "stream_id w1 = Inr sid" "send_func_set (mux w1)"
  shows "\<exists>w2. p2p_synack ue True HttpPlain w1 = Inr (w2, map (\<lambda>b.
      CsToPeer (peer_conn_id (mux w1)) (make_frame sid DATA (cs_protocol (cs w1)) b)) segs) \<and>
    pending_buf (cs w2) = [] \<and> cs_phase (cs w2) = Connected"
proof -
  from read_segments_kept [OF assms(1,2)] assms(3) have "pending_buf (cs w1) = segs" by simp
  with flush_pending [OF assms(4,5), of segs] show ?thesis
    by (simp add: p2p_synack_def synack_reply_def http_connected_def andThen_def modify_def set_phase_run)
qed

text \<open>What the application sends between the end of the request's headers and the peer's answer is
lost: while a session waits for the peer it neither keeps nor forwards what it reads.\<close>
theorem connecting_drops_data:
  assumes "cs_phase (cs w) = Connecting" "cs_tcp (cs w)" "stream_id w = Inr sid" "send_func_set (mux w)"
  shows "process_data ll d len w = Inr (w, []) \<and>
    (\<exists>w2. p2p_synack ue True HttpPlain w = Inr (w2, map (\<lambda>b.
      CsToPeer (peer_conn_id (mux w)) (make_frame sid DATA (cs_protocol (cs w)) b)) (pending_buf (cs w))))"
  using assms flush_pending [OF assms(3,4), of "pending_buf (cs w)"]
  by (simp add: process_data_def consume_pending_def loop_stop leaves_loop_def p2p_synack_def
      synack_reply_def http_connected_def andThen_def modify_def set_phase_run)

text \<open>A session in the middle of an HTTP request, for the witnesses.\<close>

definition http_world :: "phase \<Rightarrow> unit client_world" where
  "http_world ph =
     \<lparr>cs = (Socks5Session_new idle_llhttp 1)\<lparr>cs_phase := ph, cs_protocol := HttpPlain, cs_sess := Some 0\<rparr>,
      mux = (set_send_func (SessionMux_new 4))\<lparr>manager := snd (create_session_at SessionManager_new 77)\<rparr>,
      draws = []\<rparr>"

lemma http_world_stream: "stream_id (http_world ph) = Inr 77" "send_func_set (mux (http_world ph))"
  "peer_conn_id (mux (http_world ph)) = 4" "cs_phase (cs (http_world ph)) = ph" "cs_tcp (cs (http_world ph))"
  "pending_buf (cs (http_world ph)) = []" "cs_protocol (cs (http_world ph)) = HttpPlain"
  by (simp_all add: http_world_def stream_id_def create_session_at_def Let_def SessionManager_new_def
      Session_new_def set_send_func_def SessionMux_new_def Socks5Session_new_def)

theorem http_request_forwarded_witness:
  "\<exists>w1 w2. read_segments idle_llhttp [[71], [69]] (http_world WaitHttpRequestHeaders) = Inr (w1, []) \<and>
     p2p_synack plain_udp_env True HttpPlain w1 =
       Inr (w2, [CsToPeer 4 (make_frame 77 DATA HttpPlain [71]), CsToPeer 4 (make_frame 77 DATA HttpPlain [69])])"
proof -
  let ?w = "http_world WaitHttpRequestHeaders"
  have step: "process_data idle_llhttp [b] (length [b]) w =
      Inr (cs_upd (\<lambda>s. s\<lparr>pending_buf := pending_buf s @ [[b]]\<rparr>) w, [])"
    if "cs_phase (cs w) = WaitHttpRequestHeaders" "\<not> had_error (http_request_parser (cs w))"
    for w :: "unit client_world" and b
    using that by (simp add: process_data_def consume_pending_def loop_stop leaves_loop_def feed_request_def
        feed_def idle_llhttp_def rd_range_def andThen_def skip_def modify_def cs_upd_def)
  have err: "\<not> had_error (http_request_parser (cs ?w))"
    by (simp add: http_world_def Socks5Session_new_def HttpParser_new_def hp_init_def
        set_on_error_def set_on_headers_complete_def)
  let ?w1 = "cs_upd (\<lambda>s. s\<lparr>pending_buf := pending_buf s @ [[69]]\<rparr>)
      (cs_upd (\<lambda>s. s\<lparr>pending_buf := pending_buf s @ [[71]]\<rparr>) ?w)"
  have ap: "all_pending idle_llhttp [[71], [69]] ?w"
    by (simp add: step [simplified] err http_world_stream)
  have rs: "read_segments idle_llhttp [[71], [69]] ?w = Inr (?w1, [])"
    by (simp add: andThen_def step [simplified] err http_world_stream skip_def)
  have sid: "stream_id ?w1 = Inr 77" "send_func_set (mux ?w1)" "peer_conn_id (mux ?w1) = 4"
      "cs_protocol (cs ?w1) = HttpPlain"
    using http_world_stream(1) [of WaitHttpRequestHeaders] by (simp_all add: stream_id_upd http_world_stream)
  from http_request_forwarded [OF ap rs http_world_stream(6) sid(1,2), of plain_udp_env] rs
  show ?thesis unfolding sid(3,4) by auto
qed

theorem connecting_drops_data_witness:
  "process_data idle_llhttp [1, 2, 3] 3 (http_world Connecting) = Inr (http_world Connecting, [])"
  using connecting_drops_data [OF http_world_stream(4,5,1,2) [of Connecting]] by blast

text \<open>C30: A UDP association gets the wrong stream: the session's UDP side is made with the session's own
number, not with the stream id the peer knows, so every datagram of the application goes out on the
stream named by that number; the reply to the application still names the local UDP socket. When the
socket is not open yet, making the reply throws.\<close>
theorem udp_association_stream:
  assumes "cs_udp (cs w) = None" "cs_tcp (cs w)" "\<not> ue_debug ue" "ue_v4 ue (ue_local_ip ue) = Some addr"
    and "length data < 2 ^ 32" "send_func_set x"
  shows "(ue_port_at_reply ue = Some port \<longrightarrow>
      (\<exists>w' u f. p2p_synack ue True UdpAssociate w = Inr (w', [CsUdp (CuSockStart 0),
          CsTcp (EvSend ([5, 0, 0, 1] @ addr @ [ucast (drop_bit 8 port), ucast (port AND 0xFF)]))]) \<and>
        cs_udp (cs w') = Some u \<and>
        send_p2p_data x (socks_udp_ipv4 a b c e p data @ rest) (10 + length data) u = Inr [CuToPeer (peer_conn_id x) f] \<and>
        FrameHeader_decode f (length f) =
          Inr (Some \<lparr>fh_stream_id = cs_session_id (cs w), fh_type = DATA, fh_protocol = UdpAssociate\<rparr>))) \<and>
    (ue_port_at_reply ue = None \<longrightarrow> p2p_synack ue True UdpAssociate w = Inl SystemError)"
proof -
  let ?u = "UdpSession_new (cs_session_id (cs w)) (ue_garbage ue)"
  let ?w1 = "cs_upd (\<lambda>s. s\<lparr>cs_udp := Some ?u\<rparr>) w"
  have start: "cu_start (ue_debug ue) now ?u = Inr (True, ?u, [CuSockStart 0])" for now
    using assms(3) by (simp add: cu_start_def UdpSession_new_def)
  have port: "cu_getLocalPort now ?u = (case now of None \<Rightarrow> Inl SystemError | Some p \<Rightarrow> Inr p)" for now
    by (simp add: cu_getLocalPort_def UdpSession_new_def)
  obtain pl where sent: "send_p2p_data x (socks_udp_ipv4 a b c e p data @ rest) (10 + length data) ?u =
       Inr (frame_out (mux_send x (make_frame (cu_session_id ?u) DATA UdpAssociate pl)))"
    by (rule send_ipv4_eq [OF assms(5)])
  let ?f = "make_frame (cs_session_id (cs w)) DATA UdpAssociate pl"
  have f: "send_p2p_data x (socks_udp_ipv4 a b c e p data @ rest) (10 + length data) ?u =
      Inr [CuToPeer (peer_conn_id x) ?f]"
    using sent assms(6) by (simp add: mux_send_def frame_out_def UdpSession_new_def)
  have hd: "FrameHeader_decode ?f (length ?f) =
      Inr (Some \<lparr>fh_stream_id = cs_session_id (cs w), fh_type = DATA, fh_protocol = UdpAssociate\<rparr>)"
    by (rule FrameHeader_decode_make_frame) simp_all
  have some: "p2p_synack ue True UdpAssociate w = Inr (cs_upd (\<lambda>s. s\<lparr>cs_phase := Connected\<rparr>) ?w1,
      [CsUdp (CuSockStart 0),
       CsTcp (EvSend ([5, 0, 0, 1] @ addr @ [ucast (drop_bit 8 port), ucast (port AND 0xFF)]))])"
    if "ue_port_at_reply ue = Some port"
    using assms(1,2,4) that
    by (simp add: p2p_synack_def synack_reply_def udp_connected_def start andThen_def emit_def
        port send_udp_reply_def sock_send_run set_phase_run Let_def)
  have none: "p2p_synack ue True UdpAssociate w = Inl SystemError" if "ue_port_at_reply ue = None"
    using assms(1) that
    by (simp add: p2p_synack_def synack_reply_def udp_connected_def start andThen_def emit_def
        port Let_def)
  from some none f hd show ?thesis by auto
qed

theorem udp_association_stream_witness:
  "\<exists>w' u f. p2p_synack plain_udp_env True UdpAssociate (http_world Connecting) = Inr (w', [CsUdp (CuSockStart 0),
      CsTcp (EvSend [5, 0, 0, 1, 10, 0, 0, 2, 19, 136])]) \<and> cs_udp (cs w') = Some u \<and>
    send_p2p_data (mux (http_world Connecting)) (socks_udp_ipv4 8 8 8 8 53 [7] @ []) 11 u = Inr [CuToPeer 4 f] \<and>
    FrameHeader_decode f (length f) = Inr (Some \<lparr>fh_stream_id = 1, fh_type = DATA, fh_protocol = UdpAssociate\<rparr>) \<and>
    stream_id (http_world Connecting) = Inr 77"
proof -
  have none: "cs_udp (cs (http_world Connecting)) = None" "cs_session_id (cs (http_world Connecting)) = 1"
    by (simp_all add: http_world_def Socks5Session_new_def)
  have env: "\<not> ue_debug plain_udp_env" "ue_v4 plain_udp_env (ue_local_ip plain_udp_env) = Some [10, 0, 0, 2]"
    "ue_port_at_reply plain_udp_env = Some 5000" by (simp_all add: plain_udp_env_def)
  from udp_association_stream [where w = "http_world Connecting" and x = "mux (http_world Connecting)"
      and ue = plain_udp_env and data = "[7]" and rest = "[]" and a = 8 and b = 8 and c = 8 and e = 8
      and p = 53 and addr = "[10, 0, 0, 2]" and port = 5000]
  show ?thesis using none env http_world_stream(1-3,5) [of Connecting] by (simp add: drop_bit_eq_div)
qed

end
