(* ===== verification/ServerTargets.thy ===== *)
theory ServerTargets
  imports SessionMux TcpSocket UdpSocket HttpRelay
begin

text \<open>
  \<open>Src/server/include/session_interface.h\<close> and the three classes behind it: \<open>TcpSession\<close>
  (\<open>tcp_session.cpp\<close>), \<open>UdpClient\<close> (\<open>udp_session.cpp\<close>) and \<open>HttpSession\<close> (\<open>http_session.cpp\<close>), the
  server's end of a stream: the connection to the target. A virtual function is a case distinction
  on the class. A handler returns the calls it makes of its socket and of the functions its owner
  has bound; calling a function that was never bound throws.
\<close>

subsection \<open>State\<close>

datatype 'l target_class = TcpSession | UdpClient | HttpSession "'l http_parser"

text \<open>\<open>si_socket\<close>: the pointer to the socket is set.\<close>

record 'l session_interface =
  si_class :: "'l target_class"
  si_socket :: bool
  si_close_func :: bool
  si_send_data :: bool
  si_send_finish :: bool
  si_send_synack :: bool
  si_send_data_ctrl :: bool
  si_p2p_closed :: bool
  si_closed :: bool

datatype si_action =
    SiTcp tcp_event
  | SiUdpStart u16
  | SiUdpSend pending_send
  | SiUdpClose
  | SiUdpStartReading
  | SiUdpStopReading
  | SiSynack bool
  | SiData bytes
  | SiFinish
  | SiCtrl ctrl_type
  | SiClosed

type_synonym 'l si_handler = "('l session_interface, si_action) handler"

definition SessionInterface_new :: "'l target_class \<Rightarrow> 'l session_interface" where
  "SessionInterface_new c =
     \<lparr>si_class = c, si_socket = True, si_close_func = False, si_send_data = False,
      si_send_finish = False, si_send_synack = False, si_send_data_ctrl = False,
      si_p2p_closed = False, si_closed = False\<rparr>"

definition HttpSession_new :: "'l llhttp \<Rightarrow> 'l session_interface" where
  "HttpSession_new ll =
     SessionInterface_new (HttpSession (set_on_message_complete (set_on_error (set_on_body
       (set_on_headers_complete (HttpParser_new ll Request))))))"

subsection \<open>The bound functions\<close>

definition bind_close_func :: "'l session_interface \<Rightarrow> 'l session_interface" where
  "bind_close_func s = s\<lparr>si_close_func := True\<rparr>"

definition bind_send_data :: "'l session_interface \<Rightarrow> 'l session_interface" where
  "bind_send_data s = s\<lparr>si_send_data := True\<rparr>"

definition bind_send_finish :: "'l session_interface \<Rightarrow> 'l session_interface" where
  "bind_send_finish s = s\<lparr>si_send_finish := True\<rparr>"

definition bind_send_sync :: "'l session_interface \<Rightarrow> 'l session_interface" where
  "bind_send_sync s = s\<lparr>si_send_synack := True\<rparr>"

definition bind_send_data_ctrl :: "'l session_interface \<Rightarrow> 'l session_interface" where
  "bind_send_data_ctrl s = s\<lparr>si_send_data_ctrl := True\<rparr>"

text \<open>A call of a \<open>std::function\<close> member.\<close>

definition call_bound :: "('l session_interface \<Rightarrow> bool) \<Rightarrow> si_action \<Rightarrow> 'l si_handler" where
  "call_bound bound a s = (if bound s then Inr (s, [a]) else Inl BadFunctionCall)"

definition si_on_write_queue :: "write_queue_status \<Rightarrow> 'l si_handler" where
  "si_on_write_queue st =
     call_bound si_send_data_ctrl (SiCtrl (if st = Danger then CtrlPause else CtrlReceive))"

definition closeSession :: "'l si_handler" where
  "closeSession s =
     (if si_closed s then skip s
      else andThen (guarded (\<not> si_p2p_closed s) (call_bound si_send_finish SiFinish))
        (andThen (modify (\<lambda>s. s\<lparr>si_closed := True\<rparr>))
          (\<lambda>s1. guarded (si_close_func s1) (emit [SiClosed]) s1)) s)"

subsection \<open>Calls through the socket pointer\<close>

definition si_sock :: "si_action \<Rightarrow> 'l si_handler" where
  "si_sock a s = (if si_socket s then emit [a] s else Inl NullDeref)"

text \<open>The TCP socket of a target with the callbacks \<open>start\<close> sets on it.\<close>

definition target_tcp_socket :: tcp_socket where
  "target_tcp_socket =
     setWriteQueueCallback (setDataCallback (setCloseCallback (setConnectCallback TcpSocket_new)))"

definition target_udp_socket :: udp_socket where
  "target_udp_socket =
     udp_setOpenCallback (udp_setDataCallback (udp_setWriteQueueCallback (udp_setCloseCallback UdpSocket_new)))"

definition TcpSession_start :: "string \<Rightarrow> u16 \<Rightarrow> 'l si_handler" where
  "TcpSession_start host port = si_sock (SiTcp (EvConnect host port))"

definition TcpSession_revP2pData :: "bytes \<Rightarrow> nat \<Rightarrow> 'l si_handler" where
  "TcpSession_revP2pData d n s = cbind (rd_range d 0 n) (\<lambda>b. si_sock (SiTcp (EvSend b)) s)"

text \<open>The UDP client ignores the target of the SYN: every datagram names its own.\<close>

definition UdpClient_start :: "string \<Rightarrow> u16 \<Rightarrow> 'l si_handler" where
  "UdpClient_start host port = si_sock (SiUdpStart 0)"

text \<open>
  The result of \<open>decode_udp_payload\<close> is not looked at, and the data pointer it tests is always set by
  the call. So a payload that does not decode is sent as an empty datagram, to the host and port
  decoded before the failure, or to the empty host and the value of an uninitialised variable.
\<close>

definition decoded_target :: "bytes \<Rightarrow> nat \<Rightarrow> (string \<times> u16) option cpp" where
  "decoded_target buf len =
     (if len < 1 then Inr None
      else cbind (rd buf 0) (\<lambda>b. let host_len = unat b in
      if len - 1 < host_len + 2 + 4 then Inr None
      else cbind (rd_range buf 1 host_len) (\<lambda>host.
           cbind (rd buf (1 + host_len)) (\<lambda>hi.
           cbind (rd buf (2 + host_len)) (\<lambda>lo.
             Inr (Some (string_of_bytes host, port_of_bytes hi lo)))))))"

definition UdpClient_revP2pData :: "u16 \<Rightarrow> bytes \<Rightarrow> nat \<Rightarrow> 'l si_handler" where
  "UdpClient_revP2pData garbage d n s =
     cbind (decode_udp_payload d n) (\<lambda>r.
     cbind (decoded_target d n) (\<lambda>t.
       let to = (case t of None \<Rightarrow> ([], garbage) | Some hp \<Rightarrow> hp);
           data = (case r of None \<Rightarrow> [] | Some (_, _, b) \<Rightarrow> b)
       in si_sock (SiUdpSend \<lparr>target_host = fst to, target_port = snd to, send_bytes = data\<rparr>) s))"

definition UdpClient_on_data :: "string \<Rightarrow> u16 \<Rightarrow> bytes \<Rightarrow> nat \<Rightarrow> 'l si_handler" where
  "UdpClient_on_data remote_host remote_port d len s =
     cbind (encode_udp_payload remote_host remote_port d len) (\<lambda>payload.
       call_bound si_send_data (SiData payload) s)"

subsection \<open>Virtual functions\<close>

definition si_start :: "string \<Rightarrow> u16 \<Rightarrow> 'l si_handler" where
  "si_start host port s =
     (case si_class s of
        TcpSession \<Rightarrow> TcpSession_start host port s
      | UdpClient \<Rightarrow> UdpClient_start host port s
      | HttpSession _ \<Rightarrow> si_sock (SiTcp (EvConnect host port)) s)"

definition si_close :: "'l si_handler" where
  "si_close s =
     (case si_class s of
        TcpSession \<Rightarrow> si_sock (SiTcp EvClose) s
      | UdpClient \<Rightarrow> si_sock SiUdpClose s
      | HttpSession _ \<Rightarrow> si_sock (SiTcp EvClose) s)"

definition si_stop :: "'l si_handler" where
  "si_stop = andThen (modify (\<lambda>s. s\<lparr>si_p2p_closed := True\<rparr>)) si_close"

definition start_receive :: "'l si_handler" where
  "start_receive s =
     (case si_class s of
        TcpSession \<Rightarrow> si_sock (SiTcp EvStartReading) s
      | UdpClient \<Rightarrow> si_sock SiUdpStartReading s
      | HttpSession _ \<Rightarrow> si_sock (SiTcp EvStartReading) s)"

definition pause_receive :: "'l si_handler" where
  "pause_receive s =
     (case si_class s of
        TcpSession \<Rightarrow> si_sock (SiTcp EvStopReading) s
      | UdpClient \<Rightarrow> si_sock SiUdpStopReading s
      | HttpSession _ \<Rightarrow> si_sock (SiTcp EvStopReading) s)"

text \<open>
  The request parser's callbacks. \<open>msg.target\<close> is overwritten by its origin form before the head is
  written; nothing reads it again before the next message resets it, so the write is not kept.
\<close>

definition origin_head :: "http_message \<Rightarrow> string" where
  "origin_head msg = serialize_headers_only False None (msg\<lparr>target := ToOriginForm (target msg)\<rparr>)"

fun on_http_request_upcall :: "hp_upcall \<times> 'l http_parser \<Rightarrow> 'l si_handler" where
  "on_http_request_upcall (UpHeadersComplete msg, p) =
     si_sock (SiTcp (EvSend (bytes_of_string (origin_head msg))))"
| "on_http_request_upcall (UpBody d, p) =
     (if chunked (hp_message p)
      then si_sock (SiTcp (EvSend (bytes_of_string (hex_string (length d) @ crlf @ d @ crlf))))
      else si_sock (SiTcp (EvSend (bytes_of_string d))))"
| "on_http_request_upcall (UpError code why, p) = si_close"
| "on_http_request_upcall (UpMessageComplete, p) =
     guarded (chunked (hp_message p)) (si_sock (SiTcp (EvSend (bytes_of_string last_chunk))))"
| "on_http_request_upcall (UpPausedUpgrade rest, p) = skip"

definition HttpSession_revP2pData :: "'l llhttp \<Rightarrow> 'l http_parser \<Rightarrow> bytes \<Rightarrow> nat \<Rightarrow> 'l si_handler" where
  "HttpSession_revP2pData ll hp d n s =
     cbind (rd_range d 0 n) (\<lambda>b.
       case feed ll (string_of_bytes b) hp of (_, ups, p) \<Rightarrow>
         for_each on_http_request_upcall ups (s\<lparr>si_class := HttpSession p\<rparr>))"

definition revP2pData :: "'l llhttp \<Rightarrow> u16 \<Rightarrow> bytes \<Rightarrow> nat \<Rightarrow> 'l si_handler" where
  "revP2pData ll garbage d n s =
     (case si_class s of
        TcpSession \<Rightarrow> TcpSession_revP2pData d n s
      | UdpClient \<Rightarrow> UdpClient_revP2pData garbage d n s
      | HttpSession p \<Rightarrow> HttpSession_revP2pData ll p d n s)"

subsection \<open>Callbacks of the socket\<close>

datatype target_event =
    TevConnected bool
  | TevData bytes nat
  | TevDatagram string u16 bytes nat
  | TevWriteQueue write_queue_status
  | TevClosed

fun on_target :: "target_event \<Rightarrow> 'l si_handler" where
  "on_target (TevConnected ok) = call_bound si_send_synack (SiSynack ok)"
| "on_target (TevData d n) =
     (\<lambda>s. cbind (rd_range d 0 n) (\<lambda>b. call_bound si_send_data (SiData b) s))"
| "on_target (TevDatagram host port d n) = UdpClient_on_data host port d n"
| "on_target (TevWriteQueue st) = si_on_write_queue st"
| "on_target TevClosed = andThen closeSession (modify (\<lambda>s. s\<lparr>si_socket := False\<rparr>))"

text \<open>Everything that happens to one object: its owner's calls and its socket's callbacks.\<close>

datatype si_event =
    SopStart string u16
  | SopStop
  | SopClose
  | SopData u16 bytes nat
  | SopReceive
  | SopPause
  | Sev target_event

fun si_handle :: "'l llhttp \<Rightarrow> si_event \<Rightarrow> 'l si_handler" where
  "si_handle ll (SopStart host port) = si_start host port"
| "si_handle ll SopStop = si_stop"
| "si_handle ll SopClose = si_close"
| "si_handle ll (SopData garbage d n) = revP2pData ll garbage d n"
| "si_handle ll SopReceive = start_receive"
| "si_handle ll SopPause = pause_receive"
| "si_handle ll (Sev e) = on_target e"

subsection \<open>The HTTP session relays requests\<close>

text \<open>The socket pointer is set and the object is an HTTP session.\<close>

definition http_live :: "'l session_interface \<Rightarrow> bool" where
  "http_live s \<longleftrightarrow> si_socket s \<and> (case si_class s of HttpSession _ \<Rightarrow> True | _ \<Rightarrow> False)"

definition request_parser_of :: "'l session_interface \<Rightarrow> 'l http_parser" where
  "request_parser_of s = (case si_class s of HttpSession p \<Rightarrow> p)"

lemma http_liveE:
  assumes "http_live s"
  obtains p where "si_class s = HttpSession p" "si_socket s"
  using assms by (auto simp: http_live_def split: target_class.splits)

lemma on_http_request_upcall_sends:
  assumes "http_live s" "no_error u"
  shows "on_http_request_upcall u s = Inr (s, map (\<lambda>b. SiTcp (EvSend (bytes_of_string b)))
    (relay_bytes origin_head (\<lambda>p. chunked (hp_message p)) u))"
  using assms
  by (cases u rule: on_http_request_upcall.cases)
    (auto simp: http_live_def si_sock_def emit_def skip_def guarded_def chunk_def)

interpretation request_relay: http_relay request_parser_of
  "\<lambda>p s. s\<lparr>si_class := HttpSession p\<rparr>" on_http_request_upcall http_live
  origin_head "\<lambda>p. chunked (hp_message p)" "\<lambda>b. SiTcp (EvSend (bytes_of_string b))"
proof unfold_locales
  fix s :: "'a session_interface" assume "http_live s"
  then show "s\<lparr>si_class := HttpSession (request_parser_of s)\<rparr> = s"
    by (rule http_liveE) (simp add: request_parser_of_def)
qed (simp_all add: request_parser_of_def http_live_def set_lib_def on_http_request_upcall_sends)

text \<open>The parser's callbacks leave the object as it is and only call its socket.\<close>

lemma on_http_request_upcall_quiet:
  assumes "on_http_request_upcall u s = Inr (s', acts)"
  shows "s' = s \<and> (\<forall>a\<in>set acts. a \<noteq> SiFinish \<and> a \<noteq> SiClosed)"
  using assms
  by (cases u rule: on_http_request_upcall.cases)
    (auto simp: si_sock_def emit_def skip_def guarded_def si_close_def split: if_splits target_class.splits)

lemma http_upcalls_quiet:
  assumes "for_each on_http_request_upcall ups s = Inr (s', acts)"
  shows "s' = s \<and> (\<forall>a\<in>set acts. a \<noteq> SiFinish \<and> a \<noteq> SiClosed)"
  using assms
proof (induction ups arbitrary: s acts)
  case (Cons u ups)
  then obtain s1 a1 a2 where "on_http_request_upcall u s = Inr (s1, a1)"
    "for_each on_http_request_upcall ups s1 = Inr (s', a2)" "acts = a1 @ a2"
    by (auto simp: andThen_Inr)
  with on_http_request_upcall_quiet Cons.IH show ?case by (metis UnE set_append)
qed (simp add: skip_def)

lemma revP2pData_http:
  "http_live s \<Longrightarrow> revP2pData ll g (bytes_of_string seg) (length seg) s = request_relay.feed_all ll seg s"
  by (erule http_liveE)
    (simp add: revP2pData_def HttpSession_revP2pData_def request_relay.feed_all_def request_parser_of_def
      rd_range_def)

lemma feed_requests:
  "http_live s \<Longrightarrow> for_each (\<lambda>seg. revP2pData ll g (bytes_of_string seg) (length seg)) segs s =
     for_each (request_relay.feed_all ll) segs s"
proof (induction segs arbitrary: s)
  case (Cons seg segs)
  have "http_live s1" if "request_relay.feed_all ll seg s = Inr (s1, a)" for s1 a
    using that Cons.prems http_upcalls_quiet
    by (fastforce simp: request_relay.feed_all_def http_live_def split: prod.splits)
  with Cons show ?case
    by (cases "request_relay.feed_all ll seg s") (auto simp: andThen_def revP2pData_http)
qed simp

subsection \<open>What the owner is told\<close>

definition reports :: "si_action list \<Rightarrow> si_action list" where
  "reports acts = filter (\<lambda>a. a = SiFinish \<or> a = SiClosed) acts"

lemma reports_append [simp]: "reports (xs @ ys) = reports xs @ reports ys"
  by (simp add: reports_def)

lemma reports_none: "(\<forall>a\<in>set acts. a \<noteq> SiFinish \<and> a \<noteq> SiClosed) \<Longrightarrow> reports acts = []"
  by (auto simp: reports_def)

lemma on_closed_reports:
  assumes "on_target TevClosed s = Inr (s', acts)" "si_close_func s"
  shows "si_closed s' \<and> si_close_func s' \<and> si_p2p_closed s' = si_p2p_closed s \<and>
    reports acts = (if si_closed s then [] else if si_p2p_closed s then [SiClosed] else [SiFinish, SiClosed])"
  using assms
  by (auto simp: closeSession_def andThen_def skip_def modify_def emit_def guarded_def call_bound_def
      reports_def split: if_splits)

lemma revP2pData_quiet:
  assumes "revP2pData ll g d n s = Inr (s', acts)"
  shows "(\<exists>c. s' = s\<lparr>si_class := c\<rparr>) \<and> reports acts = []"
proof (cases "si_class s")
  case (HttpSession p)
  with assms obtain b where run: "(case feed ll (string_of_bytes b) p of (_, ups, p) \<Rightarrow>
      for_each on_http_request_upcall ups (s\<lparr>si_class := HttpSession p\<rparr>)) = Inr (s', acts)"
    by (auto simp: revP2pData_def HttpSession_revP2pData_def cbind_eq_Inr)
  obtain ok ups p' where "feed ll (string_of_bytes b) p = (ok, ups, p')" by (metis surj_pair)
  with run have "for_each on_http_request_upcall ups (s\<lparr>si_class := HttpSession p'\<rparr>) = Inr (s', acts)"
    by simp
  from http_upcalls_quiet [OF this] show ?thesis by (auto simp: reports_none)
next
  case TcpSession
  with assms have "s' = s \<and> reports acts = []"
    by (auto simp: revP2pData_def TcpSession_revP2pData_def si_sock_def emit_def cbind_eq_Inr reports_def
        split: if_splits)
  then show ?thesis by (intro conjI exI [of _ "si_class s"]) auto
next
  case UdpClient
  with assms have "s' = s \<and> reports acts = []"
    by (auto simp: revP2pData_def UdpClient_revP2pData_def si_sock_def emit_def cbind_eq_Inr reports_def
        Let_def split: if_splits prod.splits)
  then show ?thesis by (intro conjI exI [of _ "si_class s"]) auto
qed

lemma other_reports:
  assumes "si_handle ll e s = Inr (s', acts)" "e \<noteq> Sev TevClosed"
  shows "si_closed s' = si_closed s \<and> si_close_func s' = si_close_func s \<and>
    si_p2p_closed s' = (si_p2p_closed s \<or> e = SopStop) \<and> reports acts = []"
proof (cases e)
  case (SopData g d n)
  with assms have "revP2pData ll g d n s = Inr (s', acts)" by simp
  from revP2pData_quiet [OF this] SopData show ?thesis by auto
next
  case (Sev te)
  with assms show ?thesis
    by (cases te) (auto simp: call_bound_def si_on_write_queue_def UdpClient_on_data_def cbind_eq_Inr
        reports_def split: if_splits)
qed (use assms in \<open>auto simp: si_start_def TcpSession_start_def UdpClient_start_def si_close_def si_stop_def
      andThen_def modify_def start_receive_def pause_receive_def si_sock_def emit_def reports_def
      split: target_class.splits if_splits\<close>)

lemma reports_after_close:
  "for_each (si_handle ll) es s = Inr (s', acts) \<Longrightarrow> si_closed s \<Longrightarrow> si_close_func s \<Longrightarrow>
     si_closed s' \<and> reports acts = [] \<and> (si_p2p_closed s \<longrightarrow> si_p2p_closed s')"
proof (induction es arbitrary: s acts)
  case (Cons e es)
  then obtain s1 a1 a2 where st: "si_handle ll e s = Inr (s1, a1)"
    "for_each (si_handle ll) es s1 = Inr (s', a2)" "acts = a1 @ a2"
    by (auto simp: andThen_Inr)
  have "si_closed s1 \<and> si_close_func s1 \<and> reports a1 = [] \<and> (si_p2p_closed s \<longrightarrow> si_p2p_closed s1)"
    using on_closed_reports [of s s1 a1] other_reports [of ll e s s1 a1] st(1) Cons.prems(2,3)
    by (cases "e = Sev TevClosed") auto
  with Cons.IH [OF st(2)] st(3) show ?case by simp
qed (simp add: skip_def reports_def)

lemma on_closed_calls:
  assumes "on_target TevClosed s = Inr (s', acts)" "si_close_func s" "\<not> si_closed s"
  shows "acts = (if si_p2p_closed s then [] else [SiFinish]) @ [SiClosed]"
  using assms
  by (auto simp: closeSession_def andThen_def skip_def modify_def emit_def guarded_def call_bound_def split: if_splits)

text \<open>A run up to its close, the close, and the rest.\<close>

lemma reports_of_run:
  assumes "for_each (si_handle ll) es s = Inr (s', acts)" "\<not> si_closed s" "si_close_func s"
  shows "(si_closed s' \<longleftrightarrow> Sev TevClosed \<in> set es) \<and>
    (\<not> si_closed s' \<longrightarrow> reports acts = []) \<and>
    (si_closed s' \<longrightarrow> (\<exists>before fin after. acts = before @ fin @ [SiClosed] @ after \<and>
       (fin = [] \<or> fin = [SiFinish]) \<and> reports before = [] \<and> reports after = [] \<and>
       (si_p2p_closed s \<longrightarrow> fin = []) \<and> (\<not> si_p2p_closed s' \<longrightarrow> fin = [SiFinish])))"
  using assms
proof (induction es arbitrary: s acts)
  case (Cons e es)
  then obtain s1 a1 a2 where st: "si_handle ll e s = Inr (s1, a1)"
    "for_each (si_handle ll) es s1 = Inr (s', a2)" "acts = a1 @ a2"
    by (auto simp: andThen_Inr)
  show ?case
  proof (cases "e = Sev TevClosed")
    case True
    define fin where "fin = (if si_p2p_closed s then [] else [SiFinish])"
    have now: "a1 = fin @ [SiClosed]" "si_closed s1" "si_close_func s1" "si_p2p_closed s1 = si_p2p_closed s"
      using on_closed_calls [of s s1 a1] on_closed_reports [of s s1 a1] st(1) True Cons.prems(2,3)
      by (simp_all add: fin_def)
    from reports_after_close [OF st(2) now(2,3)] now(4) have
      "si_closed s'" "reports a2 = []" "si_p2p_closed s \<longrightarrow> si_p2p_closed s'" by simp_all
    then show ?thesis using True st(3) now(1) by (intro conjI impI exI [of _ "[]"] exI [of _ fin] exI [of _ a2])
      (auto simp: fin_def reports_def)
  next
    case False
    note o = other_reports [OF st(1) False]
    from o Cons.prems(2,3) Cons.IH [OF st(2)] have
      ih: "si_closed s' \<longleftrightarrow> Sev TevClosed \<in> set es" "\<not> si_closed s' \<longrightarrow> reports a2 = []"
        "si_closed s' \<longrightarrow> (\<exists>before fin after. a2 = before @ fin @ [SiClosed] @ after \<and>
          (fin = [] \<or> fin = [SiFinish]) \<and> reports before = [] \<and> reports after = [] \<and>
          (si_p2p_closed s1 \<longrightarrow> fin = []) \<and> (\<not> si_p2p_closed s' \<longrightarrow> fin = [SiFinish]))" by simp_all
    have "\<exists>before fin after. acts = before @ fin @ [SiClosed] @ after \<and>
        (fin = [] \<or> fin = [SiFinish]) \<and> reports before = [] \<and> reports after = [] \<and>
        (si_p2p_closed s \<longrightarrow> fin = []) \<and> (\<not> si_p2p_closed s' \<longrightarrow> fin = [SiFinish])" if "si_closed s'"
    proof -
      from ih(3) that obtain before fin after where
        b: "a2 = before @ fin @ [SiClosed] @ after" "fin = [] \<or> fin = [SiFinish]" "reports before = []" "reports after = []"
          "si_p2p_closed s1 \<longrightarrow> fin = []" "\<not> si_p2p_closed s' \<longrightarrow> fin = [SiFinish]" by blast
      from o False have e: "reports a1 = []" "si_p2p_closed s \<longrightarrow> si_p2p_closed s1" by simp_all
      show ?thesis
        by (rule exI [of _ "a1 @ before"], rule exI [of _ fin], rule exI [of _ after])
          (use b e st(3) in simp)
    qed
    moreover have "reports acts = []" if "\<not> si_closed s'" using ih(2) that o st(3) by simp
    moreover have "si_closed s' \<longleftrightarrow> Sev TevClosed \<in> set (e # es)" using ih(1) False by simp
    ultimately show ?thesis by blast
  qed
qed (simp add: skip_def reports_def)

subsection \<open>An open target does not fail\<close>

text \<open>Only the parser and the peer's FIN change, and the owner is not told of a close.\<close>

definition si_fine :: "'l session_interface \<Rightarrow> ('l session_interface \<times> si_action list) cpp \<Rightarrow> bool" where
  "si_fine s r \<longleftrightarrow> (\<exists>s' acts. r = Inr (s', acts) \<and> SiClosed \<notin> set acts \<and>
     s' = s\<lparr>si_class := si_class s', si_p2p_closed := si_p2p_closed s'\<rparr>)"

lemma si_fine_same: "SiClosed \<notin> set acts \<Longrightarrow> si_fine s (Inr (s, acts))"
  by (simp add: si_fine_def)

lemma si_sock_fine [simp]: "si_socket s \<Longrightarrow> a \<noteq> SiClosed \<Longrightarrow> si_fine s (si_sock a s)"
  by (simp add: si_sock_def emit_def si_fine_same)

lemma call_bound_fine [simp]: "bound s \<Longrightarrow> a \<noteq> SiClosed \<Longrightarrow> si_fine s (call_bound bound a s)"
  by (simp add: call_bound_def si_fine_same)

lemma si_close_fine: "si_socket s \<Longrightarrow> si_fine s (si_close s)"
  by (simp add: si_close_def split: target_class.splits)

lemma si_stop_fine: "si_socket s \<Longrightarrow> si_fine s (si_stop s)"
  by (auto simp: si_stop_def andThen_def modify_def si_close_def si_sock_def emit_def si_fine_def
      split: target_class.splits)

lemma si_start_fine: "si_socket s \<Longrightarrow> si_fine s (si_start host port s)"
  by (simp add: si_start_def TcpSession_start_def UdpClient_start_def split: target_class.splits)

lemma receive_fine: "si_socket s \<Longrightarrow> si_fine s (start_receive s)" "si_socket s \<Longrightarrow> si_fine s (pause_receive s)"
  by (simp_all add: start_receive_def pause_receive_def split: target_class.splits)

lemma http_upcalls_fine:
  assumes "si_socket s"
  shows "si_fine s (for_each on_http_request_upcall ups s)"
proof (induction ups)
  case (Cons u ups)
  have "safe (on_http_request_upcall u s)"
    using assms by (cases u rule: on_http_request_upcall.cases)
      (simp_all add: si_sock_def guarded_def skip_def emit_def si_close_def split: target_class.splits)
  then obtain s1 a1 where u: "on_http_request_upcall u s = Inr (s1, a1)" by (auto simp: safe_iff)
  with on_http_request_upcall_quiet [OF u] Cons show ?case
    by (auto simp: andThen_def si_fine_def cbind_eq_Inr)
qed (simp add: skip_def si_fine_same)

lemma decoded_target_safe: "n \<le> length d \<Longrightarrow> safe (decoded_target d n)"
  by (auto simp: decoded_target_def rd_def rd_range_def Let_def)

lemma revP2pData_fine:
  assumes "si_socket s" "n \<le> length d"
  shows "si_fine s (revP2pData ll g d n s)"
proof (cases "si_class s")
  case (HttpSession p)
  obtain ok ups p' where "feed ll (string_of_bytes (take n d)) p = (ok, ups, p')" by (metis surj_pair)
  with HttpSession http_upcalls_fine [of "s\<lparr>si_class := HttpSession p'\<rparr>" ups] assms show ?thesis
    by (auto simp: revP2pData_def HttpSession_revP2pData_def rd_range_def si_fine_def)
next
  case UdpClient
  from decode_udp_payload_safe [OF assms(2)] decoded_target_safe [OF assms(2)]
  obtain r t where "decode_udp_payload d n = Inr r" "decoded_target d n = Inr t" by (auto simp: safe_iff)
  with UdpClient assms(1) show ?thesis
    by (simp add: revP2pData_def UdpClient_revP2pData_def Let_def)
qed (use assms in \<open>simp add: revP2pData_def TcpSession_revP2pData_def rd_range_def\<close>)

subsection \<open>Properties\<close>

text \<open>A plain HTTP request reaches its target in origin form: for a request llhttp reports, in any
number of segments and fragments, the target is sent the head with the path of an absolute target in
place of the target and the headers in order, then the body (in chunks with the last chunk at the end
when it came chunked, as it is otherwise), and nothing else.\<close>
theorem target_gets_request:
  assumes "si_class s = si_class (HttpSession_new ll)" "si_socket s"
    and "ll_run ll (ll_init ll Request) segs = Some (message_events Request ls fvs i parts, l)"
    and "\<forall>fv\<in>set fvs. fst fv \<noteq> [] \<and> snd fv \<noteq> []"
    and "msg = described Request i (concat ls) (map whole_header fvs)"
  shows "\<exists>s' bufs. for_each (\<lambda>seg. revP2pData ll g (bytes_of_string seg) (length seg)) segs s =
      Inr (s', map (\<lambda>b. SiTcp (EvSend (bytes_of_string b))) bufs) \<and>
    concat bufs = serialize_headers_only False None (msg\<lparr>target := ToOriginForm (concat ls)\<rparr>) @
      (if flag_chunked i then concat (map chunk parts) @ last_chunk else concat parts)"
proof -
  let ?p = "request_parser_of s"
  have live: "http_live s" and p: "relay_parser Request ?p" "hp_lib ?p = ll_init ll Request"
    using assms(1,2)
    by (simp_all add: relay_parser_def HttpParser_new_def hp_init_def HttpSession_new_def
        SessionInterface_new_def request_parser_of_def http_live_def
        set_on_message_complete_def set_on_error_def set_on_body_def set_on_headers_complete_def)
  have tg: "target msg = concat ls"
    by (simp add: assms(5) described_def connection_fields_def request_fields_def Let_def split: prod.splits option.splits)
  have "ll_run ll (hp_lib ?p) segs = Some (message_events Request ls fvs i parts, l)"
    using assms(3) p(2) by simp
  from request_relay.message_relayed [OF live refl p(1) assms(4) this] assms(5) tg
  show ?thesis by (auto simp: feed_requests [OF live] relayed_body_def origin_head_def)
qed

text \<open>C36: A target reports its end once: whatever its owner and its socket do, the owner hears of the close
exactly when the socket's close callback has run, and once; just before it, with nothing in between, it is
asked to send FIN, if the peer's own FIN has not stopped the session by then, and it is never asked at another
time. What the socket reports later (data it had read, a connection that still came up) is passed on as before.\<close>
theorem target_reports_once:
  assumes "for_each (si_handle ll) es s = Inr (s', acts)" "\<not> si_closed s" "si_close_func s"
  shows "(si_closed s' \<longleftrightarrow> Sev TevClosed \<in> set es) \<and>
    (\<not> si_closed s' \<longrightarrow> reports acts = []) \<and>
    (si_closed s' \<longrightarrow> (\<exists>before fin after. acts = before @ fin @ [SiClosed] @ after \<and>
       (fin = [] \<or> fin = [SiFinish]) \<and> reports before = [] \<and> reports after = [] \<and>
       (si_p2p_closed s \<longrightarrow> fin = []) \<and> (\<not> si_p2p_closed s' \<longrightarrow> fin = [SiFinish]))) \<and>
    (si_closed s' \<longrightarrow> si_send_data s' \<longrightarrow> n \<le> length d \<longrightarrow> on_target (TevData d n) s' = Inr (s', [SiData (take n d)]))"
proof (intro conjI)
  show "si_closed s' \<longrightarrow> si_send_data s' \<longrightarrow> n \<le> length d \<longrightarrow> on_target (TevData d n) s' = Inr (s', [SiData (take n d)])"
    by (simp add: rd_range_def call_bound_def)
qed (use reports_of_run [OF assms] in blast)+

text \<open>The UDP client sends every datagram the peer relays to the target it names, and what a target
answers goes to the peer with the address it came from; but a payload that does not decode is not
dropped: an empty datagram is sent, to an empty host and an uninitialised port when it is too short
for its header.\<close>
theorem udp_target_relays:
  assumes "length host < 256" "length data < 2 ^ 32" "si_socket s" "si_send_data s"
    and "encode_udp_payload host port data (length data) = Inr pl" "n < 1 \<or> n < 7 + unat (hd d)"
    and "n \<le> length d"
  shows "UdpClient_revP2pData g (pl @ rest) (length pl + length rest) s =
      Inr (s, [SiUdpSend \<lparr>target_host = host, target_port = port, send_bytes = data\<rparr>]) \<and>
    on_target (TevDatagram host port data (length data)) s = Inr (s, [SiData pl]) \<and>
    UdpClient_revP2pData g d n s =
      Inr (s, [SiUdpSend \<lparr>target_host = [], target_port = g, send_bytes = []\<rparr>])"
proof -
  have d: "decode_udp_payload (pl @ rest) (length pl + length rest) = Inr (Some (host, port, data))"
    by (rule decode_encode_udp_payload_eq) (use assms in simp_all)
  have "decoded_target (pl @ rest) (length pl + length rest) = Inr (Some (host, port))"
    using d unfolding decode_udp_payload_def decoded_target_def
    by (auto simp: cbind_eq_Inr Let_def split: if_splits)
  with d have 1: "UdpClient_revP2pData g (pl @ rest) (length pl + length rest) s =
      Inr (s, [SiUdpSend \<lparr>target_host = host, target_port = port, send_bytes = data\<rparr>])"
    using assms(3) by (simp add: UdpClient_revP2pData_def si_sock_def emit_def)
  have 2: "on_target (TevDatagram host port data (length data)) s = Inr (s, [SiData pl])"
    using assms(4,5) by (simp add: UdpClient_on_data_def call_bound_def)
  have "n = 0 \<or> (d \<noteq> [] \<and> n - 1 < unat (d ! 0) + 2 + 4)"
    using assms(6,7) by (cases d) auto
  then have "decode_udp_payload d n = Inr None" "decoded_target d n = Inr None"
    by (auto simp: decode_udp_payload_def decoded_target_def rd_def Let_def)
  then have 3: "UdpClient_revP2pData g d n s =
      Inr (s, [SiUdpSend \<lparr>target_host = [], target_port = g, send_bytes = []\<rparr>])"
    using assms(3) by (simp add: UdpClient_revP2pData_def si_sock_def emit_def)
  from 1 2 3 show ?thesis by blast
qed

theorem target_gets_request_witness:
  "\<exists>ll :: unit llhttp. \<exists>s' bufs tl. for_each (\<lambda>seg. revP2pData ll 0 (bytes_of_string seg) (length seg)) [''x'', ''y'']
       (HttpSession_new ll) = Inr (s', map (\<lambda>b. SiTcp (EvSend (bytes_of_string b))) bufs) \<and>
    concat bufs = ''GET /p HTTP/1.1'' @ crlf @ ''Host: h'' @ crlf @ crlf @ ''abc''"
proof -
  define i where "i = \<lparr>http_major = 1, http_minor = 1, ll_method = ''GET'', ll_status = 0, flag_chunked = False,
      flag_keep_alive = False, flag_close = False, flag_content_length = True, ll_content_length = 3,
      ll_upgrade = False, should_keep_alive = True\<rparr>"
  define es where "es = message_events Request [''http://'', ''h/p''] [([''Host''], [''h''])] i [''a'', ''bc'']"
  let ?ll = "\<lparr>ll_init = \<lambda>_. (), ll_execute = \<lambda>l d. (if d = ''x'' then es else [], LlOk, l), ll_resume = \<lambda>l. l\<rparr>"
  have "si_class (HttpSession_new ?ll) = si_class (HttpSession_new ?ll)" "si_socket (HttpSession_new ?ll)"
    "ll_run ?ll (ll_init ?ll Request) [''x'', ''y''] =
       Some (message_events Request [''http://'', ''h/p''] [([''Host''], [''h''])] i [''a'', ''bc''], ())"
    "\<forall>fv\<in>set [([''Host''], [''h''])]. fst fv \<noteq> [] \<and> snd fv \<noteq> []"
    by (simp_all add: es_def HttpSession_new_def SessionInterface_new_def)
  from target_gets_request [OF this refl, of 0] obtain s' bufs where
    run: "for_each (\<lambda>seg. revP2pData ?ll 0 (bytes_of_string seg) (length seg)) [''x'', ''y''] (HttpSession_new ?ll) =
      Inr (s', map (\<lambda>b. SiTcp (EvSend (bytes_of_string b))) bufs)"
    and out: "concat bufs = serialize_headers_only False None
      ((described Request i (concat [''http://'', ''h/p'']) (map whole_header [([''Host''], [''h''])]))
         \<lparr>target := ToOriginForm (concat [''http://'', ''h/p''])\<rparr>) @ ''abc''"
    by (auto simp: i_def)
  have "ToOriginForm ''http://h/p'' = ''/p''" by (simp add: ToOriginForm_def http_prefix_def https_prefix_def str_find_def)
  with out have "concat bufs = ''GET /p HTTP/1.1'' @ crlf @ ''Host: h'' @ crlf @ crlf @ ''abc''"
    by (simp add: serialize_headers_only_def described_def connection_fields_def request_fields_def
        split_url_def str_find_def start_line_def i_def header_lines_def header_line_def whole_header_def
        http_version_text_def framed_def has_header_def Message_new_def Let_def)
  with run show ?thesis by blast
qed

theorem target_reports_once_witness:
  "\<exists>s' before fin after. for_each (si_handle idle_llhttp) [SopStart ''h'' 80, Sev (TevConnected True), Sev TevClosed]
     ((SessionInterface_new TcpSession :: unit session_interface)
        \<lparr>si_close_func := True, si_send_finish := True, si_send_synack := True\<rparr>) =
       Inr (s', before @ fin @ [SiClosed] @ after) \<and> fin = [SiFinish]"
proof -
  let ?s = "(SessionInterface_new TcpSession :: unit session_interface)
        \<lparr>si_close_func := True, si_send_finish := True, si_send_synack := True\<rparr>"
  let ?es = "[SopStart ''h'' 80, Sev (TevConnected True), Sev TevClosed]"
  obtain s' acts where run: "for_each (si_handle idle_llhttp) ?es ?s = Inr (s', acts)"
    and p: "\<not> si_p2p_closed s'"
    by (simp add: andThen_def si_start_def TcpSession_start_def SessionInterface_new_def si_sock_def emit_def
        call_bound_def closeSession_def guarded_def modify_def skip_def)
  have "\<not> si_closed ?s" "si_close_func ?s" by (simp_all add: SessionInterface_new_def)
  from target_reports_once [OF run this, of 0 "[]"] p have "\<exists>before fin after. acts = before @ fin @ [SiClosed] @ after \<and> fin = [SiFinish]"
    by auto
  with run show ?thesis by blast
qed

theorem udp_target_relays_witness:
  "\<exists>pl. encode_udp_payload ''8.8.8.8'' 53 [1, 2] 2 = Inr pl \<and>
    UdpClient_revP2pData 9 (pl @ []) (length pl + length [])
        ((SessionInterface_new UdpClient :: unit session_interface)\<lparr>si_send_data := True\<rparr>) =
      Inr ((SessionInterface_new UdpClient)\<lparr>si_send_data := True\<rparr>,
        [SiUdpSend \<lparr>target_host = ''8.8.8.8'', target_port = 53, send_bytes = [1, 2]\<rparr>])"
proof -
  let ?s = "(SessionInterface_new UdpClient :: unit session_interface)\<lparr>si_send_data := True\<rparr>"
  obtain pl where pl: "encode_udp_payload ''8.8.8.8'' 53 [1, 2] (length [1, 2::u8]) = Inr pl"
    using encode_udp_payload_ok [of "length [1, 2::u8]" "[1, 2]" "''8.8.8.8''" 53] by auto
  have "UdpClient_revP2pData 9 (pl @ []) (length pl + length []) ?s =
      Inr (?s, [SiUdpSend \<lparr>target_host = ''8.8.8.8'', target_port = 53, send_bytes = [1, 2]\<rparr>])"
    using udp_target_relays [OF _ _ _ _ pl, of ?s 0 "[]" 9 "[]"] by (simp add: SessionInterface_new_def)
  moreover have "length [1, 2::u8] = 2" by simp
  from pl [unfolded this] have "encode_udp_payload ''8.8.8.8'' 53 [1, 2] 2 = Inr pl" .
  ultimately show ?thesis by (intro exI conjI)
qed

end
