(* ===== verification/TunnelSession.thy ===== *)
theory TunnelSession
  imports ServerTargets
begin

text \<open>
  \<open>Src/server/include/tunel_session.h\<close> and \<open>Src/server/src/tunel_session.cpp\<close>: one stream on the
  server. A tunnel owns the object that talks to the target (\<open>ServerTargets\<close>) and puts what that
  object reports on the stream. Its callbacks in the multiplexer capture the tunnel, so \<open>'c\<close> there is
  the tunnel's address.

  The object's socket callbacks hold the object: they still run after the tunnel has dropped its own
  pointer. So \<open>tn_obj\<close> is the object the constructor made and \<open>tn_held\<close> says whether
  \<open>session_interface_\<close> still points to it.
\<close>

subsection \<open>State\<close>

record 'l tunnel =
  tn_stream_id :: u32
  tn_protocol :: protocol
  tn_obj :: "'l session_interface option"
  tn_held :: bool
  tn_sess :: "sess_ptr option"
  tn_close_func :: bool
  tn_is_closed :: bool

text \<open>A tunnel and the multiplexer it shares with the other tunnels of its client.\<close>

record 'l tunnel_world =
  tun :: "'l tunnel"
  tun_mux :: "nat session_mux"

datatype tn_action =
    TnSock si_action
  | TnToPeer u32 bytes
  | TnErase u32

type_synonym 'l tn_handler = "('l tunnel_world, tn_action) handler"

definition target_of :: "'l llhttp \<Rightarrow> protocol \<Rightarrow> 'l session_interface option" where
  "target_of ll prot =
     (case prot of
        HttpPlain \<Rightarrow> Some (HttpSession_new ll)
      | UdpAssociate \<Rightarrow> Some (SessionInterface_new UdpClient)
      | Socks5Connect \<Rightarrow> Some (SessionInterface_new TcpSession)
      | HttpsConnect \<Rightarrow> Some (SessionInterface_new TcpSession)
      | _ \<Rightarrow> None)"

definition TunnelSession_new :: "'l llhttp \<Rightarrow> u32 \<Rightarrow> protocol \<Rightarrow> 'l tunnel" where
  "TunnelSession_new ll sid prot =
     \<lparr>tn_stream_id = sid, tn_protocol = prot, tn_obj = target_of ll prot,
      tn_held = (target_of ll prot \<noteq> None), tn_sess = None, tn_close_func = False, tn_is_closed = False\<rparr>"

definition tn_bind_close_func :: "'l tunnel \<Rightarrow> 'l tunnel" where
  "tn_bind_close_func t = t\<lparr>tn_close_func := True\<rparr>"

definition tn_upd :: "('l tunnel \<Rightarrow> 'l tunnel) \<Rightarrow> 'l tunnel_world \<Rightarrow> 'l tunnel_world" where
  "tn_upd f w = w\<lparr>tun := f (tun w)\<rparr>"

lemma tn_upd_fields [simp]: "tun (tn_upd f w) = f (tun w)" "tun_mux (tn_upd f w) = tun_mux w"
  by (simp_all add: tn_upd_def)

subsection \<open>What the target reports\<close>

definition tn_peer :: "(u32 \<times> bytes) option \<Rightarrow> tn_action list" where
  "tn_peer r = (case r of None \<Rightarrow> [] | Some (conn, f) \<Rightarrow> [TnToPeer conn f])"

text \<open>The lambda given to \<open>bind_close_func\<close>.\<close>

definition tn_on_closed :: "'l tn_handler" where
  "tn_on_closed =
     andThen (modify (\<lambda>w. w\<lparr>tun_mux := SessionMux_remove_session (tn_stream_id (tun w)) (tun_mux w)\<rparr>))
     (andThen (modify (tn_upd (\<lambda>t. t\<lparr>tn_sess := None\<rparr>)))
       (\<lambda>w. if tn_is_closed (tun w) then skip w
             else andThen (modify (tn_upd (\<lambda>t. t\<lparr>tn_is_closed := True\<rparr>)))
               (andThen (emit (if tn_close_func (tun w) then [TnErase (tn_stream_id (tun w))] else []))
                 (modify (tn_upd (\<lambda>t. t\<lparr>tn_held := False\<rparr>)))) w))"

fun tn_report :: "si_action \<Rightarrow> 'l tn_handler" where
  "tn_report (SiSynack ok) =
     (\<lambda>w. emit (tn_peer (send_synack (tun_mux w) (tn_stream_id (tun w)) ok (tn_protocol (tun w)))) w)"
| "tn_report (SiData d) =
     (\<lambda>w. cbind (send_data (tun_mux w) (tn_stream_id (tun w)) d (length d) (tn_protocol (tun w)))
             (\<lambda>r. emit (tn_peer r) w))"
| "tn_report SiFinish =
     (\<lambda>w. emit (tn_peer (send_fin (tun_mux w) (tn_stream_id (tun w)) (tn_protocol (tun w)))) w)"
| "tn_report SiClosed = tn_on_closed"
| "tn_report a = emit [TnSock a]"

text \<open>Code of the object, with its reports going to the tunnel; calls through \<open>session_interface_\<close>.\<close>

definition on_obj :: "'l si_handler \<Rightarrow> 'l tn_handler" where
  "on_obj h w =
     (case tn_obj (tun w) of None \<Rightarrow> Inl NullDeref
      | Some ob \<Rightarrow> cbind (h ob) (\<lambda>(ob', acts).
          for_each tn_report acts (tn_upd (\<lambda>t. t\<lparr>tn_obj := Some ob'\<rparr>) w)))"

definition through :: "'l si_handler \<Rightarrow> 'l tn_handler" where
  "through h w = (if tn_held (tun w) then on_obj h w else Inl NullDeref)"

subsection \<open>Operations\<close>

definition tn_close :: "'l tn_handler" where
  "tn_close = through si_stop"

text \<open>\<open>send_data_ctrl\<close> is the one function \<open>init\<close> does not bind.\<close>

definition bind_all :: "'l session_interface \<Rightarrow> 'l session_interface" where
  "bind_all s = bind_send_sync (bind_send_finish (bind_send_data (bind_close_func s)))"

definition tn_init :: "nat \<Rightarrow> 'l tn_handler" where
  "tn_init me w =
     (case SessionMux_create_session_at (tun_mux w) (tn_stream_id (tun w)) of (p, x) \<Rightarrow>
        let x1 = x\<lparr>manager := update_session p (set_on_data_ctrl me)
                   (update_session p (set_on_close me) (update_session p (set_on_data me) (manager x)))\<rparr>
        in through (modify bind_all) ((tn_upd (\<lambda>t. t\<lparr>tn_sess := Some p\<rparr>) w)\<lparr>tun_mux := x1\<rparr>))"

definition tn_start :: "nat \<Rightarrow> string \<Rightarrow> u16 \<Rightarrow> 'l tn_handler" where
  "tn_start me host port = andThen (tn_init me) (through (si_start host port))"

definition p2p_revData :: "'l llhttp \<Rightarrow> u16 \<Rightarrow> bytes \<Rightarrow> nat \<Rightarrow> protocol \<Rightarrow> 'l tn_handler" where
  "p2p_revData ll garbage d n prot =
     (case prot of
        HttpPlain \<Rightarrow> through (revP2pData ll garbage d n)
      | UdpAssociate \<Rightarrow> through (revP2pData ll garbage d n)
      | Socks5Connect \<Rightarrow> through (revP2pData ll garbage d n)
      | HttpsConnect \<Rightarrow> through (revP2pData ll garbage d n)
      | _ \<Rightarrow> skip)"

definition p2p_revCtrl :: "ctrl_type \<Rightarrow> protocol \<Rightarrow> 'l tn_handler" where
  "p2p_revCtrl ctrl prot =
     (case ctrl of
        CtrlReceive \<Rightarrow> through start_receive
      | CtrlPause \<Rightarrow> through pause_receive
      | CtrlOther _ \<Rightarrow> skip)"

text \<open>A callback of the target's socket.\<close>

definition tn_on_target :: "target_event \<Rightarrow> 'l tn_handler" where
  "tn_on_target e = on_obj (on_target e)"

subsection \<open>Invariant of a tunnel\<close>

text \<open>
  The functions the object calls are bound, except the one for write-queue reports, and while the tunnel holds it the object is open; once it
  has reported its end the tunnel has let go of it.
\<close>

definition tn_ok :: "'l tunnel \<Rightarrow> bool" where
  "tn_ok t \<longleftrightarrow> (\<exists>ob. tn_obj t = Some ob \<and> si_send_data ob \<and> si_send_finish ob \<and> si_send_synack ob \<and>
     si_close_func ob \<and> \<not> si_send_data_ctrl ob \<and> tn_held t = (\<not> si_closed ob) \<and> tn_is_closed t = si_closed ob \<and>
     (tn_held t \<longrightarrow> si_socket ob) \<and> tn_close_func t)"

lemma tn_okE:
  assumes "tn_ok t"
  obtains ob where "tn_obj t = Some ob" "si_send_data ob" "si_send_finish ob" "si_send_synack ob"
    "si_close_func ob" "\<not> si_send_data_ctrl ob" "tn_held t = (\<not> si_closed ob)" "tn_is_closed t = si_closed ob"
    "tn_held t \<Longrightarrow> si_socket ob" "tn_close_func t"
  using assms by (auto simp: tn_ok_def)

text \<open>A tunnel handler that neither fails nor ends the tunnel: the multiplexer is as it was.\<close>

definition tn_quiet :: "'l tunnel_world \<Rightarrow> ('l tunnel_world \<times> tn_action list) cpp \<Rightarrow> bool" where
  "tn_quiet w r \<longleftrightarrow> (\<exists>w' acts. r = Inr (w', acts) \<and> tn_ok (tun w') \<and> tun_mux w' = tun_mux w \<and>
     tn_stream_id (tun w') = tn_stream_id (tun w) \<and> tn_held (tun w') = tn_held (tun w) \<and>
     (\<forall>sid. TnErase sid \<notin> set acts))"

text \<open>One that ends it: its stream is gone from the multiplexer, and its owner is told.\<close>

definition tn_ended :: "'l tunnel_world \<Rightarrow> ('l tunnel_world \<times> tn_action list) cpp \<Rightarrow> bool" where
  "tn_ended w r \<longleftrightarrow> (\<exists>w' acts. r = Inr (w', acts @ [TnErase (tn_stream_id (tun w))]) \<and> tn_ok (tun w') \<and>
     tun_mux w' = SessionMux_remove_session (tn_stream_id (tun w)) (tun_mux w) \<and>
     tn_stream_id (tun w') = tn_stream_id (tun w) \<and> \<not> tn_held (tun w') \<and>
     (\<forall>sid. TnErase sid \<notin> set acts))"

subsection \<open>Lemmas\<close>

lemma tn_report_plain:
  assumes "a \<noteq> SiClosed"
  shows "\<exists>acts. tn_report a w = Inr (w, acts) \<and> (\<forall>sid. TnErase sid \<notin> set acts)"
  using assms by (cases a)
    (auto simp: emit_def tn_peer_def send_data_def rd_range_def split: option.splits)

lemma tn_reports_plain:
  assumes "SiClosed \<notin> set as"
  shows "\<exists>acts. for_each tn_report as w = Inr (w, acts) \<and> (\<forall>sid. TnErase sid \<notin> set acts)"
  using assms
proof (induction as)
  case (Cons a as)
  from tn_report_plain [of a w] Cons.prems obtain a1 where
    1: "tn_report a w = Inr (w, a1)" "\<forall>sid. TnErase sid \<notin> set a1" by auto
  from Cons obtain a2 where "for_each tn_report as w = Inr (w, a2)" "\<forall>sid. TnErase sid \<notin> set a2" by auto
  with 1 show ?case by (auto simp: andThen_def)
qed (simp add: skip_def)

lemma on_obj_quiet:
  assumes "tn_ok (tun w)" "tn_obj (tun w) = Some ob" "si_fine ob (h ob)"
  shows "tn_quiet w (on_obj h w)"
proof -
  from assms(3) obtain ob' as where h: "h ob = Inr (ob', as)" "SiClosed \<notin> set as"
    "ob' = ob\<lparr>si_class := si_class ob', si_p2p_closed := si_p2p_closed ob'\<rparr>" by (auto simp: si_fine_def)
  then obtain c b where ob': "ob' = ob\<lparr>si_class := c, si_p2p_closed := b\<rparr>" by blast
  let ?w = "tn_upd (\<lambda>t. t\<lparr>tn_obj := Some ob'\<rparr>) w"
  from tn_reports_plain [OF h(2)] obtain acts where
    "for_each tn_report as ?w = Inr (?w, acts)" "\<forall>sid. TnErase sid \<notin> set acts" by blast
  moreover have "tn_ok (tun ?w)"
    using assms(1,2) by (simp add: tn_ok_def ob')
  ultimately show ?thesis using assms(2) h(1) by (simp add: on_obj_def tn_quiet_def)
qed

lemma through_quiet:
  assumes "tn_ok (tun w)" "tn_held (tun w)" "\<And>ob. si_socket ob \<Longrightarrow> si_fine ob (h ob)"
  shows "tn_quiet w (through h w)"
  using assms(1)
proof (rule tn_okE)
  fix ob assume ob: "tn_obj (tun w) = Some ob" and "tn_held (tun w) \<Longrightarrow> si_socket ob"
  with assms(2,3) have "si_fine ob (h ob)" by simp
  from on_obj_quiet [where h = h, OF assms(1) ob this] assms(2) show ?thesis by (simp add: through_def)
qed

lemma skip_quiet: "tn_ok (tun w) \<Longrightarrow> tn_quiet w (skip w)"
  by (simp add: tn_quiet_def skip_def)

lemma tn_close_quiet: "tn_ok (tun w) \<Longrightarrow> tn_held (tun w) \<Longrightarrow> tn_quiet w (tn_close w)"
  unfolding tn_close_def by (rule through_quiet) (simp_all add: si_stop_fine)

lemma p2p_revData_quiet:
  assumes "tn_ok (tun w)" "tn_held (tun w)" "n \<le> length d"
  shows "tn_quiet w (p2p_revData ll g d n prot w)"
proof -
  have "tn_quiet w (through (revP2pData ll g d n) w)"
    by (rule through_quiet [OF assms(1,2)]) (simp add: revP2pData_fine assms(3))
  then show ?thesis using skip_quiet [OF assms(1)] by (simp add: p2p_revData_def split: protocol.splits)
qed

lemma p2p_revCtrl_quiet:
  assumes "tn_ok (tun w)" "tn_held (tun w)"
  shows "tn_quiet w (p2p_revCtrl ctrl prot w)"
  using through_quiet [OF assms receive_fine(1)] through_quiet [OF assms receive_fine(2)] skip_quiet [OF assms(1)]
  by (simp add: p2p_revCtrl_def split: ctrl_type.splits)

text \<open>A callback of the socket that reads no further than the bytes it is given; write-queue reports apart.\<close>

fun ok_event :: "target_event \<Rightarrow> bool" where
  "ok_event (TevData d n) = (n \<le> length d)"
| "ok_event (TevDatagram host port d n) = (n \<le> length d)"
| "ok_event (TevWriteQueue st) = False"
| "ok_event _ = True"

lemma on_target_fine:
  assumes "tn_ok t" "tn_obj t = Some ob" "ok_event e" "e \<noteq> TevClosed"
  shows "si_fine ob (on_target e ob)"
  using assms by (cases e)
    (auto simp: tn_ok_def rd_range_def UdpClient_on_data_def encode_udp_payload_def Let_def)

lemma tn_on_closed_run:
  "\<not> tn_is_closed (tun w) \<Longrightarrow> tn_on_closed w =
     Inr ((tn_upd (\<lambda>t. t\<lparr>tn_sess := None, tn_is_closed := True, tn_held := False\<rparr>) w)
            \<lparr>tun_mux := SessionMux_remove_session (tn_stream_id (tun w)) (tun_mux w)\<rparr>,
          if tn_close_func (tun w) then [TnErase (tn_stream_id (tun w))] else [])"
  by (simp add: tn_on_closed_def andThen_def modify_def emit_def tn_upd_def)

lemma tn_on_closed_ended:
  assumes "tn_ok (tun w)" "tn_held (tun w)"
  shows "tn_ended w (tn_on_target TevClosed w)"
  using assms(1)
proof (rule tn_okE)
  fix ob assume ob: "tn_obj (tun w) = Some ob" "si_send_data ob" "si_send_finish ob" "si_send_synack ob"
    "si_close_func ob" "\<not> si_send_data_ctrl ob" "tn_held (tun w) = (\<not> si_closed ob)"
    "tn_is_closed (tun w) = si_closed ob" "tn_close_func (tun w)"
  with assms(2) have open1: "\<not> si_closed ob" "\<not> tn_is_closed (tun w)" by auto
  let ?ob = "ob\<lparr>si_closed := True, si_socket := False\<rparr>"
  let ?w = "tn_upd (\<lambda>t. t\<lparr>tn_obj := Some ?ob\<rparr>) w"
  define fin where "fin = (if si_p2p_closed ob then [] else [SiFinish])"
  have "on_target TevClosed ob = Inr (?ob, fin @ [SiClosed])"
    using ob open1 by (simp add: fin_def closeSession_def andThen_def guarded_def call_bound_def modify_def emit_def skip_def)
  moreover have "SiClosed \<notin> set fin" by (simp add: fin_def)
  from tn_reports_plain [OF this] obtain acts where fin: "for_each tn_report fin ?w = Inr (?w, acts)" "\<forall>sid. TnErase sid \<notin> set acts"
    by blast
  moreover have "for_each tn_report (fin @ [SiClosed]) ?w =
      andThen (for_each tn_report fin) (for_each tn_report [SiClosed]) ?w"
    by (simp only: for_each_append)
  ultimately have "tn_on_target TevClosed w =
      Inr ((tn_upd (\<lambda>t. t\<lparr>tn_sess := None, tn_is_closed := True, tn_held := False\<rparr>) ?w)
            \<lparr>tun_mux := SessionMux_remove_session (tn_stream_id (tun w)) (tun_mux w)\<rparr>,
        acts @ [TnErase (tn_stream_id (tun w))])"
    using ob open1 by (simp add: tn_on_target_def on_obj_def andThen_def tn_on_closed_run skip_def del: on_target.simps)
  with fin(2) ob show ?thesis by (simp add: tn_ended_def tn_ok_def)
qed

lemma tn_on_closed_again:
  assumes "tn_ok (tun w)" "\<not> tn_held (tun w)"
  shows "tn_quiet w (tn_on_target TevClosed w)"
  using assms(1)
proof (rule tn_okE)
  fix ob assume ob: "tn_obj (tun w) = Some ob" "tn_held (tun w) = (\<not> si_closed ob)"
  with assms(2) have "on_target TevClosed ob = Inr (ob\<lparr>si_socket := False\<rparr>, [])"
    by (simp add: closeSession_def andThen_def skip_def modify_def)
  with ob assms show ?thesis
    by (auto simp: tn_on_target_def on_obj_def tn_quiet_def tn_ok_def skip_def)
qed

lemma tn_on_target_cases:
  assumes "tn_ok (tun w)" "ok_event e"
  shows "tn_quiet w (tn_on_target e w) \<or> (e = TevClosed \<and> tn_held (tun w) \<and> tn_ended w (tn_on_target e w))"
proof (cases "e = TevClosed")
  case True
  with tn_on_closed_ended tn_on_closed_again assms(1) show ?thesis by blast
next
  case False
  from assms(1) obtain ob where "tn_obj (tun w) = Some ob" by (rule tn_okE)
  with on_obj_quiet on_target_fine assms False show ?thesis unfolding tn_on_target_def by blast
qed

text \<open>Starting a tunnel. The protocols for which the constructor makes an object:\<close>

definition served :: "protocol \<Rightarrow> bool" where
  "served prot \<longleftrightarrow> prot \<in> {HttpPlain, UdpAssociate, Socks5Connect, HttpsConnect}"

lemma target_of_served: "target_of ll prot \<noteq> None \<longleftrightarrow> served prot"
  by (cases prot) (simp_all add: target_of_def served_def)

text \<open>The multiplexer with a session for stream \<open>sid\<close> whose callbacks belong to the tunnel at \<open>me\<close>.\<close>

definition bound_session :: "nat \<Rightarrow> u32 \<Rightarrow> nat session" where
  "bound_session me sid =
     \<lparr>on_data = Some me, on_synack = None, on_close = Some me, on_data_ctrl = Some me, sess_stream_id = sid\<rparr>"

definition with_stream :: "nat \<Rightarrow> u32 \<Rightarrow> nat session_mux \<Rightarrow> nat session_mux" where
  "with_stream me sid x =
     x\<lparr>manager := (manager x)\<lparr>
        next_ptr := Suc (next_ptr (manager x)),
        sessions := (sessions (manager x))(sid \<mapsto> next_ptr (manager x)),
        store := (store (manager x))(next_ptr (manager x) \<mapsto> bound_session me sid)\<rparr>\<rparr>"

lemma wf_with_stream:
  assumes "wf_manager (manager x)"
  shows "wf_manager (manager (with_stream me sid x))"
proof -
  let ?m = "snd (create_session_at (manager x) sid)" and ?p = "next_ptr (manager x)"
  have "wf_manager ?m"
    using wf_create_session_at [OF assms, of sid "fst (create_session_at (manager x) sid)" ?m] by simp
  then have "wf_manager (update_session ?p (set_on_data_ctrl me) (update_session ?p (set_on_close me)
      (update_session ?p (set_on_data me) ?m)))"
    by (intro wf_update_session) (simp_all add: set_on_data_ctrl_def set_on_close_def set_on_data_def)
  also have "\<dots> = manager (with_stream me sid x)"
    by (simp add: with_stream_def bound_session_def update_session_def create_session_at_def Let_def
        Session_new_def set_on_data_ctrl_def set_on_close_def set_on_data_def)
  finally show ?thesis .
qed

lemma tn_init_eq:
  "tn_init me w = through (modify bind_all)
     ((tn_upd (\<lambda>t. t\<lparr>tn_sess := Some (next_ptr (manager (tun_mux w)))\<rparr>) w)
        \<lparr>tun_mux := with_stream me (tn_stream_id (tun w)) (tun_mux w)\<rparr>)"
  by (simp add: tn_init_def SessionMux_create_session_at_def create_session_at_def Let_def with_stream_def
      bound_session_def update_session_def Session_new_def set_on_data_ctrl_def set_on_close_def set_on_data_def)

definition first_call :: "protocol \<Rightarrow> string \<Rightarrow> u16 \<Rightarrow> si_action" where
  "first_call prot host port =
     (if prot = UdpAssociate then SiUdpStart 0 else SiTcp (EvConnect host port))"

lemma tn_start_served:
  fixes w :: "'l tunnel_world"
  assumes "served prot" "tun w = tn_bind_close_func (TunnelSession_new ll sid prot)"
  obtains w' where "tn_start me host port w = Inr (w', [TnSock (first_call prot host port)])"
    "tn_ok (tun w')" "tn_held (tun w')" "tn_stream_id (tun w') = sid" "tn_protocol (tun w') = prot"
    "tun_mux w' = with_stream me sid (tun_mux w)"
    "\<exists>ob. tn_obj (tun w') = Some (bind_all ob) \<and> target_of ll prot = Some ob"
proof -
  from assms(1) obtain ob where ob: "target_of ll prot = Some ob" using target_of_served [of ll prot] by auto
  have new: "\<not> si_closed ob" "si_socket ob" "\<not> si_send_data_ctrl ob" "si_class ob = (case prot of HttpPlain \<Rightarrow> si_class (HttpSession_new ll)
      | UdpAssociate \<Rightarrow> UdpClient | _ \<Rightarrow> TcpSession)"
    using ob by (auto simp: target_of_def HttpSession_new_def SessionInterface_new_def split: protocol.splits)
  have call: "si_start host port (bind_all ob) = Inr (bind_all ob, [first_call prot host port])"
    using new ob by (auto simp: si_start_def TcpSession_start_def UdpClient_start_def si_sock_def emit_def
        bind_all_def bind_send_sync_def bind_send_finish_def bind_send_data_def bind_close_func_def
        first_call_def HttpSession_new_def SessionInterface_new_def target_of_def split: protocol.splits)
  have report: "tn_report (first_call prot host port) u = Inr (u, [TnSock (first_call prot host port)])"
    for u :: "'l tunnel_world"
    by (simp add: first_call_def emit_def)
  let ?w = "w\<lparr>tun_mux := with_stream me sid (tun_mux w), tun := (tun w)
      \<lparr>tn_sess := Some (next_ptr (manager (tun_mux w))), tn_obj := Some (bind_all ob)\<rparr>\<rparr>"
  have "tn_start me host port w = Inr (?w, [TnSock (first_call prot host port)])"
    using assms(2) ob call report
    by (simp add: tn_start_def tn_init_eq andThen_def through_def on_obj_def modify_def skip_def tn_upd_def
        TunnelSession_new_def tn_bind_close_func_def)
  then show ?thesis
    by (rule that) (use assms(2) ob new(1-3) in \<open>simp_all add: tn_ok_def bind_all_def bind_send_sync_def
        bind_send_finish_def bind_send_data_def bind_close_func_def TunnelSession_new_def tn_bind_close_func_def\<close>)
qed

text \<open>The switch of the constructor only logs another protocol, and \<open>init\<close> uses the pointer unchecked.\<close>

lemma tn_start_unserved:
  assumes "\<not> served prot" "tun w = tn_bind_close_func (TunnelSession_new ll sid prot)"
  shows "tn_start me host port w = Inl NullDeref"
proof -
  have "target_of ll prot = None" using assms(1) target_of_served [of ll prot] by blast
  with assms(2) show ?thesis
    by (simp add: tn_start_def andThen_def tn_init_eq through_def TunnelSession_new_def tn_bind_close_func_def)
qed

lemma write_queue_throws: "tn_ok (tun w) \<Longrightarrow> tn_on_target (TevWriteQueue st) w = Inl BadFunctionCall"
  by (auto simp: tn_ok_def tn_on_target_def on_obj_def si_on_write_queue_def call_bound_def)

text \<open>The target's socket cannot slow the client down: its report is a call of an unbound function.\<close>

lemma write_queue_report_throws:
  assumes "served prot" "tun w = tn_bind_close_func (TunnelSession_new ll sid prot)"
    and "tn_start me host port w = Inr (w', acts)"
  shows "tn_on_target (TevWriteQueue st) w' = Inl BadFunctionCall"
proof -
  have "tn_ok (tun w')" by (rule tn_start_served [OF assms(1,2), of me host port]) (simp add: assms(3))
  then show ?thesis by (rule write_queue_throws)
qed

end
