(* ===== verification/ServerSession.thy ===== *)
theory ServerSession
  imports TunnelSession SessionController SessionIds "HOL-Library.AList"
begin

text \<open>
  \<open>Src/server/src/process_new_client.cpp\<close> and \<open>Src/common/include/timer.h\<close>: the server's
  \<open>Socks5Session\<close> (one per client: a controller, a multiplexer, a timer and the client's tunnels) and
  \<open>ProcessNewWsClient\<close>, which makes one for every WebSocket and numbers them.

  Tunnels and client sessions are shared objects: a table holds pointers, and callbacks keep an object
  alive after the table has forgotten it. So both live in a store, and a table maps an id to an address.
\<close>

subsection \<open>The timer\<close>

text \<open>\<open>tm_waiting\<close>: a wait is pending. \<open>expires_after\<close> cancels the pending one before the next starts.\<close>

record timer =
  tm_cb :: bool
  tm_waiting :: bool

definition Timer_new :: timer where
  "Timer_new = \<lparr>tm_cb = False, tm_waiting = False\<rparr>"

definition Timer_stop :: "timer \<Rightarrow> timer" where
  "Timer_stop t = t\<lparr>tm_waiting := False\<rparr>"

definition bindTimerFinish :: "timer \<Rightarrow> timer" where
  "bindTimerFinish t = t\<lparr>tm_cb := True\<rparr>"

definition Timer_start :: "timer \<Rightarrow> timer" where
  "Timer_start t = t\<lparr>tm_waiting := True\<rparr>"

text \<open>The wait's handler: whether it calls the callback.\<close>

definition Timer_on_wait :: "bool \<Rightarrow> timer \<Rightarrow> bool \<times> timer" where
  "Timer_on_wait ec t = (\<not> ec \<and> tm_cb t, t\<lparr>tm_waiting := False\<rparr>)"

subsection \<open>State of a client's session\<close>

record 'l server_session =
  ss_id :: u32
  ss_mux :: "nat session_mux"
  ss_heap :: "nat \<Rightarrow> 'l tunnel option"
  ss_next :: nat
  tunnel_sessions :: "(u32 \<times> nat) list"
  ss_timer :: "timer option"
  ss_controller :: controller
  ss_close_cb :: bool

datatype ss_action =
    SsSock nat si_action
  | SsCtl ctl_action
  | SsTimer nat
  | SsClosed u32

type_synonym 'l ss_handler = "('l server_session, ss_action) handler"

definition ServerSession_new :: "u32 \<Rightarrow> 'l server_session" where
  "ServerSession_new sid =
     \<lparr>ss_id = sid, ss_mux = SessionMux_new sid, ss_heap = (\<lambda>_. None), ss_next = 0, tunnel_sessions = [],
      ss_timer = Some Timer_new, ss_controller = Controller_new, ss_close_cb = False\<rparr>"

definition bindCloseFunc :: "'l server_session \<Rightarrow> 'l server_session" where
  "bindCloseFunc s = s\<lparr>ss_close_cb := True\<rparr>"

definition ss_start :: "ws_state \<Rightarrow> string \<Rightarrow> 'l ss_handler" where
  "ss_start ws pw s =
     (case ss_timer s of None \<Rightarrow> Inl NullDeref
      | Some t \<Rightarrow> Inr (s\<lparr>ss_mux := set_on_syn (set_send_func (ss_mux s)),
          ss_controller := ctl_connect_ws ws (ctl_init pw (ctl_onLoginSuccess (ctl_onStateChange
            (ctl_bindDataChannel (ss_controller s))))),
          ss_timer := Some (bindTimerFinish t)\<rparr>, []))"

definition ss_stop :: "'l ss_handler" where
  "ss_stop s =
     (case ctl_disconnect (ss_controller s) of (c, acts) \<Rightarrow> Inr (s\<lparr>ss_controller := c\<rparr>, map SsCtl acts))"

subsection \<open>Tunnels\<close>

text \<open>The send function: a frame too long for its length prefix is logged and dropped.\<close>

definition ss_send :: "bytes \<Rightarrow> 'l ss_handler" where
  "ss_send f s =
     (case packMessage f (length f) of
        Inl e \<Rightarrow> if e = LengthError then skip s else Inl e
      | Inr buf \<Rightarrow> cbind (ctl_send buf (length buf) (ss_controller s)) (\<lambda>acts. emit (map SsCtl acts) s))"

fun ss_route :: "nat \<Rightarrow> tn_action \<Rightarrow> 'l ss_handler" where
  "ss_route a (TnSock x) = emit [SsSock a x]"
| "ss_route a (TnToPeer conn f) = ss_send f"
| "ss_route a (TnErase sid) = modify (\<lambda>s. s\<lparr>tunnel_sessions := AList.delete sid (tunnel_sessions s)\<rparr>)"

definition run_tunnel :: "nat \<Rightarrow> 'l tn_handler \<Rightarrow> 'l ss_handler" where
  "run_tunnel a h s =
     (case ss_heap s a of None \<Rightarrow> Inl NullDeref
      | Some t \<Rightarrow> cbind (h \<lparr>tun = t, tun_mux = ss_mux s\<rparr>) (\<lambda>(w, acts).
          for_each (ss_route a) acts (s\<lparr>ss_heap := (ss_heap s)(a \<mapsto> tun w), ss_mux := tun_mux w\<rparr>)))"

text \<open>The lambda given to \<open>set_on_syn\<close>.\<close>

definition ss_on_syn :: "'l llhttp \<Rightarrow> u32 \<Rightarrow> string \<Rightarrow> u16 \<Rightarrow> protocol \<Rightarrow> 'l ss_handler" where
  "ss_on_syn ll sid host port prot s =
     (let a = ss_next s; t = tn_bind_close_func (TunnelSession_new ll sid prot) in
      run_tunnel a (tn_start a host port)
        (s\<lparr>ss_heap := (ss_heap s)(a \<mapsto> t), ss_next := Suc a,
           tunnel_sessions := AList.update sid a (tunnel_sessions s)\<rparr>))"

text \<open>
  What the multiplexer calls. No tunnel sets a SYNACK callback. \<open>garbage\<close> is the uninitialised port of
  \<open>UdpClient::revP2pData\<close>.
\<close>

fun ss_upcall :: "'l llhttp \<Rightarrow> u16 \<Rightarrow> nat upcall \<Rightarrow> 'l ss_handler" where
  "ss_upcall ll garbage (CallSyn sid host port prot) = ss_on_syn ll sid host port prot"
| "ss_upcall ll garbage (CallData a d n prot) = run_tunnel a (p2p_revData ll garbage d n prot)"
| "ss_upcall ll garbage (CallClose a prot) = run_tunnel a tn_close"
| "ss_upcall ll garbage (CallCtrl a ctrl prot) = run_tunnel a (p2p_revCtrl ctrl prot)"
| "ss_upcall ll garbage (CallSynack a ok prot) = skip"

text \<open>The lambda given to \<open>bindDataChannel\<close>.\<close>

definition ss_on_message :: "'l llhttp \<Rightarrow> u16 \<Rightarrow> bytes \<Rightarrow> 'l ss_handler" where
  "ss_on_message ll garbage d s =
     cbind (unpackMessage d (length d)) (\<lambda>r. case r of None \<Rightarrow> skip s
       | Some (payload, len) \<Rightarrow> cbind (on_p2p_data (ss_mux s) payload (unat len)) (\<lambda>u.
           case u of None \<Rightarrow> skip s | Some c \<Rightarrow> ss_upcall ll garbage c s))"

text \<open>A callback of the socket behind the tunnel at \<open>a\<close>.\<close>

definition ss_on_target :: "nat \<Rightarrow> target_event \<Rightarrow> 'l ss_handler" where
  "ss_on_target a e = run_tunnel a (tn_on_target e)"

subsection \<open>Closing\<close>

definition notifyClose :: "'l ss_handler" where
  "notifyClose s =
     (case ss_timer s of None \<Rightarrow> Inl NullDeref
      | Some t \<Rightarrow> Inr (s\<lparr>ss_timer := Some (Timer_start t)\<rparr>, [SsTimer 1000]))"

text \<open>
  The lambda given to \<open>onStateChange\<close>. The loop visits the tunnels in the order of an
  \<open>unordered_map\<close>, so the order is an argument; a key that is not in the map is not visited.
\<close>

definition close_tunnel :: "u32 \<Rightarrow> 'l ss_handler" where
  "close_tunnel sid s =
     (case map_of (tunnel_sessions s) sid of None \<Rightarrow> skip s | Some a \<Rightarrow> run_tunnel a tn_close s)"

definition ss_on_state :: "u32 list \<Rightarrow> controller_state \<Rightarrow> 'l ss_handler" where
  "ss_on_state order st =
     (case st of SessionController.Connected \<Rightarrow> skip
      | SessionController.Closed \<Rightarrow> andThen notifyClose (for_each close_tunnel order))"

text \<open>The timer's wait has ended; \<open>ec\<close> says it was cancelled.\<close>

definition ss_on_timer :: "bool \<Rightarrow> 'l ss_handler" where
  "ss_on_timer ec s =
     (case ss_timer s of None \<Rightarrow> skip s
      | Some t \<Rightarrow> (case Timer_on_wait ec t of (fired, t1) \<Rightarrow>
          let s1 = s\<lparr>ss_timer := Some t1\<rparr> in
          if \<not> fired then skip s1
          else if tunnel_sessions s1 = [] then
            Inr (s1\<lparr>ss_timer := None\<rparr>, if ss_close_cb s1 then [SsClosed (ss_id s1)] else [])
          else Inr (s1\<lparr>ss_timer := Some (Timer_start t1)\<rparr>, [SsTimer 1000])))"

text \<open>What the controller calls; \<open>onLoginSuccess\<close> is empty.\<close>

fun ss_on_ctl :: "'l llhttp \<Rightarrow> u16 \<Rightarrow> u32 list \<Rightarrow> ctl_action \<Rightarrow> 'l ss_handler" where
  "ss_on_ctl ll garbage order (Link (DataOut d)) = ss_on_message ll garbage d"
| "ss_on_ctl ll garbage order (StateChange st) = ss_on_state order st"
| "ss_on_ctl ll garbage order LoginSuccess = skip"
| "ss_on_ctl ll garbage order (Link a) = emit [SsCtl (Link a)]"

definition ss_ctl_event ::
  "'l llhttp \<Rightarrow> (string \<Rightarrow> json option) \<Rightarrow> (json \<Rightarrow> string) \<Rightarrow> u16 \<Rightarrow> u32 list \<Rightarrow> ctl_event \<Rightarrow> 'l ss_handler" where
  "ss_ctl_event ll parse dump garbage order e s =
     cbind (ctl_handle parse dump e (ss_controller s)) (\<lambda>(c, acts).
       for_each (ss_on_ctl ll garbage order) acts (s\<lparr>ss_controller := c\<rparr>))"

subsection \<open>The server's clients\<close>

record 'l ws_server =
  client_sessions :: "(u32 \<times> nat) list"
  cl_heap :: "nat \<Rightarrow> 'l server_session option"
  cl_next :: nat
  cl_id :: u32
  server_password :: string

datatype ws_action = WsClient nat ss_action

definition ProcessNewWsClient_new :: "string \<Rightarrow> 'l ws_server" where
  "ProcessNewWsClient_new pw =
     \<lparr>client_sessions = [], cl_heap = (\<lambda>_. None), cl_next = 0, cl_id = 0, server_password = pw\<rparr>"

definition client_session_id :: "u32 \<Rightarrow> u32 \<times> u32" where
  "client_session_id i = (let j = (if i > 65535 then 0 else i) in (j + 1, j + 1))"

fun ws_route :: "nat \<Rightarrow> ss_action \<Rightarrow> ('l ws_server, ws_action) handler" where
  "ws_route c (SsClosed sid) = modify (\<lambda>v. v\<lparr>client_sessions := AList.delete sid (client_sessions v)\<rparr>)"
| "ws_route c a = emit [WsClient c a]"

definition run_client :: "nat \<Rightarrow> 'l ss_handler \<Rightarrow> ('l ws_server, ws_action) handler" where
  "run_client c h v =
     (case cl_heap v c of None \<Rightarrow> Inl NullDeref
      | Some s \<Rightarrow> cbind (h s) (\<lambda>(s', acts).
          for_each (ws_route c) acts (v\<lparr>cl_heap := (cl_heap v)(c \<mapsto> s')\<rparr>)))"

definition newClient :: "ws_state \<Rightarrow> ('l ws_server, ws_action) handler" where
  "newClient ws v =
     (case client_session_id (cl_id v) of (i, j) \<Rightarrow>
        let c = cl_next v; s = bindCloseFunc (ServerSession_new i) in
        run_client c (ss_start ws (server_password v))
          (v\<lparr>cl_id := j, cl_heap := (cl_heap v)(c \<mapsto> s), cl_next := Suc c,
             client_sessions := AList.update i c (client_sessions v)\<rparr>))"

definition stop_client :: "u32 \<Rightarrow> ('l ws_server, ws_action) handler" where
  "stop_client i v =
     (case map_of (client_sessions v) i of None \<Rightarrow> skip v | Some c \<Rightarrow> run_client c ss_stop v)"

definition ws_stop :: "u32 list \<Rightarrow> ('l ws_server, ws_action) handler" where
  "ws_stop order = for_each stop_client order"

interpretation client_ids: id_source client_session_id "\<lambda>i. i"
  by unfold_locales (unfold client_session_id_def, fold create_session_id_def, rule create_session_id_step)

interpretation tunnel_table: id_table "\<lambda>s :: 'l server_session. map_of (tunnel_sessions s)"
  "\<lambda>sid a s. s\<lparr>tunnel_sessions := AList.update sid a (tunnel_sessions s)\<rparr>"
  "\<lambda>sid s. s\<lparr>tunnel_sessions := AList.delete sid (tunnel_sessions s)\<rparr>"
  by unfold_locales (auto simp: update_conv' delete_conv')

interpretation client_table: id_table "\<lambda>v :: 'l ws_server. map_of (client_sessions v)"
  "\<lambda>i c v. v\<lparr>client_sessions := AList.update i c (client_sessions v)\<rparr>"
  "\<lambda>i v. v\<lparr>client_sessions := AList.delete i (client_sessions v)\<rparr>"
  by unfold_locales (auto simp: update_conv' delete_conv')

subsection \<open>Invariant of a client's session\<close>

text \<open>
  Every tunnel in the store is well formed; what the multiplexer's table and the session's table name
  is a tunnel of that stream that still holds its target.
\<close>

definition live :: "'l server_session \<Rightarrow> nat \<Rightarrow> u32 \<Rightarrow> bool" where
  "live s a sid \<longleftrightarrow> (\<exists>t. ss_heap s a = Some t \<and> tn_stream_id t = sid \<and> tn_held t)"

definition heap_ok :: "'l server_session \<Rightarrow> bool" where
  "heap_ok s \<longleftrightarrow> (\<forall>a t. ss_heap s a = Some t \<longrightarrow> a < ss_next s \<and> tn_ok t)"

definition streams_ok :: "'l server_session \<Rightarrow> bool" where
  "streams_ok s \<longleftrightarrow> (\<forall>sid b. abs_sessions (ss_mux s) sid = Some b \<longrightarrow>
     (\<exists>a. b = bound_session a sid \<and> live s a sid))"

definition table_ok :: "'l server_session \<Rightarrow> bool" where
  "table_ok s \<longleftrightarrow> (\<forall>sid a. map_of (tunnel_sessions s) sid = Some a \<longrightarrow> live s a sid)"

definition ss_inv :: "'l server_session \<Rightarrow> bool" where
  "ss_inv s \<longleftrightarrow> wf_manager (manager (ss_mux s)) \<and> heap_ok s \<and> streams_ok s \<and> table_ok s"

lemma ss_inv_new: "ss_inv (ServerSession_new sid)"
  by (simp add: ss_inv_def ServerSession_new_def SessionMux_new_def wf_manager_new [unfolded SessionManager_new_def]
      heap_ok_def streams_ok_def
      table_ok_def abs_sessions_def find_session_def SessionManager_new_def)

text \<open>Sending and the other calls of a tunnel that lives on leave the session as it is.\<close>

lemma ss_send_safe: "\<exists>acts. ss_send f s = Inr (s, acts)"
proof (cases "packMessage f (length f)")
  case (Inl e)
  then show ?thesis by (auto simp: ss_send_def skip_def packMessage_def split: if_splits)
next
  case (Inr buf)
  then show ?thesis
    by (auto simp: ss_send_def ctl_send_def P2PClient_send_def emit_def)
qed

lemma ss_routes_quiet:
  assumes "\<forall>sid. TnErase sid \<notin> set acts"
  shows "\<exists>as. for_each (ss_route a) acts s = Inr (s, as)"
  using assms
proof (induction acts)
  case (Cons x acts)
  have "\<exists>a1. ss_route a x s = Inr (s, a1)"
    using Cons.prems ss_send_safe [of _ s] by (cases x) (auto simp: emit_def)
  with Cons show ?case by (auto simp: andThen_def)
qed (simp add: skip_def)

definition ss_safe :: "('l server_session \<times> ss_action list) cpp \<Rightarrow> bool" where
  "ss_safe r \<longleftrightarrow> (\<exists>s acts. r = Inr (s, acts) \<and> ss_inv s)"

lemma live_upd:
  assumes "ss_heap s a = Some t" "tn_stream_id t' = tn_stream_id t" "tn_held t' = tn_held t"
  shows "live (s\<lparr>ss_heap := (ss_heap s)(a \<mapsto> t')\<rparr>) b sid = live s b sid"
  using assms by (auto simp: live_def)

lemma run_tunnel_quiet:
  assumes "ss_inv s" "ss_heap s a = Some t" "tn_quiet \<lparr>tun = t, tun_mux = ss_mux s\<rparr> (h \<lparr>tun = t, tun_mux = ss_mux s\<rparr>)"
  shows "\<exists>t' acts. run_tunnel a h s = Inr (s\<lparr>ss_heap := (ss_heap s)(a \<mapsto> t')\<rparr>, acts) \<and>
    ss_inv (s\<lparr>ss_heap := (ss_heap s)(a \<mapsto> t')\<rparr>)"
proof -
  from assms(3) obtain w acts where h: "h \<lparr>tun = t, tun_mux = ss_mux s\<rparr> = Inr (w, acts)" "tn_ok (tun w)"
    "tun_mux w = ss_mux s" "tn_stream_id (tun w) = tn_stream_id t" "tn_held (tun w) = tn_held t"
    "\<forall>sid. TnErase sid \<notin> set acts" by (auto simp: tn_quiet_def)
  let ?s = "s\<lparr>ss_heap := (ss_heap s)(a \<mapsto> tun w)\<rparr>"
  obtain as where "for_each (ss_route a) acts ?s = Inr (?s, as)" using ss_routes_quiet [OF h(6)] by blast
  moreover have "ss_inv ?s"
    using assms(1,2) h(2) live_upd [OF assms(2) h(4,5)]
    by (auto simp: ss_inv_def heap_ok_def streams_ok_def table_ok_def)
  moreover have "s\<lparr>ss_heap := (ss_heap s)(a \<mapsto> tun w), ss_mux := ss_mux s\<rparr> = ?s" by simp
  ultimately show ?thesis using assms(2) h(1,3) by (auto simp: run_tunnel_def)
qed

lemma run_tunnel_quiet_safe:
  assumes "ss_inv s" "ss_heap s a = Some t" "tn_quiet \<lparr>tun = t, tun_mux = ss_mux s\<rparr> (h \<lparr>tun = t, tun_mux = ss_mux s\<rparr>)"
  shows "ss_safe (run_tunnel a h s)"
  using run_tunnel_quiet [where h = h, OF assms] by (auto simp: ss_safe_def)

lemma abs_sessions_remove:
  "abs_sessions (SessionMux_remove_session sid x) sid' = (if sid' = sid then None else abs_sessions x sid')"
  by (simp add: abs_sessions_def SessionMux_remove_session_def remove_session_def find_session_def)

lemma run_tunnel_ended:
  assumes "ss_inv s" "ss_heap s a = Some t" "tn_ended \<lparr>tun = t, tun_mux = ss_mux s\<rparr> (h \<lparr>tun = t, tun_mux = ss_mux s\<rparr>)"
  shows "\<exists>s' acts. run_tunnel a h s = Inr (s', acts) \<and> ss_inv s' \<and> \<not> live s' a (tn_stream_id t) \<and>
    abs_sessions (ss_mux s') (tn_stream_id t) = None \<and> map_of (tunnel_sessions s') (tn_stream_id t) = None \<and>
    (\<forall>b sid. b \<noteq> a \<longrightarrow> live s' b sid = live s b sid)"
proof -
  let ?sid = "tn_stream_id t"
  from assms(3) obtain w acts where h: "h \<lparr>tun = t, tun_mux = ss_mux s\<rparr> = Inr (w, acts @ [TnErase ?sid])"
    "tn_ok (tun w)" "tun_mux w = SessionMux_remove_session ?sid (ss_mux s)"
    "tn_stream_id (tun w) = ?sid" "\<not> tn_held (tun w)" "\<forall>sid. TnErase sid \<notin> set acts"
    by (auto simp: tn_ended_def)
  let ?s = "s\<lparr>ss_heap := (ss_heap s)(a \<mapsto> tun w), ss_mux := SessionMux_remove_session ?sid (ss_mux s)\<rparr>"
  let ?s' = "?s\<lparr>tunnel_sessions := AList.delete ?sid (tunnel_sessions s)\<rparr>"
  obtain as where "for_each (ss_route a) acts ?s = Inr (?s, as)" using ss_routes_quiet [OF h(6)] by blast
  then have "for_each (ss_route a) (acts @ [TnErase ?sid]) ?s = Inr (?s', as)"
    by (simp add: for_each_append andThen_def modify_def skip_def)
  with h(1,3) assms(2) have run: "run_tunnel a h s = Inr (?s', as)" by (simp add: run_tunnel_def)
  have live: "live ?s' b sid \<longleftrightarrow> b \<noteq> a \<and> live s b sid" for b sid
    using h(5) by (auto simp: live_def)
  have own: "sid = ?sid" if "live s a sid" for sid using that assms(2) by (auto simp: live_def)
  have "wf_manager (manager (ss_mux ?s'))" "heap_ok ?s'"
    using assms(1,2) h(2) by (auto simp: ss_inv_def heap_ok_def SessionMux_remove_session_def wf_remove_session)
  moreover have "streams_ok ?s'"
    unfolding streams_ok_def
  proof (intro allI impI)
    fix sid b assume "abs_sessions (ss_mux ?s') sid = Some b"
    then have sid: "sid \<noteq> ?sid" "abs_sessions (ss_mux s) sid = Some b"
      by (auto simp: abs_sessions_remove split: if_splits)
    with assms(1) obtain c where "b = bound_session c sid" "live s c sid"
      by (auto simp: ss_inv_def streams_ok_def)
    with sid(1) own live show "\<exists>c. b = bound_session c sid \<and> live ?s' c sid" by metis
  qed
  moreover have "table_ok ?s'"
    unfolding table_ok_def
  proof (intro allI impI)
    fix sid c assume "map_of (tunnel_sessions ?s') sid = Some c"
    then have sid: "sid \<noteq> ?sid" "map_of (tunnel_sessions s) sid = Some c"
      by (auto simp: delete_conv' split: if_splits)
    with assms(1) have "live s c sid" by (auto simp: ss_inv_def table_ok_def)
    with sid(1) own live show "live ?s' c sid" by metis
  qed
  ultimately have "ss_inv ?s'" by (simp add: ss_inv_def)
  with run live show ?thesis by (auto simp: abs_sessions_remove delete_conv')
qed

lemma abs_sessions_with_stream:
  assumes "wf_manager (manager x)"
  shows "abs_sessions (with_stream me sid x) sid' =
    (if sid' = sid then Some (bound_session me sid) else abs_sessions x sid')"
proof -
  have "sessions (manager x) sid' \<noteq> Some (next_ptr (manager x))"
    using wf_manager_fresh [OF assms, of "next_ptr (manager x)"] by (auto elim: wf_managerE [OF assms])
  then show ?thesis
    by (cases "sessions (manager x) sid'") (auto simp: abs_sessions_def find_session_def with_stream_def)
qed

lemma with_stream_fields [simp]:
  "send_func_set (with_stream me sid x) = send_func_set x" "peer_conn_id (with_stream me sid x) = peer_conn_id x"
  "on_syn_set (with_stream me sid x) = on_syn_set x"
  by (simp_all add: with_stream_def)

text \<open>A SYN for a protocol that is served: a new tunnel, under its stream in both tables.\<close>

lemma ss_on_syn_served:
  assumes "ss_inv s" "served prot"
  shows "\<exists>s'. ss_on_syn ll sid host port prot s =
      Inr (s', [SsSock (ss_next s) (first_call prot host port)]) \<and> ss_inv s' \<and>
    live s' (ss_next s) sid \<and> abs_sessions (ss_mux s') sid = Some (bound_session (ss_next s) sid) \<and>
    map_of (tunnel_sessions s') sid = Some (ss_next s) \<and> ss_controller s' = ss_controller s \<and>
    (\<forall>b. b \<noteq> ss_next s \<longrightarrow> ss_heap s' b = ss_heap s b) \<and> ss_next s' = Suc (ss_next s) \<and>
    send_func_set (ss_mux s') = send_func_set (ss_mux s) \<and> peer_conn_id (ss_mux s') = peer_conn_id (ss_mux s) \<and>
    (\<exists>t ob. ss_heap s' (ss_next s) = Some t \<and> tn_protocol t = prot \<and> tn_ok t \<and> tn_held t \<and> tn_stream_id t = sid \<and>
      tn_obj t = Some (bind_all ob) \<and> target_of ll prot = Some ob)"
proof -
  let ?a = "ss_next s" and ?t = "tn_bind_close_func (TunnelSession_new ll sid prot)"
  let ?w = "\<lparr>tun = ?t, tun_mux = ss_mux s\<rparr>"
  have "tun ?w = ?t" by simp
  from tn_start_served [OF assms(2) this, of ?a host port] obtain w ob where
    w: "tn_start ?a host port ?w = Inr (w, [TnSock (first_call prot host port)])" "tn_ok (tun w)"
      "tn_held (tun w)" "tn_stream_id (tun w) = sid" "tn_protocol (tun w) = prot"
      "tun_mux w = with_stream ?a sid (ss_mux s)" "tn_obj (tun w) = Some (bind_all ob)" "target_of ll prot = Some ob"
    by (metis tunnel_world.select_convs(2))
  let ?s' = "s\<lparr>ss_heap := (ss_heap s)(?a \<mapsto> tun w), ss_next := Suc ?a,
      tunnel_sessions := AList.update sid ?a (tunnel_sessions s), ss_mux := with_stream ?a sid (ss_mux s)\<rparr>"
  have run: "ss_on_syn ll sid host port prot s = Inr (?s', [SsSock ?a (first_call prot host port)])"
    using w(1,6) by (simp add: ss_on_syn_def run_tunnel_def emit_def andThen_def skip_def Let_def)
  have wf: "wf_manager (manager (ss_mux s))" using assms(1) by (simp add: ss_inv_def)
  have fresh: "ss_heap s ?a = None"
    using assms(1) by (cases "ss_heap s ?a") (auto simp: ss_inv_def heap_ok_def)
  have live: "live ?s' b sid'" if "live s b sid'" for b sid'
    using that fresh by (auto simp: live_def)
  have new: "live ?s' ?a sid" using w by (simp add: live_def)
  have "heap_ok ?s'" using assms(1) w(2) by (auto simp: ss_inv_def heap_ok_def less_Suc_eq)
  moreover have "streams_ok ?s'"
    using assms(1) live new unfolding ss_inv_def streams_ok_def
    by (simp add: abs_sessions_with_stream [OF wf]) blast
  moreover have "table_ok ?s'"
    using assms(1) live new unfolding ss_inv_def table_ok_def by (simp add: update_conv')
  ultimately have "ss_inv ?s'" by (simp add: ss_inv_def wf_with_stream [OF wf])
  with run new show ?thesis using w
    by (simp add: abs_sessions_with_stream [OF wf] update_conv')
qed

text \<open>Frames.\<close>

lemma live_ok: "ss_inv s \<Longrightarrow> live s a sid \<Longrightarrow> \<exists>t. ss_heap s a = Some t \<and> tn_ok t \<and> tn_held t \<and> tn_stream_id t = sid"
  by (auto simp: ss_inv_def heap_ok_def live_def)

lemma ss_upcall_safe:
  assumes "ss_inv s" "upcall_of_session (ss_mux s) h payload n c" "n \<le> length payload"
    and "\<And>sid host port p. c = CallSyn sid host port p \<Longrightarrow> served p"
  shows "ss_safe (ss_upcall ll g c s)"
proof -
  have callee: "\<exists>t. ss_heap s a = Some t \<and> tn_ok t \<and> tn_held t"
    if "abs_sessions (ss_mux s) sid = Some b" "on_data b = Some a \<or> on_close b = Some a \<or> on_data_ctrl b = Some a"
    for sid b a
  proof -
    from assms(1) that(1) obtain a' where "b = bound_session a' sid" "live s a' sid"
      by (auto simp: ss_inv_def streams_ok_def)
    with that(2) live_ok [OF assms(1)] show ?thesis by (auto simp: bound_session_def)
  qed
  show ?thesis
  proof (cases c)
    case (CallSyn sid host port p)
    with ss_on_syn_served [OF assms(1) assms(4)] show ?thesis by (fastforce simp: ss_safe_def)
  next
    case (CallData a d m p)
    with assms(2) obtain b where b: "abs_sessions (ss_mux s) (fh_stream_id h) = Some b" "on_data b = Some a" by auto
    from callee [OF b(1)] b(2) obtain t where t: "ss_heap s a = Some t" "tn_ok t" "tn_held t" by blast
    from CallData assms(2,3) have "m \<le> length d" by simp
    with t p2p_revData_quiet [of "\<lparr>tun = t, tun_mux = ss_mux s\<rparr>" m d ll g p]
      run_tunnel_quiet_safe [OF assms(1) t(1), where h = "p2p_revData ll g d m p"]
    show ?thesis by (simp add: CallData)
  next
    case (CallClose a p)
    with assms(2) obtain b where b: "abs_sessions (ss_mux s) (fh_stream_id h) = Some b" "on_close b = Some a" by auto
    from callee [OF b(1)] b(2) obtain t where t: "ss_heap s a = Some t" "tn_ok t" "tn_held t" by blast
    with tn_close_quiet [of "\<lparr>tun = t, tun_mux = ss_mux s\<rparr>"]
      run_tunnel_quiet_safe [OF assms(1) t(1), where h = tn_close] CallClose
    show ?thesis by simp
  next
    case (CallCtrl a ctrl p)
    with assms(2) obtain b where b: "abs_sessions (ss_mux s) (fh_stream_id h) = Some b" "on_data_ctrl b = Some a" by auto
    from callee [OF b(1)] b(2) obtain t where t: "ss_heap s a = Some t" "tn_ok t" "tn_held t" by blast
    with p2p_revCtrl_quiet [of "\<lparr>tun = t, tun_mux = ss_mux s\<rparr>" ctrl p]
      run_tunnel_quiet_safe [OF assms(1) t(1), where h = "p2p_revCtrl ctrl p"] CallCtrl
    show ?thesis by simp
  qed (simp add: ss_safe_def skip_def assms(1))
qed

text \<open>The message opens no stream for a protocol that is not served.\<close>

definition ok_message :: "bytes \<Rightarrow> bool" where
  "ok_message d \<longleftrightarrow>
     (case unpackMessage d (length d) of Inl _ \<Rightarrow> True | Inr None \<Rightarrow> True
      | Inr (Some (payload, n)) \<Rightarrow> (case FrameHeader_decode payload (unat n) of Inl _ \<Rightarrow> True | Inr None \<Rightarrow> True
         | Inr (Some h) \<Rightarrow> fh_type h = SYN \<longrightarrow> served (fh_protocol h)))"

definition opens_unserved :: "'l server_session \<Rightarrow> bytes \<Rightarrow> bool" where
  "opens_unserved s d \<longleftrightarrow> (\<exists>payload n sid host port prot. unpackMessage d (length d) = Inr (Some (payload, n)) \<and>
     on_p2p_data (ss_mux s) payload (unat n) = Inr (Some (CallSyn sid host port prot)) \<and> \<not> served prot)"

lemma ss_on_message_safe:
  assumes "ss_inv s" "\<not> opens_unserved s d"
  shows "ss_safe (ss_on_message ll g d s)"
proof -
  from unpackMessage_safe [OF order_refl] obtain r where r: "unpackMessage d (length d) = Inr r"
    by (rule safeE)
  show ?thesis
  proof (cases r)
    case (Some pn)
    obtain payload n where pn: "pn = (payload, n)" by (cases pn)
    have len: "unat n \<le> length payload"
      using r Some pn by (auto simp: unpackMessage_def Let_def rd_range_def split: if_splits)
    from assms(1) have "wf_manager (manager (ss_mux s))" by (simp add: ss_inv_def)
    from on_p2p_data_safe_aux [OF this len] obtain u where
      u: "on_p2p_data (ss_mux s) payload (unat n) = Inr u" by (rule safeE)
    show ?thesis
    proof (cases u)
      case (Some c)
      from on_p2p_data_upcall [OF u [unfolded Some]] obtain h where
        h: "FrameHeader_decode payload (unat n) = Inr (Some h)"
          "upcall_of_session (ss_mux s) h (drop 6 payload) (unat n - 6) c" by blast
      have "ss_safe (ss_upcall ll g c s)"
      proof (rule ss_upcall_safe [OF assms(1) h(2)])
        fix sid host port p assume "c = CallSyn sid host port p"
        with assms(2) r \<open>r = Some pn\<close> pn u Some show "served p" by (auto simp: opens_unserved_def)
      qed (use len in simp)
      then show ?thesis by (simp add: ss_on_message_def r \<open>r = Some pn\<close> pn u Some)
    qed (simp add: ss_on_message_def r Some pn u ss_safe_def skip_def assms(1))
  qed (simp add: ss_on_message_def r ss_safe_def skip_def assms(1))
qed

lemma ok_message_opens: "ok_message d \<Longrightarrow> \<not> opens_unserved s d"
proof
  assume ok: "ok_message d" and "opens_unserved s d"
  then obtain payload n sid host port prot where o: "unpackMessage d (length d) = Inr (Some (payload, n))"
    "on_p2p_data (ss_mux s) payload (unat n) = Inr (Some (CallSyn sid host port prot))" "\<not> served prot"
    by (auto simp: opens_unserved_def)
  from on_p2p_data_upcall [OF o(2)] obtain h where h: "FrameHeader_decode payload (unat n) = Inr (Some h)"
    "upcall_of_session (ss_mux s) h (drop 6 payload) (unat n - 6) (CallSyn sid host port prot)" by blast
  have "fh_type h = SYN"
    using o(2) h(1) by (cases "fh_type h")
      (auto simp: on_p2p_data_def Let_def on_synack_frame_def on_data_frame_def on_fin_frame_def
        on_data_ctrl_frame_def cbind_eq_Inr dest!: with_callback_Some split: if_splits)
  with ok o(1,3) h show False by (simp add: ok_message_def)
qed

text \<open>The switch of the constructor makes no object, and \<open>init\<close> follows the pointer.\<close>

lemma ss_on_syn_unserved:
  assumes "\<not> served prot"
  shows "ss_on_syn ll sid host port prot s = Inl NullDeref"
  using tn_start_unserved [OF assms, of "\<lparr>tun = tn_bind_close_func (TunnelSession_new ll sid prot), tun_mux = ss_mux s\<rparr>"]
  by (simp add: ss_on_syn_def run_tunnel_def Let_def)

text \<open>Closing the tunnels.\<close>

definition close_call :: "'l tunnel \<Rightarrow> si_action" where
  "close_call t = (case map_option si_class (tn_obj t) of Some UdpClient \<Rightarrow> SiUdpClose | _ \<Rightarrow> SiTcp EvClose)"

lemma tn_close_run:
  assumes "tn_ok (tun w)" "tn_held (tun w)"
  shows "\<exists>w'. tn_close w = Inr (w', [TnSock (close_call (tun w))]) \<and> tn_ok (tun w') \<and> tun_mux w' = tun_mux w \<and>
    tn_stream_id (tun w') = tn_stream_id (tun w) \<and> tn_held (tun w')"
  using assms(1)
proof (rule tn_okE)
  fix ob assume ob: "tn_obj (tun w) = Some ob" "tn_held (tun w) \<Longrightarrow> si_socket ob"
  let ?w = "tn_upd (\<lambda>t. t\<lparr>tn_obj := Some (ob\<lparr>si_p2p_closed := True\<rparr>)\<rparr>) w"
  have "si_stop ob = Inr (ob\<lparr>si_p2p_closed := True\<rparr>, [close_call (tun w)])"
    using ob assms(2) by (simp add: si_stop_def andThen_def modify_def si_close_def si_sock_def emit_def
        close_call_def split: target_class.splits)
  moreover have "tn_report (close_call (tun w)) u = Inr (u, [TnSock (close_call (tun w))])" for u :: "'a tunnel_world"
    by (simp add: close_call_def emit_def split: option.splits target_class.splits)
  ultimately have "tn_close w = Inr (?w, [TnSock (close_call (tun w))])"
    using ob assms(2) by (simp add: tn_close_def through_def on_obj_def andThen_def skip_def)
  then show ?thesis using assms ob(1) by (auto simp: tn_ok_def)
qed

lemma close_tunnel_run:
  assumes "ss_inv s"
  shows "\<exists>h acts. close_tunnel sid s = Inr (s\<lparr>ss_heap := h\<rparr>, acts) \<and> ss_inv (s\<lparr>ss_heap := h\<rparr>) \<and>
    (\<forall>a. map_of (tunnel_sessions s) sid = Some a \<longrightarrow> (\<exists>x\<in>{SiUdpClose, SiTcp EvClose}. acts = [SsSock a x]))"
proof (cases "map_of (tunnel_sessions s) sid")
  case None
  have "s\<lparr>ss_heap := ss_heap s\<rparr> = s" by simp
  with None assms show ?thesis by (intro exI [of _ "ss_heap s"] exI [of _ "[]"]) (simp add: close_tunnel_def skip_def)
next
  case (Some a)
  with assms have "live s a sid" by (auto simp: ss_inv_def table_ok_def)
  from live_ok [OF assms this] obtain t where t: "ss_heap s a = Some t" "tn_ok t" "tn_held t" by blast
  let ?w = "\<lparr>tun = t, tun_mux = ss_mux s\<rparr>"
  obtain w where w: "tn_close ?w = Inr (w, [TnSock (close_call t)])" "tn_ok (tun w)" "tun_mux w = ss_mux s"
    "tn_stream_id (tun w) = tn_stream_id t" "tn_held (tun w)"
    using tn_close_run [of ?w] t by auto
  then have "tn_quiet ?w (tn_close ?w)" using t by (simp add: tn_quiet_def)
  from run_tunnel_quiet [where h = tn_close, OF assms t(1) this] obtain t' acts where
    r: "run_tunnel a tn_close s = Inr (s\<lparr>ss_heap := (ss_heap s)(a \<mapsto> t')\<rparr>, acts)"
       "ss_inv (s\<lparr>ss_heap := (ss_heap s)(a \<mapsto> t')\<rparr>)" by blast
  moreover have "acts = [SsSock a (close_call t)]"
    using r(1) w(1) t(1) by (simp add: run_tunnel_def andThen_def emit_def skip_def)
  moreover have "close_call t \<in> {SiUdpClose, SiTcp EvClose}"
    by (simp add: close_call_def split: option.splits target_class.splits)
  ultimately show ?thesis using Some by (intro exI conjI allI impI) (auto simp: close_tunnel_def)
qed

lemma close_tunnels_run:
  assumes "ss_inv s"
  shows "\<exists>h acts. for_each close_tunnel order s = Inr (s\<lparr>ss_heap := h\<rparr>, acts) \<and> ss_inv (s\<lparr>ss_heap := h\<rparr>) \<and>
    (\<forall>sid a. sid \<in> set order \<longrightarrow> map_of (tunnel_sessions s) sid = Some a \<longrightarrow>
       (\<exists>x\<in>{SiUdpClose, SiTcp EvClose}. SsSock a x \<in> set acts))"
  using assms
proof (induction order arbitrary: s)
  case Nil
  have "s\<lparr>ss_heap := ss_heap s\<rparr> = s" by simp
  with Nil show ?case by (intro exI [of _ "ss_heap s"] exI [of _ "[]"]) (simp add: skip_def)
next
  case (Cons sid order)
  from close_tunnel_run [OF Cons.prems, of sid] obtain h a1 where
    1: "close_tunnel sid s = Inr (s\<lparr>ss_heap := h\<rparr>, a1)" "ss_inv (s\<lparr>ss_heap := h\<rparr>)"
      "\<forall>a. map_of (tunnel_sessions s) sid = Some a \<longrightarrow> (\<exists>x\<in>{SiUdpClose, SiTcp EvClose}. a1 = [SsSock a x])"
    by blast
  from Cons.IH [OF 1(2)] obtain h' a2 where
    2: "for_each close_tunnel order (s\<lparr>ss_heap := h\<rparr>) = Inr (s\<lparr>ss_heap := h'\<rparr>, a2)" "ss_inv (s\<lparr>ss_heap := h'\<rparr>)"
      "\<forall>sid a. sid \<in> set order \<longrightarrow> map_of (tunnel_sessions s) sid = Some a \<longrightarrow>
         (\<exists>x\<in>{SiUdpClose, SiTcp EvClose}. SsSock a x \<in> set a2)" by auto
  have "for_each close_tunnel (sid # order) s = Inr (s\<lparr>ss_heap := h'\<rparr>, a1 @ a2)"
    using 1(1) 2(1) by (simp add: andThen_def)
  moreover have "\<exists>x\<in>{SiUdpClose, SiTcp EvClose}. SsSock a x \<in> set (a1 @ a2)"
    if "i \<in> set (sid # order)" "map_of (tunnel_sessions s) i = Some a" for i a
    using that 1(3) 2(3) by (cases "i = sid") auto
  ultimately show ?case using 2(2) by blast
qed

subsection \<open>Reachable states\<close>

datatype ss_event =
    SevMessage u16 bytes
  | SevTarget nat target_event
  | SevTimer bool
  | SevState "u32 list" controller_state

fun ss_handle :: "'l llhttp \<Rightarrow> ss_event \<Rightarrow> 'l ss_handler" where
  "ss_handle ll (SevMessage garbage d) = ss_on_message ll garbage d"
| "ss_handle ll (SevTarget a e) = ss_on_target a e"
| "ss_handle ll (SevTimer ec) = ss_on_timer ec"
| "ss_handle ll (SevState order st) = ss_on_state order st"

text \<open>
  What may happen to a session: a target reports that there is, and its socket hands over no more bytes than
  its buffer has.
\<close>

fun ss_possible :: "'l server_session \<Rightarrow> ss_event \<Rightarrow> bool" where
  "ss_possible s (SevTarget a (TevData d n)) = (ss_heap s a \<noteq> None \<and> n \<le> length d)"
| "ss_possible s (SevTarget a (TevDatagram host port d n)) = (ss_heap s a \<noteq> None \<and> n \<le> length d)"
| "ss_possible s (SevTarget a e) = (ss_heap s a \<noteq> None)"
| "ss_possible s e = True"

text \<open>
  The events that are fatal, with the failure: a message that opens a stream for a protocol that is not
  served, a write-queue report of a target's socket, and a closed link once the timer is gone.
\<close>

fun ss_fatal :: "'l server_session \<Rightarrow> ss_event \<Rightarrow> cpp_error option" where
  "ss_fatal s (SevMessage garbage d) = (if opens_unserved s d then Some NullDeref else None)"
| "ss_fatal s (SevTarget a (TevWriteQueue st)) = Some BadFunctionCall"
| "ss_fatal s (SevState order st) = (if st = SessionController.Closed \<and> ss_timer s = None then Some NullDeref else None)"
| "ss_fatal s e = None"

text \<open>What is enough for an event not to be fatal, without a look at the multiplexer.\<close>

fun ss_bears :: "'l server_session \<Rightarrow> ss_event \<Rightarrow> bool" where
  "ss_bears s (SevMessage garbage d) = ok_message d"
| "ss_bears s (SevTarget a e) = (ss_heap s a \<noteq> None \<and> ok_event e)"
| "ss_bears s (SevTimer ec) = True"
| "ss_bears s (SevState order st) = (st = SessionController.Closed \<longrightarrow> ss_timer s \<noteq> None)"

text \<open>Between two events the controller may have changed its own state in any way.\<close>

inductive ss_reach :: "'l llhttp \<Rightarrow> 'l server_session \<Rightarrow> bool" for ll where
  fresh: "ss_start ws pw (bindCloseFunc (ServerSession_new sid)) = Inr (s, acts) \<Longrightarrow> ss_reach ll s"
| step: "ss_reach ll s \<Longrightarrow> ss_possible s e \<Longrightarrow> ss_handle ll e s = Inr (s', acts) \<Longrightarrow> ss_reach ll s'"
| link: "ss_reach ll s \<Longrightarrow> ss_reach ll (s\<lparr>ss_controller := c\<rparr>)"

lemma ss_inv_controls:
  "ss_inv (s\<lparr>ss_timer := x\<rparr>) = ss_inv s" "ss_inv (s\<lparr>ss_close_cb := y\<rparr>) = ss_inv s"
  "ss_inv (s\<lparr>ss_controller := c\<rparr>) = ss_inv s"
  by (simp_all add: ss_inv_def heap_ok_def streams_ok_def table_ok_def live_def)

lemma ss_handle_safe:
  assumes "ss_inv s" "ss_possible s e" "ss_fatal s e = None"
  shows "ss_safe (ss_handle ll e s)"
proof (cases e)
  case (SevMessage g d)
  with assms(3) have "\<not> opens_unserved s d" by (simp split: if_splits)
  with ss_on_message_safe [OF assms(1)] SevMessage show ?thesis by simp
next
  case (SevTarget a te)
  with assms obtain t where t: "ss_heap s a = Some t" "tn_ok t" "ok_event te"
    by (cases te) (auto simp: ss_inv_def heap_ok_def)
  let ?w = "\<lparr>tun = t, tun_mux = ss_mux s\<rparr>"
  have "tn_quiet ?w (tn_on_target te ?w) \<or> tn_ended ?w (tn_on_target te ?w)"
    using tn_on_target_cases [of ?w te] t by auto
  with run_tunnel_quiet_safe [OF assms(1) t(1), where h = "tn_on_target te"]
    run_tunnel_ended [OF assms(1) t(1), where h = "tn_on_target te"]
  show ?thesis by (auto simp: SevTarget ss_on_target_def ss_safe_def)
next
  case (SevTimer ec)
  with assms show ?thesis
    by (auto simp: ss_on_timer_def ss_safe_def skip_def ss_inv_controls Let_def split: option.splits prod.splits)
next
  case (SevState order st)
  show ?thesis
  proof (cases st)
    case Closed
    with SevState assms(3) obtain t where t: "ss_timer s = Some t" by (auto split: if_splits)
    let ?s = "s\<lparr>ss_timer := Some (Timer_start t)\<rparr>"
    have "ss_inv ?s" using assms(1) by (simp add: ss_inv_controls)
    from close_tunnels_run [OF this, of order] t show ?thesis
      by (auto simp: SevState Closed ss_on_state_def andThen_def notifyClose_def ss_safe_def)
  qed (simp add: SevState ss_on_state_def ss_safe_def skip_def assms)
qed

lemma ss_handle_fatal:
  assumes "ss_inv s" "ss_possible s e" "ss_fatal s e = Some er"
  shows "ss_handle ll e s = Inl er"
proof (cases "(s, e)" rule: ss_fatal.cases)
  case (1 s' g d)
  with assms(3) have "opens_unserved s d" "er = NullDeref" by (auto split: if_splits)
  then show ?thesis using 1 ss_on_syn_unserved by (auto simp: opens_unserved_def ss_on_message_def)
next
  case (2 s' a st)
  with assms obtain t where "ss_heap s a = Some t" "tn_ok t" "er = BadFunctionCall"
    by (auto simp: ss_inv_def heap_ok_def)
  with write_queue_throws [of "\<lparr>tun = t, tun_mux = ss_mux s\<rparr>" st] 2 show ?thesis
    by (simp add: ss_on_target_def run_tunnel_def)
qed (use assms in \<open>auto simp: ss_on_state_def andThen_def notifyClose_def split: if_splits\<close>)

lemma bears_possible: "ss_bears s e \<Longrightarrow> ss_possible s e"
  by (cases "(s, e)" rule: ss_possible.cases) auto

lemma bears_not_fatal: "ss_bears s e \<Longrightarrow> ss_fatal s e = None"
  using ok_message_opens by (cases "(s, e)" rule: ss_fatal.cases) auto

lemma ss_reach_inv: "ss_reach ll s \<Longrightarrow> ss_inv s"
proof (induction rule: ss_reach.induct)
  case (fresh ws pw sid s acts)
  have "ss_inv (ServerSession_new sid)" by (rule ss_inv_new)
  with fresh show ?case
    by (auto simp: ss_start_def bindCloseFunc_def ss_inv_def heap_ok_def streams_ok_def table_ok_def live_def
        set_on_syn_def set_send_func_def abs_sessions_def split: option.splits)
next
  case (step s e s' acts)
  then show ?case
    using ss_handle_safe [OF step.IH step.hyps(2), of ll] ss_handle_fatal [OF step.IH step.hyps(2), of _ ll]
    by (cases "ss_fatal s e") (auto simp: ss_safe_def)
qed (simp add: ss_inv_controls)

subsection \<open>Properties\<close>

text \<open>C31: Exactly three events make a client's session fail. In every state it can reach, and after whatever
messages of the client, however its targets' sockets behave, whenever the timer fires and whenever the link
is reported closed: a message that opens a stream for a protocol that is not served ends in a null pointer,
as does a report of a closed link after the session has ended, and a write-queue report of a target's socket
throws (no socket makes one, \<open>tcp_flow_control_dead\<close>). After every other event the handler returns, and then
every stream in the multiplexer belongs to a tunnel that still holds its target, as does every entry of the
session's table.\<close>
theorem server_session_safe:
  assumes "ss_reach ll s" "ss_possible s e"
  shows "(\<forall>er. ss_fatal s e = Some er \<longrightarrow> ss_handle ll e s = Inl er) \<and>
    (ss_fatal s e = None \<longrightarrow> (\<exists>s' acts. ss_handle ll e s = Inr (s', acts) \<and> wf_manager (manager (ss_mux s')) \<and>
      (\<forall>sid b. abs_sessions (ss_mux s') sid = Some b \<longrightarrow>
         (\<exists>a. on_data b = Some a \<and> on_close b = Some a \<and> on_data_ctrl b = Some a \<and> live s' a sid)) \<and>
      (\<forall>sid a. map_of (tunnel_sessions s') sid = Some a \<longrightarrow> live s' a sid)))"
proof (intro conjI allI impI)
  note inv = ss_reach_inv [OF assms(1)]
  show "ss_handle ll e s = Inl er" if "ss_fatal s e = Some er" for er by (rule ss_handle_fatal [OF inv assms(2) that])
  assume "ss_fatal s e = None"
  from ss_handle_safe [OF inv assms(2) this, of ll] obtain s' acts where
    "ss_handle ll e s = Inr (s', acts)" "ss_inv s'" by (auto simp: ss_safe_def)
  then show "\<exists>s' acts. ss_handle ll e s = Inr (s', acts) \<and> wf_manager (manager (ss_mux s')) \<and>
      (\<forall>sid b. abs_sessions (ss_mux s') sid = Some b \<longrightarrow>
         (\<exists>a. on_data b = Some a \<and> on_close b = Some a \<and> on_data_ctrl b = Some a \<and> live s' a sid)) \<and>
      (\<forall>sid a. map_of (tunnel_sessions s') sid = Some a \<longrightarrow> live s' a sid)"
    by (fastforce simp: ss_inv_def streams_ok_def table_ok_def bound_session_def)
qed

text \<open>The session of a client that has just connected; its WebSocket is open.\<close>

definition fresh_client :: "u32 \<Rightarrow> string \<Rightarrow> 'l server_session" where
  "fresh_client sid pw =
     (case ss_start WsOpen pw (bindCloseFunc (ServerSession_new sid)) of Inr (s, _) \<Rightarrow> s)"

lemma fresh_client_start:
  "ss_start WsOpen pw (bindCloseFunc (ServerSession_new sid)) = Inr (fresh_client sid pw, [])"
  by (simp add: fresh_client_def ss_start_def bindCloseFunc_def ServerSession_new_def)

lemma fresh_client_reach: "ss_reach ll (fresh_client sid pw)"
  by (rule ss_reach.fresh [OF fresh_client_start])

lemma fresh_client_fields:
  "on_syn_set (ss_mux (fresh_client sid pw))" "send_func_set (ss_mux (fresh_client sid pw))"
  "ss_timer (fresh_client sid pw) = Some (bindTimerFinish Timer_new)" "tunnel_sessions (fresh_client sid pw) = []"
  "ss_close_cb (fresh_client sid pw)" "ss_id (fresh_client sid pw) = sid" "ss_next (fresh_client sid pw) = 0"
  by (simp_all add: fresh_client_def ss_start_def bindCloseFunc_def ServerSession_new_def set_on_syn_def
      set_send_func_def)

text \<open>A new client.\<close>

lemma newClient_run:
  assumes "client_session_id (cl_id v) = (i, j)"
  shows "newClient WsOpen v = Inr (v\<lparr>cl_id := j,
      cl_heap := (cl_heap v)(cl_next v \<mapsto> fresh_client i (server_password v)), cl_next := Suc (cl_next v),
      client_sessions := AList.update i (cl_next v) (client_sessions v)\<rparr>, [])"
  using assms by (simp add: newClient_def run_client_def Let_def skip_def fresh_client_start)

definition numbered :: "string \<Rightarrow> nat \<Rightarrow> 'l ws_server \<Rightarrow> bool" where
  "numbered pw n v \<longleftrightarrow> cl_next v = n \<and> cl_id v = word_of_nat n \<and> server_password v = pw \<and>
     (\<forall>i. map_of (client_sessions v) i = (if 1 \<le> unat i \<and> unat i \<le> n then Some (unat i - 1) else None)) \<and>
     (\<forall>i. 1 \<le> unat i \<and> unat i \<le> n \<longrightarrow> cl_heap v (unat i - 1) = Some (fresh_client i pw))"

lemma numbered_Suc:
  assumes "numbered pw n v" "n < 65536"
  shows "\<exists>v'. newClient WsOpen v = Inr (v', []) \<and> numbered pw (Suc n) v'"
proof -
  let ?i = "word_of_nat (Suc n) :: u32"
  have small: "n < 2 ^ 32" "Suc n < 2 ^ 32" using assms(2) by simp_all
  have ui: "unat ?i = Suc n" by (rule unat_data_len) (fact small)
  have un: "unat (word_of_nat n :: u32) = n" by (rule unat_data_len) (fact small)
  have "\<not> (word_of_nat n :: u32) > 65535" using assms(2) un by (simp add: word_less_nat_alt)
  moreover have cl: "cl_id v = word_of_nat n" using assms(1) unfolding numbered_def by blast
  ultimately have "client_session_id (cl_id v) = (?i, ?i)"
    unfolding cl client_session_id_def Let_def by (simp add: add.commute)
  note run = newClient_run [OF this]
  have le: "unat i \<le> Suc n \<longleftrightarrow> unat i \<le> n \<or> i = ?i" for i :: u32
  proof
    assume "unat i \<le> Suc n"
    then show "unat i \<le> n \<or> i = ?i" using ui by (cases "unat i = Suc n") (simp_all add: word_unat_eq_iff del: of_nat_Suc)
  qed (use ui in \<open>auto simp del: of_nat_Suc\<close>)
  define k where "k = ?i"
  have k: "unat k = Suc n" "\<not> unat k \<le> n" "word_of_nat (Suc n) = k" using ui by (simp_all add: k_def del: of_nat_Suc)
  let ?v = "v\<lparr>cl_id := k, cl_heap := (cl_heap v)(cl_next v \<mapsto> fresh_client k (server_password v)),
      cl_next := Suc (cl_next v), client_sessions := AList.update k (cl_next v) (client_sessions v)\<rparr>"
  have tab: "map_of (client_sessions ?v) i = (if 1 \<le> unat i \<and> unat i \<le> Suc n then Some (unat i - 1) else None)" for i
    using assms(1) k le [folded k_def] by (cases "i = k") (simp_all add: numbered_def update_conv')
  have heap: "cl_heap ?v (unat i - 1) = Some (fresh_client i pw)" if "1 \<le> unat i" "unat i \<le> Suc n" for i
    using assms(1) k le [folded k_def] that by (cases "i = k") (simp_all add: numbered_def)
  have "numbered pw (Suc n) ?v"
    unfolding numbered_def using assms(1) tab heap k(3) by (simp add: numbered_def del: of_nat_Suc)
  with run show ?thesis unfolding k_def by blast
qed

lemma numbered_clients:
  "n \<le> 65536 \<Longrightarrow> \<exists>v :: 'l ws_server. for_each newClient (replicate n WsOpen) (ProcessNewWsClient_new pw) = Inr (v, []) \<and>
     numbered pw n v"
proof (induction n)
  case 0
  show ?case by (simp add: skip_def numbered_def ProcessNewWsClient_new_def)
next
  case (Suc n)
  then obtain v :: "'l ws_server" where v: "for_each newClient (replicate n WsOpen) (ProcessNewWsClient_new pw) = Inr (v, [])"
    "numbered pw n v" by auto
  from numbered_Suc [OF v(2)] Suc.prems obtain v' where "newClient WsOpen v = Inr (v', [])" "numbered pw (Suc n) v'"
    by auto
  moreover have "replicate (Suc n) WsOpen = replicate n WsOpen @ [WsOpen]" by (simp add: replicate_append_same)
  ultimately show ?case using v(1) by (simp add: for_each_append andThen_def skip_def del: replicate_Suc)
qed

text \<open>A frame as it travels: packed by the sender, unpacked and dispatched by the receiver.\<close>

lemma ss_on_message_msg:
  assumes "wf_manager (manager (ss_mux s))" "wf_msg m"
    and "packMessage (msg_frame m) (length (msg_frame m)) = Inr d"
  shows "ss_on_message ll g d s =
    (case deliver (abs_sessions (ss_mux s)) (on_syn_set (ss_mux s)) m of None \<Rightarrow> skip s
     | Some c \<Rightarrow> ss_upcall ll g c s)"
proof -
  have "length (msg_frame m) < 2 ^ 32" using assms(3) by (simp add: packMessage_def split: if_splits)
  then have "unat (word_of_nat (length (msg_frame m)) :: u32) = length (msg_frame m)" by (rule unat_data_len)
  then show ?thesis
    using unpack_pack_eq [OF assms(3)] on_p2p_data_deliver [OF assms(1,2)] by (simp add: ss_on_message_def)
qed

lemma ok_message_syn:
  assumes "wf_protocol p" "packMessage (make_frame sid SYN p pl) (length (make_frame sid SYN p pl)) = Inr d" "served p"
  shows "ok_message d"
proof -
  let ?f = "make_frame sid SYN p pl"
  have "length ?f < 2 ^ 32" using assms(2) by (simp add: packMessage_def split: if_splits)
  then have "unat (word_of_nat (length ?f) :: u32) = length ?f" by (rule unat_data_len)
  with unpack_pack_eq [OF assms(2)] FrameHeader_decode_make_frame [of SYN p pl "length ?f" sid] assms(1,3)
  show ?thesis by (simp add: ok_message_def)
qed

text \<open>A client whose first stream is served.\<close>

lemma one_stream:
  fixes ll :: "'l llhttp"
  assumes "served p" "wf_protocol p" "length host < 256"
  obtains d s where "packMessage (make_frame sid SYN p (encode_syn_payload host port))
      (length (make_frame sid SYN p (encode_syn_payload host port))) = Inr d" "ok_message d"
    "ss_handle ll (SevMessage 0 d) (fresh_client i pw) = Inr (s, [SsSock 0 (first_call p host port)])"
    "ss_reach ll s" "live s 0 sid"
proof -
  let ?f = "make_frame sid SYN p (encode_syn_payload host port)"
  have "length ?f < 2 ^ 32" using assms(3) by (simp add: encode_syn_payload_def)
  from packMessage_eq [OF this] obtain d where d: "packMessage ?f (length ?f) = Inr d" by blast
  let ?s0 = "fresh_client i pw :: 'l server_session"
  have inv: "ss_inv ?s0" by (rule ss_reach_inv [OF fresh_client_reach])
  from inv have wf: "wf_manager (manager (ss_mux ?s0))" by (simp add: ss_inv_def)
  have "ss_on_message ll 0 d ?s0 = ss_on_syn ll sid host port p ?s0"
    using ss_on_message_msg [OF wf, of "MSyn sid host port p"] assms(2,3) d
    by (simp add: fresh_client_fields)
  with ss_on_syn_served [OF inv assms(1), of ll sid host port] obtain s where s:
    "ss_handle ll (SevMessage 0 d) ?s0 = Inr (s, [SsSock 0 (first_call p host port)])" "live s 0 sid"
    by (auto simp: fresh_client_fields)
  have ok: "ok_message d" by (rule ok_message_syn [OF assms(2) d assms(1)])
  then have "ss_reach ll s" by (intro ss_reach.step [OF fresh_client_reach _ s(1)]) simp
  with d s ok that show ?thesis by blast
qed

text \<open>C32: One frame ends the server: a SYN for a protocol the server does not serve (the enumerator
\<open>Unknown\<close>, or any unassigned byte) makes it follow a null pointer, in every state the session can
reach with its SYN handler set, before any password is involved in the frame.\<close>
theorem unserved_syn_crashes:
  assumes "ss_reach ll s" "on_syn_set (ss_mux s)" "\<not> served p" "wf_protocol p" "length host < 256"
    and "packMessage (make_frame sid SYN p (encode_syn_payload host port))
           (length (make_frame sid SYN p (encode_syn_payload host port))) = Inr d"
  shows "ss_handle ll (SevMessage g d) s = Inl NullDeref"
proof -
  have wf: "wf_manager (manager (ss_mux s))" using ss_reach_inv [OF assms(1)] by (simp add: ss_inv_def)
  have "ss_on_message ll g d s = ss_on_syn ll sid host port p s"
    using ss_on_message_msg [OF wf, of "MSyn sid host port p"] assms(2,4-6) by simp
  also have "\<dots> = Inl NullDeref" by (rule ss_on_syn_unserved [OF assms(3)])
  finally show ?thesis by simp
qed

text \<open>C33: A second SYN for a live stream orphans a connection: the new tunnel takes the stream over, and
when the old tunnel's target closes, the stream is taken out of both tables although it is the new
tunnel's by then; the new tunnel still holds its target, which nothing can reach or close any more.\<close>
theorem duplicate_syn_orphans:
  assumes "ss_reach ll s" "live s a sid" "served prot"
    and "ss_on_syn ll sid host port prot s = Inr (s1, acts1)"
    and "ss_handle ll (SevTarget a TevClosed) s1 = Inr (s2, acts2)"
  shows "map_of (tunnel_sessions s1) sid = Some (ss_next s) \<and> live s1 (ss_next s) sid \<and> live s1 a sid \<and>
    abs_sessions (ss_mux s2) sid = None \<and> map_of (tunnel_sessions s2) sid = None \<and>
    live s2 (ss_next s) sid \<and> \<not> live s2 a sid"
proof -
  note inv = ss_reach_inv [OF assms(1)]
  from live_ok [OF inv assms(2)] obtain t where t: "ss_heap s a = Some t" "tn_ok t" "tn_held t" "tn_stream_id t = sid"
    by blast
  with inv have ne: "a \<noteq> ss_next s" by (auto simp: ss_inv_def heap_ok_def)
  from ss_on_syn_served [OF inv assms(3), of ll sid host port] assms(4) have s1: "ss_inv s1"
    "live s1 (ss_next s) sid" "map_of (tunnel_sessions s1) sid = Some (ss_next s)" "ss_heap s1 a = ss_heap s a"
    using ne by auto
  let ?w = "\<lparr>tun = t, tun_mux = ss_mux s1\<rparr>"
  have "tn_ended ?w (tn_on_target TevClosed ?w)" by (rule tn_on_closed_ended) (simp_all add: t)
  with run_tunnel_ended [OF s1(1), where h = "tn_on_target TevClosed" and a = a and t = t] t(1,4) s1(4)
  obtain s' acts where "run_tunnel a (tn_on_target TevClosed) s1 = Inr (s', acts)" "\<not> live s' a sid"
    "abs_sessions (ss_mux s') sid = None" "map_of (tunnel_sessions s') sid = None"
    "\<forall>b i. b \<noteq> a \<longrightarrow> live s' b i = live s1 b i" by auto
  moreover have "live s1 a sid" using t s1(4) by (simp add: live_def)
  ultimately show ?thesis using assms(5) s1 ne by (simp add: ss_on_target_def)
qed

text \<open>C34: When the link is reported closed every tunnel's target is asked to close and a second later the
timer looks whether they have: as long as one is left it waits another second, and once none is left
the session reports itself closed, once, and drops its timer.\<close>
theorem closed_link_drains:
  assumes "ss_reach ll s" "ss_timer s = Some t" "tm_cb t" "set order = fst ` set (tunnel_sessions s)"
  shows "(\<exists>s' acts. ss_handle ll (SevState order SessionController.Closed) s = Inr (s', SsTimer 1000 # acts) \<and>
      tunnel_sessions s' = tunnel_sessions s \<and> ss_timer s' = Some (t\<lparr>tm_waiting := True\<rparr>) \<and>
      (\<forall>sid a. map_of (tunnel_sessions s) sid = Some a \<longrightarrow>
         SsSock a (SiTcp EvClose) \<in> set acts \<or> SsSock a SiUdpClose \<in> set acts)) \<and>
    (tunnel_sessions s \<noteq> [] \<longrightarrow> ss_handle ll (SevTimer False) s =
       Inr (s\<lparr>ss_timer := Some (t\<lparr>tm_waiting := True\<rparr>)\<rparr>, [SsTimer 1000])) \<and>
    (tunnel_sessions s = [] \<longrightarrow> ss_handle ll (SevTimer False) s =
       Inr (s\<lparr>ss_timer := None\<rparr>, if ss_close_cb s then [SsClosed (ss_id s)] else []))"
proof (intro conjI impI)
  let ?s = "s\<lparr>ss_timer := Some (Timer_start t)\<rparr>"
  have inv: "ss_inv ?s" using ss_reach_inv [OF assms(1)] by (simp add: ss_inv_controls)
  from close_tunnels_run [OF this, of order] obtain h acts where
    c: "for_each close_tunnel order ?s = Inr (?s\<lparr>ss_heap := h\<rparr>, acts)"
      "\<forall>sid a. sid \<in> set order \<longrightarrow> map_of (tunnel_sessions s) sid = Some a \<longrightarrow>
       (\<exists>x\<in>{SiUdpClose, SiTcp EvClose}. SsSock a x \<in> set acts)" by auto
  have "sid \<in> set order" if "map_of (tunnel_sessions s) sid = Some a" for sid a
    using that assms(4) by (force dest: map_of_SomeD)
  with c assms(2) show "\<exists>s' acts. ss_handle ll (SevState order SessionController.Closed) s = Inr (s', SsTimer 1000 # acts) \<and>
      tunnel_sessions s' = tunnel_sessions s \<and> ss_timer s' = Some (t\<lparr>tm_waiting := True\<rparr>) \<and>
      (\<forall>sid a. map_of (tunnel_sessions s) sid = Some a \<longrightarrow>
         SsSock a (SiTcp EvClose) \<in> set acts \<or> SsSock a SiUdpClose \<in> set acts)"
    by (intro exI [of _ "?s\<lparr>ss_heap := h\<rparr>"] exI [of _ acts])
      (auto simp: ss_on_state_def andThen_def notifyClose_def Timer_start_def)
qed (use assms(2,3) in \<open>simp_all add: ss_on_timer_def Timer_on_wait_def Timer_start_def skip_def\<close>)

text \<open>A link that is reported closed again after the session has closed ends the server: the timer the
report starts is gone. (The controller does report a failed link twice, the second time when its
WebSocket closes.)\<close>
theorem late_report_crashes:
  assumes "ss_timer s = Some t" "tm_cb t" "tunnel_sessions s = []"
  shows "\<exists>s1 acts. ss_handle ll (SevTimer False) s = Inr (s1, acts) \<and>
    ss_handle ll (SevState order SessionController.Closed) s1 = Inl NullDeref"
  using assms
  by (simp add: ss_on_timer_def Timer_on_wait_def skip_def ss_on_state_def andThen_def notifyClose_def)

theorem server_session_safe_witness:
  "\<exists>d s s' acts. ss_handle idle_llhttp (SevMessage 0 d) (fresh_client 7 ''pw'') =
       Inr (s, [SsSock 0 (SiTcp (EvConnect ''h'' 80))]) \<and>
     ss_handle idle_llhttp (SevTarget 0 TevClosed) s = Inr (s', acts) \<and> wf_manager (manager (ss_mux s'))"
proof -
  have "served Socks5Connect" "wf_protocol Socks5Connect" "length ''h'' < 256" by (simp_all add: served_def)
  then obtain d s where s: "ss_handle idle_llhttp (SevMessage 0 d) (fresh_client 7 ''pw'') =
      Inr (s, [SsSock 0 (first_call Socks5Connect ''h'' 80)])" "ss_reach idle_llhttp s" "live s 0 5"
    by (rule one_stream [where sid = 5 and host = "''h''" and port = 80 and ll = idle_llhttp and i = 7 and pw = "''pw''"])
  then have "ss_possible s (SevTarget 0 TevClosed)" by (auto simp: live_def)
  moreover have "ss_fatal s (SevTarget 0 TevClosed) = None" by simp
  ultimately obtain s' acts where "ss_handle idle_llhttp (SevTarget 0 TevClosed) s = Inr (s', acts)"
    "wf_manager (manager (ss_mux s'))" using server_session_safe [OF s(2), of "SevTarget 0 TevClosed"] by blast
  with s(1) show ?thesis by (auto simp: first_call_def)
qed

theorem unserved_syn_crashes_witness:
  "\<exists>d. packMessage (make_frame 5 SYN Unknown (encode_syn_payload ''h'' 80))
       (length (make_frame 5 SYN Unknown (encode_syn_payload ''h'' 80))) = Inr d \<and>
     ss_handle idle_llhttp (SevMessage 0 d) (fresh_client 7 ''pw'') = Inl NullDeref"
proof -
  let ?f = "make_frame 5 SYN Unknown (encode_syn_payload ''h'' 80)"
  have "length ?f < 2 ^ 32" by (simp add: encode_syn_payload_def)
  from packMessage_eq [OF this] obtain d where d: "packMessage ?f (length ?f) = Inr d" by blast
  have "\<not> served Unknown" "wf_protocol Unknown" "length ''h'' < 256" by (simp_all add: served_def)
  from unserved_syn_crashes [OF fresh_client_reach fresh_client_fields(1) this d] d show ?thesis by blast
qed

theorem duplicate_syn_orphans_witness:
  "\<exists>s s1 s2 acts1 acts2. ss_reach idle_llhttp s \<and> live s 0 5 \<and>
     ss_on_syn idle_llhttp 5 ''h'' 80 Socks5Connect s = Inr (s1, acts1) \<and>
     ss_handle idle_llhttp (SevTarget 0 TevClosed) s1 = Inr (s2, acts2) \<and>
     live s2 (ss_next s) 5 \<and> abs_sessions (ss_mux s2) 5 = None"
proof -
  have sv: "served Socks5Connect" "wf_protocol Socks5Connect" "length ''h'' < 256" by (simp_all add: served_def)
  then obtain d s where s: "ss_reach idle_llhttp s" "live s 0 5"
    by (rule one_stream [where sid = 5 and host = "''h''" and port = 80 and ll = idle_llhttp and i = 7 and pw = "''pw''"])
  note inv = ss_reach_inv [OF s(1)]
  from ss_on_syn_served [OF inv sv(1), of idle_llhttp 5 "''h''" 80] obtain s1 acts1 where
    s1: "ss_on_syn idle_llhttp 5 ''h'' 80 Socks5Connect s = Inr (s1, acts1)" "ss_inv s1"
      "\<forall>b. b \<noteq> ss_next s \<longrightarrow> ss_heap s1 b = ss_heap s b" by blast
  from live_ok [OF inv s(2)] obtain t where "ss_heap s 0 = Some t" by blast
  moreover from this inv have "0 \<noteq> ss_next s" by (auto simp: ss_inv_def heap_ok_def)
  ultimately have "ss_possible s1 (SevTarget 0 TevClosed)" using s1(3) by simp
  from ss_handle_safe [OF s1(2) this, of idle_llhttp] obtain s2 acts2 where
    "ss_handle idle_llhttp (SevTarget 0 TevClosed) s1 = Inr (s2, acts2)" by (simp add: ss_safe_def) blast
  with duplicate_syn_orphans [OF s sv(1) s1(1)] s s1(1) show ?thesis by blast
qed

theorem closed_link_drains_witness:
  "ss_handle idle_llhttp (SevTimer False) (fresh_client 7 ''pw'') =
     Inr ((fresh_client 7 ''pw'')\<lparr>ss_timer := None\<rparr>, [SsClosed 7])"
proof -
  let ?s = "fresh_client 7 ''pw'' :: unit server_session"
  have "tm_cb (bindTimerFinish Timer_new)" "set [] = fst ` set (tunnel_sessions ?s)"
    by (simp_all add: bindTimerFinish_def fresh_client_fields)
  from closed_link_drains [OF fresh_client_reach fresh_client_fields(3) this]
  show ?thesis by (simp add: fresh_client_fields)
qed

theorem late_report_crashes_witness:
  "\<exists>s1 acts. ss_handle idle_llhttp (SevTimer False) (fresh_client 7 ''pw'') = Inr (s1, acts) \<and>
    ss_handle idle_llhttp (SevState [] SessionController.Closed) s1 = Inl NullDeref"
proof -
  have "tm_cb (bindTimerFinish Timer_new)" by (simp add: bindTimerFinish_def)
  from late_report_crashes [OF fresh_client_fields(3) this fresh_client_fields(4)] show ?thesis by blast
qed

text \<open>C35: The first 65536 clients are numbered from 1 on, in the order they come, each with a session of its
own under its number; the next one takes number 1 again and replaces whoever holds it in the table,
although that client's session lives on.\<close>
theorem clients_numbered:
  assumes "n \<le> 65536"
  shows "\<exists>v :: 'l ws_server. for_each newClient (replicate n WsOpen) (ProcessNewWsClient_new pw) = Inr (v, []) \<and>
    (\<forall>i. map_of (client_sessions v) i = (if 1 \<le> unat i \<and> unat i \<le> n then Some (unat i - 1) else None)) \<and>
    (\<forall>i. 1 \<le> unat i \<and> unat i \<le> n \<longrightarrow> cl_heap v (unat i - 1) = Some (fresh_client i pw)) \<and>
    (n = 65536 \<longrightarrow> (\<exists>v'. newClient WsOpen v = Inr (v', []) \<and> map_of (client_sessions v') 1 = Some 65536 \<and>
       cl_heap v' 0 = Some (fresh_client 1 pw)))"
proof -
  from numbered_clients [OF assms, of pw] obtain v :: "'l ws_server" where
    v: "for_each newClient (replicate n WsOpen) (ProcessNewWsClient_new pw) = Inr (v, [])" "numbered pw n v" by blast
  have "\<exists>v'. newClient WsOpen v = Inr (v', []) \<and> map_of (client_sessions v') 1 = Some 65536 \<and>
      cl_heap v' 0 = Some (fresh_client 1 pw)" if "n = 65536"
  proof -
    have "client_session_id (cl_id v) = (1, 1)"
      using v(2) that by (simp add: numbered_def client_session_id_def)
    moreover have "cl_heap v 0 = Some (fresh_client 1 pw)"
      using v(2) that unfolding numbered_def by (metis one_le_numeral order_refl unat_1 diff_self_eq_0)
    ultimately show ?thesis using newClient_run [of v 1 1] v(2) that
      by (simp add: numbered_def update_conv')
  qed
  with v show ?thesis unfolding numbered_def by blast
qed

theorem clients_numbered_witness:
  "\<exists>v :: unit ws_server. for_each newClient (replicate 2 WsOpen) (ProcessNewWsClient_new ''pw'') = Inr (v, []) \<and>
     map_of (client_sessions v) 2 = Some 1"
proof -
  have "(2::nat) \<le> 65536" by simp
  from clients_numbered [OF this, of "''pw''"] show ?thesis by fastforce
qed

end
