(* ===== verification/ClientTyping.thy ===== *)
theory ClientTyping
  imports ClientSession ServerSession
begin

text \<open>
  What a client's session may be told and what it then says: a session's phase fixes its protocol, and
  so the client asks the server only for protocols the server has an object for.
\<close>

subsection \<open>Everything that happens to a session\<close>

text \<open>The peer's answer reaches a session only through the stream object it has made.\<close>

datatype cs_event =
    CevRead bytes nat
  | CevPeerData bytes nat protocol
  | CevSynack bool protocol
  | CevFin protocol
  | CevTcpClosed
  | CevUdp udp_report

text \<open>A report of the UDP socket runs the UDP session's callback.\<close>

definition cs_on_udp :: "udp_report \<Rightarrow> 'l cs_handler" where
  "cs_on_udp r w =
     (case cs_udp (cs w) of None \<Rightarrow> skip w
      | Some u \<Rightarrow> cbind (cu_handle r (mux w) u) (\<lambda>(u1, acts).
          emit (map CsUdp acts) (cs_upd (\<lambda>s. s\<lparr>cs_udp := Some u1\<rparr>) w)))"

fun cs_handle ::
  "'l llhttp \<Rightarrow> (string \<Rightarrow> bytes option) \<Rightarrow> udp_env \<Rightarrow> cs_event \<Rightarrow> 'l cs_handler" where
  "cs_handle ll v4 ue (CevRead d n) = process_data ll d n"
| "cs_handle ll v4 ue (CevPeerData d n prot) = p2p_data ll v4 d n prot"
| "cs_handle ll v4 ue (CevSynack ok prot) = p2p_synack ue ok prot"
| "cs_handle ll v4 ue (CevFin prot) = p2p_close prot"
| "cs_handle ll v4 ue CevTcpClosed = on_tcp_close"
| "cs_handle ll v4 ue (CevUdp r) = cs_on_udp r"

fun cs_bears :: "'l client_world \<Rightarrow> cs_event \<Rightarrow> bool" where
  "cs_bears w (CevSynack ok prot) = (cs_sess (cs w) \<noteq> None)"
| "cs_bears w _ = True"

subsection \<open>Typing\<close>

fun phase_protocols :: "phase \<Rightarrow> protocol \<Rightarrow> bool" where
  "phase_protocols WaitSocksTCP prot = (prot = Socks5Connect)"
| "phase_protocols WaitSocksUDP prot = (prot = UdpAssociate)"
| "phase_protocols WaitSocksIpv4 prot = (prot = Socks5Connect \<or> prot = UdpAssociate)"
| "phase_protocols WaitSocksDomain prot = (prot = Socks5Connect \<or> prot = UdpAssociate)"
| "phase_protocols Connecting prot = served prot"
| "phase_protocols SessionProtocol.Connected prot = served prot"
| "phase_protocols _ prot = True"

definition typed :: "'l client_session \<Rightarrow> bool" where
  "typed c \<longleftrightarrow> phase_protocols (cs_phase c) (cs_protocol c) \<and>
     (cs_sess c \<noteq> None \<longrightarrow> served (cs_protocol c) \<and> cs_phase c \<in> {Connecting, SessionProtocol.Connected, SessionProtocol.Closed})"

definition frame_ok :: "bytes \<Rightarrow> bool" where
  "frame_ok f \<longleftrightarrow>
     (\<forall>h. FrameHeader_decode f (length f) = Inr (Some h) \<longrightarrow> fh_type h = SYN \<longrightarrow> served (fh_protocol h))"

definition says_ok :: "cs_action list \<Rightarrow> bool" where
  "says_ok acts \<longleftrightarrow>
     (\<forall>conn f. CsToPeer conn f \<in> set acts \<or> CsUdp (CuToPeer conn f) \<in> set acts \<longrightarrow> frame_ok f)"

lemma says_ok_simps [simp]:
  "says_ok []" "says_ok (a @ b) \<longleftrightarrow> says_ok a \<and> says_ok b" "says_ok [CsTcp e]" "says_ok [CsClosed i]"
  "says_ok (map CsUdp us) \<longleftrightarrow> (\<forall>conn f. CuToPeer conn f \<in> set us \<longrightarrow> frame_ok f)"
  by (auto simp: says_ok_def)

lemma cu_says_nothing:
  "cu_start dbg port u = Inr (st, u', us) \<Longrightarrow> CuToPeer conn f \<notin> set us"
  "cu_revP2pData v4 d n u = Inr us \<Longrightarrow> CuToPeer conn f \<notin> set us"
  "CuToPeer conn f \<notin> set (cu_close u)"
proof -
  show "CuToPeer conn f \<notin> set us" if run: "cu_revP2pData v4 d n u = Inr us"
  proof -
    from run obtain r where r: "decode_udp_payload d n = Inr r"
      by (auto simp: cu_revP2pData_def cbind_eq_Inr)
    show ?thesis
    proof (cases r)
      case (Some t)
      obtain host port data where t: "t = (host, port, data)" by (cases t)
      from run show ?thesis
        by (cases "v4 host") (auto simp: cu_revP2pData_def r Some t split: if_splits)
    qed (use run in \<open>simp add: cu_revP2pData_def r\<close>)
  qed
qed (auto simp: cu_start_def cu_close_def cbind_eq_Inr split: if_splits)

lemma frame_ok_make_frame:
  assumes "t \<noteq> SYN \<or> served p" "wf_frame_type t"
  shows "frame_ok (make_frame sid t p pl)"
proof -
  have "length (le_store32 (hton32 sid)) = 4" by simp
  then have "FrameHeader_decode (make_frame sid t p pl) (length (make_frame sid t p pl)) =
      Inr (Some \<lparr>fh_stream_id = sid, fh_type = t, fh_protocol = protocol_of_byte (protocol_code p)\<rparr>)"
    using assms(2) by (simp add: FrameHeader_decode_def make_frame_def FrameHeader_encode_def kSize_def
        rd_range_def rd_def nth_append wf_frame_type_def)
  moreover have "protocol_of_byte (protocol_code p) = p" if "served p"
    using that by (auto simp: served_def protocol_of_byte_def)
  ultimately show ?thesis using assms(1) by (auto simp: frame_ok_def)
qed

lemma says_frame: "(\<And>conn f. r = Some (conn, f) \<Longrightarrow> frame_ok f) \<Longrightarrow> says_ok (peer_frame r)"
  by (auto simp: says_ok_def peer_frame_def split: option.splits)

lemma says_sent [simp]:
  "served prot \<Longrightarrow> says_ok (peer_frame (send_syn x sid host port prot))"
  "says_ok (peer_frame (send_fin x sid prot))"
  "says_ok (peer_frame (mux_send x (make_frame sid DATA prot b)))"
  by (auto intro!: says_frame frame_ok_make_frame simp: send_syn_def send_fin_def mux_send_def split: if_splits)

text \<open>So does what the UDP session sends.\<close>

lemma frame_out_ok:
  assumes "CuToPeer conn f \<in> set (frame_out (mux_send x (make_frame sid t p b)))" "t \<noteq> SYN" "wf_frame_type t"
  shows "frame_ok f"
  using assms by (auto simp: frame_out_def mux_send_def frame_ok_make_frame split: if_splits)

lemma cu_says_data: "send_p2p_data x d n u = Inr us \<Longrightarrow> CuToPeer conn f \<in> set us \<Longrightarrow> frame_ok f"
  by (auto simp: send_p2p_data_def send_ipv4_def send_domain_def Let_def send_data_def cbind_eq_Inr
      intro: frame_out_ok split: if_splits)

lemma cu_says_frames: "cu_handle r x u = Inr (u1, us) \<Longrightarrow> CuToPeer conn f \<in> set us \<Longrightarrow> frame_ok f"
  by (cases r)
    (auto simp: cu_on_data_def cu_on_open_def cu_on_write_queue_def send_synack_def send_data_ctrl_def
      Let_def cbind_eq_Inr intro: cu_says_data frame_out_ok split: if_splits)

text \<open>A handler's outcome: the session is typed and what was said to the peer is in order.\<close>

fun proper :: "('l client_world \<times> cs_action list) cpp \<Rightarrow> bool" where
  "proper (Inl e) = True"
| "proper (Inr (w, acts)) = (typed (cs w) \<and> says_ok acts)"

lemma proper_andThen: "proper (m w) \<Longrightarrow> (\<And>w'. typed (cs w') \<Longrightarrow> proper (k w')) \<Longrightarrow> proper (andThen m k w)"
proof (cases "m w")
  case (Inr r)
  obtain w1 a1 where r: "r = (w1, a1)" by (cases r)
  assume "proper (m w)" "\<And>w'. typed (cs w') \<Longrightarrow> proper (k w')"
  with Inr r have "typed (cs w1)" "says_ok a1" "proper (k w1)" by auto
  with Inr r show ?thesis by (cases "k w1") (auto simp: andThen_def)
qed (simp add: andThen_def)

lemma proper_for_each:
  "(\<And>x w. typed (cs w) \<Longrightarrow> proper (f x w)) \<Longrightarrow> typed (cs w) \<Longrightarrow> proper (for_each f xs w)"
  by (induction xs arbitrary: w) (auto simp: skip_def intro!: proper_andThen)

lemma proper_socket [simp]: "typed (cs w) \<Longrightarrow> proper (on_socket e w)" "typed (cs w) \<Longrightarrow> proper (sock_send b w)"
  "typed (cs w) \<Longrightarrow> proper (skip w)" "typed (cs w) \<Longrightarrow> proper (send_socks_reply c w)"
  by (simp_all add: on_socket_def sock_send_def send_socks_reply_def emit_def skip_def)

lemma proper_modify [simp]: "proper (modify (cs_upd f) w) = typed (f (cs w))"
  by (simp add: modify_def)

lemma proper_peer_data [simp]: "typed (cs w) \<Longrightarrow> proper (peer_data d n w)"
  by (cases "stream_id w"; cases "rd_range d 0 n") (simp_all add: peer_data_def send_data_def emit_def)

text \<open>A SYN goes out for the session's protocol, so that has to be one that is served.\<close>

lemma proper_request:
  assumes "served (cs_protocol (cs w))"
  shows "proper (request_remote_connect w)"
proof (cases "SessionMux_create_session (mux w) (draws w)")
  case (Some r)
  obtain q x1 ds where r: "r = (q, x1, ds)" by (cases r)
  let ?me = "cs_session_id (cs w)"
  let ?x = "x1\<lparr>manager := update_session q (set_on_close ?me)
      (update_session q (set_on_synack ?me) (update_session q (set_on_data ?me) (manager x1)))\<rparr>"
  let ?w = "(cs_upd (\<lambda>s. s\<lparr>cs_sess := Some q\<rparr>) w)\<lparr>mux := ?x, draws := ds\<rparr>"
  show ?thesis
    using assms
    by (cases "stream_id ?w")
      (simp_all add: request_remote_connect_def Some r Let_def andThen_def emit_def modify_def typed_def)
qed (simp add: request_remote_connect_def)

lemma proper_request_headers:
  assumes "typed (cs w)"
  shows "proper (on_request_headers msg w)"
proof (cases "split_host_port (if m_method msg = ''CONNECT'' then target msg else get_header msg ''Host'')")
  case (Inr hp)
  obtain host port where hp: "hp = (host, port)" by (cases hp)
  let ?w = "cs_upd (\<lambda>s. s\<lparr>cs_target_host := host, cs_target_port := port\<rparr>) w"
  have "typed (cs ?w)" using assms by (simp add: typed_def)
  moreover have "proper (andThen (modify (cs_upd (\<lambda>s. s\<lparr>cs_protocol := prot\<rparr>))) request_remote_connect ?w)"
    if "served prot" for prot
    using that proper_request [of "cs_upd (\<lambda>s. s\<lparr>cs_protocol := prot\<rparr>) ?w"] by (simp add: handler_simps)
  ultimately show ?thesis by (cases "host = []") (simp_all add: on_request_headers_def Inr hp served_def Let_def)
qed (simp add: on_request_headers_def)

lemma proper_feed_request: "typed (cs w) \<Longrightarrow> proper (feed_request ll data w)"
proof -
  have up: "proper (on_request_upcall u w)" if "typed (cs w)" for u and w :: "'a client_world"
    using that by (cases u rule: on_request_upcall.cases) (simp_all add: proper_request_headers)
  assume "typed (cs w)"
  then show ?thesis
    by (auto simp: feed_request_def typed_def intro!: proper_for_each up split: prod.splits)
qed

lemma proper_feed_response: "typed (cs w) \<Longrightarrow> proper (feed_response ll data w)"
proof -
  have up: "proper (on_response_upcall u w)" if "typed (cs w)" for u and w :: "'a client_world"
    using that by (cases u rule: on_response_upcall.cases) (simp_all add: guarded_def)
  assume "typed (cs w)"
  then show ?thesis
    by (auto simp: feed_response_def typed_def intro!: proper_for_each up split: prod.splits)
qed

definition proper_step :: "(nat \<times> 'l client_world \<times> cs_action list) cpp \<Rightarrow> bool" where
  "proper_step r \<longleftrightarrow> (case r of Inl e \<Rightarrow> True | Inr (n, w, a) \<Rightarrow> typed (cs w) \<and> says_ok a)"

lemma proper_returns: "proper (m w) \<Longrightarrow> proper_step (returns k m w)"
  by (cases "m w") (auto simp: returns_def proper_step_def)

lemma proper_step_cbind: "(\<And>x. proper_step (f x)) \<Longrightarrow> proper_step (cbind m f)"
  by (cases m) (simp_all add: proper_step_def)

lemma proper_step_if: "proper_step a \<Longrightarrow> proper_step b \<Longrightarrow> proper_step (if c then a else b)"
  by simp

lemmas proper_intros = proper_step_cbind proper_step_if proper_returns

lemma proper_socks_step:
  assumes "typed (cs w)" "socks_step (cs_phase (cs w)) d len = Some h"
  shows "proper_step (h w)"
proof -
  have phase: "proper (andThen (set_phase ph) k w)"
    if "typed ((cs w)\<lparr>cs_phase := ph\<rparr>)" "\<And>w'. typed (cs w') \<Longrightarrow> proper (k w')" for ph k
    unfolding set_phase_def using that by (intro proper_andThen) simp_all
  have target: "proper (andThen (modify (cs_upd (\<lambda>s. s\<lparr>cs_target_host := a, cs_target_port := b\<rparr>)))
      request_remote_connect w)" if "cs_phase (cs w) = WaitSocksIpv4 \<or> cs_phase (cs w) = WaitSocksDomain" for a b
    using that assms(1) by (simp add: handler_simps) (auto simp: typed_def served_def intro!: proper_request)
  show ?thesis
  proof (cases "cs_phase (cs w)")
    case WaitGreetingVersion
    with assms show ?thesis
      by (auto simp: handle_greeting_version_def typed_def intro!: proper_intros phase) (auto simp: set_phase_def typed_def)
  next
    case WaitSocksMethods
    with assms show ?thesis
      by (auto simp: handle_socks_methods_def typed_def intro!: proper_intros phase)
  next
    case WaitSocksTCP
    with assms have "typed (cs w)" "h = handle_socks_tcp_udp d len" by auto
    with WaitSocksTCP show ?thesis
      by (auto simp: handle_socks_tcp_udp_def set_phase_def typed_def
          intro!: proper_intros proper_andThen)
  next
    case WaitSocksUDP
    with assms have "typed (cs w)" "h = handle_socks_tcp_udp d len" by auto
    with WaitSocksUDP show ?thesis
      by (auto simp: handle_socks_tcp_udp_def set_phase_def typed_def
          intro!: proper_intros proper_andThen)
  next
    case WaitSocksIpv4
    with assms(2) show ?thesis
      by (auto simp: handle_socks_ipv4_def intro!: proper_intros target)
  next
    case WaitSocksDomain
    with assms(2) show ?thesis
      by (auto simp: handle_socks_domain_def Let_def intro!: proper_intros target)
  qed (use assms in simp_all)
qed

lemma proper_loop:
  fixes w :: "'l client_world"
  assumes "typed (cs w)"
  shows "case consume_loop d len consumed w of Inl e \<Rightarrow> True | Inr (go, w', acts) \<Rightarrow> typed (cs w') \<and> says_ok acts"
  using assms
proof (induction d len consumed w rule: consume_loop.induct)
  case (1 d len consumed w)
  show ?case
  proof (cases "leaves_loop (cs_phase (cs w)) \<or> len \<le> consumed")
    case False
    show ?thesis
    proof (cases "socks_step (cs_phase (cs w)) d len :: 'l socks_handler option")
      case (Some h)
      from proper_socks_step [OF "1.prems" Some] have st: "proper_step (h w)" .
      show ?thesis
      proof (cases "h w")
        case (Inl e)
        with False Some show ?thesis by (subst consume_loop.simps) simp
      next
        case (Inr r)
        obtain n w1 a1 where r: "r = (n, w1, a1)" by (cases r)
        from st Inr r have ok: "typed (cs w1)" "says_ok a1" by (simp_all add: proper_step_def)
        show ?thesis
        proof (cases "cs_phase (cs w1) = SessionProtocol.Closed")
          case True
          with False Some Inr r ok show ?thesis
            by (subst consume_loop.simps) (simp add: on_socket_def emit_def)
        next
          case open1: False
          from "1.IH" [OF False Some Inr [unfolded r] refl refl open1 ok(1)] False Some Inr r open1 ok(2)
          show ?thesis
            by (subst consume_loop.simps) (auto split: sum.splits prod.splits simp: cbind_eq_Inr)
        qed
      qed
    qed (use False "1.prems" in \<open>subst consume_loop.simps, simp\<close>)
  qed (use "1.prems" in \<open>simp add: loop_stop\<close>)
qed

lemma proper_process_data:
  assumes "typed (cs w)"
  shows "proper (process_data ll d len w)"
proof -
  have "proper (consume_pending ll d len w)"
  proof (cases "consume_loop d len 0 w")
    case (Inr r)
    obtain go w1 a1 where r: "r = (go, w1, a1)" by (cases r)
    from proper_loop [OF assms, of d len 0] Inr r have ok: "typed (cs w1)" "says_ok a1" by auto
    have "proper (andThen (feed_request ll s) (modify (cs_upd (\<lambda>c. c\<lparr>pending_buf := pending_buf c @ [b]\<rparr>))) w1)" for s b
      using ok(1) by (auto intro!: proper_andThen proper_feed_request simp: typed_def)
    note fed = this [of "string_of_bytes b" b for b]
    show ?thesis
    proof (cases "go \<and> cs_phase (cs w1) = WaitHttpRequestHeaders")
      case True
      show ?thesis
      proof (cases "rd_range d 0 len")
        case rd: (Inr b)
        from fed [of b] show ?thesis
          using True ok(2) by (cases "andThen (feed_request ll (string_of_bytes b))
              (modify (cs_upd (\<lambda>c. c\<lparr>pending_buf := pending_buf c @ [b]\<rparr>))) w1")
            (auto simp: consume_pending_def Inr r rd)
      qed (use True in \<open>simp add: consume_pending_def Inr r\<close>)
    qed (use ok in \<open>auto simp: consume_pending_def Inr r\<close>)
  qed (simp add: consume_pending_def)
  with assms show ?thesis by (auto simp: process_data_def split: protocol.splits)
qed

lemma proper_cbind: "(\<And>x. m = Inr x \<Longrightarrow> proper (f x)) \<Longrightarrow> proper (cbind m f)"
  by (cases m) simp_all

lemma proper_udp_connected:
  assumes "typed (cs w)"
  shows "proper (udp_connected ue ok w)"
proof -
  let ?reply = "\<lambda>w1. case cs_udp (cs w1) of None \<Rightarrow> Inl NullDeref
      | Some u \<Rightarrow> cbind (cu_getLocalPort (ue_port_at_reply ue) u) (\<lambda>port.
          send_udp_reply (ue_v4 ue) (ue_local_ip ue) port w1)"
  have send: "proper (send_udp_reply v4 host port w)" if "typed (cs w)" for v4 host port and w :: "'a client_world"
    using that by (cases "v4 host") (simp_all add: send_udp_reply_def)
  have reply: "proper (?reply w)" if "typed (cs w)" for w :: "'a client_world"
    by (cases "cs_udp (cs w)") (auto intro!: proper_cbind send that)
  have run: "proper (andThen (emit (map CsUdp acts)) (if started then ?reply else send_socks_reply 0x01)
      (cs_upd (\<lambda>s. s\<lparr>cs_udp := Some u\<rparr>) w))"
    if "\<And>conn f. CuToPeer conn f \<notin> set acts" for started u acts
  proof (rule proper_andThen)
    show "proper (emit (map CsUdp acts) (cs_upd (\<lambda>s. s\<lparr>cs_udp := Some u\<rparr>) w))"
      using assms that by (simp add: emit_def typed_def)
  qed (simp add: reply)
  show ?thesis
  proof (cases "ok \<and> cs_udp (cs w) = None")
    case True
    have "proper (cbind (cu_start (ue_debug ue) (ue_port_at_start ue)
        (UdpSession_new (cs_session_id (cs w)) (ue_garbage ue))) (\<lambda>(started, u, acts).
          andThen (emit (map CsUdp acts)) (if started then ?reply else send_socks_reply 0x01)
            (cs_upd (\<lambda>s. s\<lparr>cs_udp := Some u\<rparr>) w)))"
    proof (rule proper_cbind)
      fix r assume start: "cu_start (ue_debug ue) (ue_port_at_start ue)
        (UdpSession_new (cs_session_id (cs w)) (ue_garbage ue)) = Inr r"
      obtain started u acts where r: "r = (started, u, acts)" by (cases r)
      from cu_says_nothing(1) [OF start [unfolded r]] have "CuToPeer conn f \<notin> set acts" for conn f .
      then have "proper (andThen (emit (map CsUdp acts)) (if started then ?reply else send_socks_reply 0x01)
          (cs_upd (\<lambda>s. s\<lparr>cs_udp := Some u\<rparr>) w))" by (rule run)
      then show "proper (case r of (started, u, acts) \<Rightarrow>
          andThen (emit (map CsUdp acts)) (if started then ?reply else send_socks_reply 0x01)
            (cs_upd (\<lambda>s. s\<lparr>cs_udp := Some u\<rparr>) w))" unfolding r prod.case .
    qed
    with True show ?thesis by (simp add: udp_connected_def Let_def)
  qed (use assms reply [OF assms] in \<open>auto simp: udp_connected_def Let_def\<close>)
qed

lemma proper_for_each_data: "typed (cs w) \<Longrightarrow> proper (for_each (\<lambda>b. peer_data b (length b)) bs w)"
  by (rule proper_for_each) simp_all

lemma andThen_first:
  "m s = Inr (s1, a1) \<Longrightarrow> andThen m k s = cbind (k s1) (\<lambda>(s2, a2). Inr (s2, a1 @ a2))"
  by (simp add: andThen_def)

text \<open>Answering the application does not touch the session's stream.\<close>

definition keeps_sess :: "'l cs_handler \<Rightarrow> bool" where
  "keeps_sess m \<longleftrightarrow> (\<forall>w w' a. m w = Inr (w', a) \<longrightarrow> cs_sess (cs w') = cs_sess (cs w))"

lemma keeps_sess_andThen: "keeps_sess m \<Longrightarrow> keeps_sess k \<Longrightarrow> keeps_sess (andThen m k)"
  unfolding keeps_sess_def andThen_Inr by metis

lemma keeps_sess_for_each: "(\<And>x. keeps_sess (f x)) \<Longrightarrow> keeps_sess (for_each f xs)"
  by (induction xs) (simp_all add: keeps_sess_andThen, simp add: keeps_sess_def skip_def)

lemma keeps_sess_simps:
  "keeps_sess (sock_send b)" "keeps_sess skip" "keeps_sess (emit acts)" "keeps_sess (peer_data d n)"
  "(\<And>s. cs_sess (f s) = cs_sess s) \<Longrightarrow> keeps_sess (modify (cs_upd f))"
  "keeps_sess (send_socks_reply c)" "keeps_sess (send_udp_reply v4 host port)"
  by (auto simp: keeps_sess_def sock_send_def on_socket_def emit_def skip_def modify_def peer_data_def
      cbind_eq_Inr send_socks_reply_def send_udp_reply_def split: option.splits if_splits)

lemma keeps_sess_synack: "keeps_sess (synack_reply ue ok prot :: 'l cs_handler)"
proof -
  have http: "keeps_sess (http_connected ok :: 'l cs_handler)"
  proof -
    have "keeps_sess (andThen (for_each (\<lambda>b. peer_data b (length b)) bs) (modify (cs_upd (\<lambda>s. s\<lparr>pending_buf := []\<rparr>))))" for bs
      by (intro keeps_sess_andThen keeps_sess_for_each keeps_sess_simps) simp
    note flush = this [unfolded keeps_sess_def, rule_format]
    note refuse = keeps_sess_simps(1) [of "bytes_of_string http_fail_reply", unfolded keeps_sess_def, rule_format]
    show ?thesis
      unfolding keeps_sess_def
    proof (intro allI impI)
      fix w w' :: "'l client_world" and a assume run: "http_connected ok w = Inr (w', a)"
      show "cs_sess (cs w') = cs_sess (cs w)"
      proof (cases ok)
        case True
        from run show ?thesis by (intro flush) (simp add: http_connected_def True)
      next
        case False
        from run show ?thesis by (intro refuse) (simp add: http_connected_def False)
      qed
    qed
  qed
  let ?reply = "\<lambda>w1. case cs_udp (cs w1) of None \<Rightarrow> Inl NullDeref
      | Some u \<Rightarrow> cbind (cu_getLocalPort (ue_port_at_reply ue) u) (\<lambda>port.
          send_udp_reply (ue_v4 ue) (ue_local_ip ue) port w1)"
  have reply: "cs_sess (cs w') = cs_sess (cs w)" if "?reply w = Inr (w', a)" for w w' :: "'l client_world" and a
    using that by (auto simp: cbind_eq_Inr split: option.splits
        dest: keeps_sess_simps(7) [unfolded keeps_sess_def, rule_format])
  have udp: "keeps_sess (udp_connected ue ok :: 'l cs_handler)"
    unfolding keeps_sess_def
  proof (intro allI impI)
    fix w w' :: "'l client_world" and a assume run: "udp_connected ue ok w = Inr (w', a)"
    have refuse: "cs_sess (cs w2) = cs_sess (cs w1)" if "send_socks_reply c w1 = Inr (w2, b)"
      for c b and w1 w2 :: "'l client_world"
      using that keeps_sess_simps(6) unfolding keeps_sess_def by blast
    show "cs_sess (cs w') = cs_sess (cs w)"
    proof (cases "ok \<and> cs_udp (cs w) = None")
      case True
      with run obtain started u acts where "andThen (emit (map CsUdp acts)) (if started then ?reply else send_socks_reply 0x01)
          (cs_upd (\<lambda>s. s\<lparr>cs_udp := Some u\<rparr>) w) = Inr (w', a)"
        by (auto simp: udp_connected_def Let_def cbind_eq_Inr)
      then obtain b where "(if started then ?reply else send_socks_reply 0x01)
          (cs_upd (\<lambda>s. s\<lparr>cs_udp := Some u\<rparr>) w) = Inr (w', b)" by (auto simp: andThen_Inr emit_def)
      then have "cs_sess (cs w') = cs_sess (cs (cs_upd (\<lambda>s. s\<lparr>cs_udp := Some u\<rparr>) w))"
        by (cases started) (simp_all only: if_True if_False reply refuse)
      then show ?thesis by simp
    next
      case False
      with run have "(if ok then ?reply else send_socks_reply 0x07) w = Inr (w', a)"
        by (auto simp: udp_connected_def Let_def split: if_splits)
      then show ?thesis by (cases ok) (simp_all only: if_True if_False reply refuse)
    qed
  qed
  from http udp show ?thesis
    by (cases prot) (simp_all add: synack_reply_def https_connected_def keeps_sess_simps)
qed

lemma proper_synack:
  assumes "typed (cs w)" "cs_sess (cs w) \<noteq> None"
  shows "proper (p2p_synack ue ok prot w)"
proof -
  have http: "proper (http_connected b w)" if "typed (cs w)" for b and w :: "'a client_world"
    using that by (auto simp: http_connected_def typed_def intro!: proper_andThen proper_for_each_data)
  have reply: "proper (synack_reply ue ok prot w)"
    using assms(1) by (auto simp: synack_reply_def https_connected_def http proper_udp_connected
        split: protocol.splits)
  let ?fin = "if \<not> ok then andThen (set_phase SessionProtocol.Closed) (on_socket EvClose) else set_phase SessionProtocol.Connected"
  have last: "proper (?fin w1)" if "typed (cs w1)" "cs_sess (cs w1) \<noteq> None" for w1 :: "'a client_world"
    using that by (auto simp: set_phase_def typed_def intro!: proper_andThen)
  show ?thesis
  proof (cases "synack_reply ue ok prot w")
    case (Inr r)
    obtain w1 a1 where r: "r = (w1, a1)" by (cases r)
    from keeps_sess_synack Inr r have "cs_sess (cs w1) = cs_sess (cs w)" unfolding keeps_sess_def by blast
    with reply Inr r assms(2) have e: "proper (?fin w1)" "says_ok a1" by (simp_all add: last)
    have "p2p_synack ue ok prot w = cbind (?fin w1) (\<lambda>(s2, a2). Inr (s2, a1 @ a2))"
      unfolding p2p_synack_def by (rule andThen_first) (simp add: Inr r)
    with e show ?thesis by (cases "?fin w1") auto
  qed (simp add: p2p_synack_def andThen_def)
qed

lemma proper_handle:
  assumes "typed (cs w)" "cs_bears w e"
  shows "proper (cs_handle ll v4 ue e w)"
proof (cases e)
  case (CevPeerData d n prot)
  have "proper (p2p_data ll v4 d n prot w)"
  proof (cases prot)
    case HttpPlain
    then show ?thesis by (auto simp: p2p_data_def intro!: proper_cbind proper_feed_response assms)
  next
    case UdpAssociate
    then show ?thesis
      using assms(1) by (cases "cs_udp (cs w)") (auto simp: p2p_data_def emit_def dest: cu_says_nothing(2) intro!: proper_cbind)
  qed (auto simp: p2p_data_def sock_send_n_def assms(1) intro!: proper_cbind)
  with CevPeerData show ?thesis by simp
next
  case (CevFin prot)
  have "typed ((cs w)\<lparr>is_p2p_closed := True\<rparr>)" using assms(1) by (simp add: typed_def)
  then show ?thesis
    by (auto simp: CevFin p2p_close_def cs_close_def handler_simps)
next
  case CevTcpClosed
  have "proper (close_session w)"
  proof -
    have "proper (if cs_is_closed (cs w) then emit fin w
       else andThen (emit fin) (andThen (modify (cs_upd (\<lambda>s. s\<lparr>cs_is_closed := True\<rparr>)))
           (emit (if cs_on_close (cs w) then [CsClosed (cs_session_id (cs w))] else []))) w)" if "says_ok fin" for fin
      using assms(1) that by (auto simp: emit_def andThen_def modify_def typed_def)
    then show ?thesis
      by (cases "stream_id w") (simp_all add: close_session_def)
  qed
  then show ?thesis
    using assms(1) by (auto simp: CevTcpClosed on_tcp_close_def typed_def intro!: proper_andThen)
next
  case (CevUdp r)
  then show ?thesis
    using assms(1)
    by (cases "cs_udp (cs w)")
      (auto simp: cs_on_udp_def emit_def typed_def dest: cu_says_frames intro!: proper_cbind)
qed (use assms in \<open>simp_all add: proper_process_data proper_synack\<close>)

lemma proper_destroy: "typed (cs w) \<Longrightarrow> proper (cs_destroy w)"
  unfolding cs_destroy_def
  by (rule proper_andThen) (auto simp: emit_def modify_def cu_says_nothing(3) split: option.splits intro!: proper_cbind)

lemma says_ok_message:
  assumes "says_ok acts" "CsToPeer conn f \<in> set acts \<or> CsUdp (CuToPeer conn f) \<in> set acts"
    and "packMessage f (length f) = Inr d"
  shows "ok_message d"
proof -
  have "length f < 2 ^ 32" using assms(3) by (simp add: packMessage_def split: if_splits)
  then have "unat (word_of_nat (length f) :: u32) = length f" by (rule unat_data_len)
  with unpack_pack_eq [OF assms(3)] assms(1,2) show ?thesis
    by (auto simp: ok_message_def says_ok_def frame_ok_def split: sum.splits option.splits)
qed

subsection \<open>Property\<close>

text \<open>C12: A session's phase types its protocol, and the client only asks for what the server serves: from a
new session on, whatever the application and the peer do, the request phases have the protocol of their
command, a session with a stream has a protocol the server has an object for, and no frame the session
or its UDP session sends is one of those that end the server.\<close>
theorem session_typed:
  assumes "typed (cs w)" "cs_bears w e" "cs_handle ll v4 ue e w = Inr (w', acts)"
  shows "typed (Socks5Session_new ll i) \<and> typed (cs w') \<and>
    (\<forall>conn f d. CsToPeer conn f \<in> set acts \<or> CsUdp (CuToPeer conn f) \<in> set acts \<longrightarrow>
       packMessage f (length f) = Inr d \<longrightarrow> ok_message d)"
  using proper_handle [OF assms(1,2), of ll v4 ue] assms(3) says_ok_message
  by (auto simp: typed_def Socks5Session_new_def)

theorem session_typed_witness:
  "\<exists>w'. process_data idle_llhttp [5, 1, 0] 3
     \<lparr>cs = Socks5Session_new idle_llhttp 1, mux = set_send_func (SessionMux_new 4), draws = [77]\<rparr> =
       Inr (w', [CsTcp (EvSend [0x05, 0x00])]) \<and> typed (cs w') \<and> cs_phase (cs w') = WaitSocksTCP"
proof -
  let ?w = "\<lparr>cs = Socks5Session_new idle_llhttp 1, mux = set_send_func (SessionMux_new 4), draws = [77]\<rparr>"
  have new: "cs_phase (cs ?w) = WaitGreetingVersion" "cs_tcp (cs ?w)" "typed (cs ?w)"
    by (simp_all add: Socks5Session_new_def typed_def)
  have "[5, 1, 0] = [5, 1, 0] @ []" by simp
  from process_socks [OF greeting_loop [OF new(1,2) this], of idle_llhttp] new(1)
  have run: "cs_handle idle_llhttp (\<lambda>_. None) plain_udp_env (CevRead [5, 1, 0] 3) ?w =
      Inr (cs_upd (\<lambda>s. s\<lparr>cs_phase := WaitSocksTCP, cs_protocol := Socks5Connect\<rparr>) ?w, [CsTcp (EvSend [0x05, 0x00])])"
    by simp
  have "cs_bears ?w (CevRead [5, 1, 0] 3)" by simp
  from session_typed [OF new(3) this run] run show ?thesis by simp
qed

end
