(* ===== verification/IniStore.thy ===== *)
theory IniStore
  imports RtcPrelude "HOL-Library.List_Lexorder"
begin

text \<open>
  The store of \<open>CSimpleIniA\<close> (\<open>Src/common/include/SimpleIni.h\<close>): sections of keys and values, kept in the
  order of their names as \<open>std::map\<close> and \<open>std::multimap\<close> keep them, and every operation on it. Names and values
  are C strings, so no text of the store holds a NUL character.

  A container is the list of its elements in order, an iterator the part of it from the element it points
  to on (the empty list is \<open>end()\<close>). Memory is always available; \<open>CopyString\<close> still refuses a text of a
  gigabyte. \<open>SetMultiLine\<close> is never called, so the values between tags that it allows are left out.
\<close>

subsection \<open>Names\<close>

text \<open>The value of a \<open>char\<close>, which is signed.\<close>

definition char_value :: "char \<Rightarrow> int" where
  "char_value c = sint (byte_of_char c)"

definition locase :: "char \<Rightarrow> char" where
  "locase c = (if char_value c < 65 \<or> 90 < char_value c then c else char_of_byte (byte_of_char c - 65 + 97))"

text \<open>\<open>SI_GenericNoCase\<close>.\<close>

fun IsLess :: "string \<Rightarrow> string \<Rightarrow> bool" where
  "IsLess (l # ls) (r # rs) =
     (let cmp = char_value (locase l) - char_value (locase r) in
      if cmp \<noteq> 0 then cmp < 0 else IsLess ls rs)"
| "IsLess ls rs = (rs \<noteq> [])"

text \<open>The comparison is the lexicographic order of the folded names.\<close>

definition fold_key :: "string \<Rightarrow> int list" where
  "fold_key s = map (\<lambda>c. char_value (locase c)) s"

lemma fold_key_simps [simp]: "fold_key [] = []" "fold_key (c # s) = char_value (locase c) # fold_key s"
  "fold_key s = [] \<longleftrightarrow> s = []"
  by (simp_all add: fold_key_def)

text \<open>What the folding does, in the numbers of the characters.\<close>

lemma char_value_inject [simp]: "char_value c = char_value d \<longleftrightarrow> c = d"
  unfolding char_value_def by (metis char_of_byte_of_char signed_word_eqI)

lemma locase_range: "locase c = (if 65 \<le> (of_char c :: nat) \<and> (of_char c :: nat) \<le> 90 then char_of (of_char c + 32 :: nat) else c)"
proof -
  define n :: nat where "n = of_char c"
  have n: "n < 256" by (simp add: n_def)
  have "uint (word_of_nat n :: u8) = int n" using n by (simp add: unsigned_of_nat take_bit_nat_eq_self)
  then have "char_value c = signed_take_bit 7 (int n)"
    by (simp add: char_value_def byte_of_char_def sint_uint flip: n_def)
  then have v: "char_value c = (int n + 128) mod 256 - 128"
    by (simp add: signed_take_bit_eq_take_bit_shift take_bit_eq_mod)
  have "\<not> (char_value c < 65 \<or> 90 < char_value c) \<longleftrightarrow> 65 \<le> n \<and> n \<le> 90"
  proof (cases "n < 128")
    case True
    then show ?thesis by (simp add: v) linarith
  next
    case False
    then have "(int n + 128) mod 256 = int n - 128"
      using n mod_pos_pos_trivial [of "int n - 128" 256] mod_add_self2 [of "int n - 128" 256] by (simp add: add.commute)
    with False n show ?thesis by (simp add: v)
  qed
  moreover have "char_of_byte (byte_of_char c - 65 + 97) = char_of (n + 32)" if "65 \<le> n" "n \<le> 90"
  proof -
    have "byte_of_char c - 65 + 97 = word_of_nat (n + 32)" by (simp add: byte_of_char_def n_def)
    moreover have "unat (word_of_nat (n + 32) :: u8) = n + 32" using that by (simp add: unat_of_nat del: of_nat_add)
    ultimately show ?thesis by (simp only: char_of_byte_def)
  qed
  ultimately show ?thesis by (auto simp: locase_def n_def)
qed

lemma fold_key_eq: "fold_key a = fold_key b \<longleftrightarrow> map locase a = map locase b"
  by (induction a arbitrary: b; case_tac b) simp_all

lemma IsLess_iff: "IsLess a b \<longleftrightarrow> fold_key a < fold_key b"
  by (induction a arbitrary: b; case_tac b) (auto simp: Let_def)

lemma IsLess_trans: "IsLess a b \<Longrightarrow> IsLess b c \<Longrightarrow> IsLess a c"
  by (simp add: IsLess_iff)

subsection \<open>Entries and the two containers\<close>

record ini_entry =
  pItem :: string
  pComment :: "string option"
  nOrder :: nat

definition Entry_new :: "string \<Rightarrow> string option \<Rightarrow> nat \<Rightarrow> ini_entry" where
  "Entry_new item com ord = \<lparr>pItem = item, pComment = com, nOrder = ord\<rparr>"

type_synonym 'v ordered = "(ini_entry \<times> 'v) list"
type_synonym keyval = "string ordered"
type_synonym sections = "keyval ordered"

abbreviation name_of :: "ini_entry \<times> 'v \<Rightarrow> string" where
  "name_of p \<equiv> pItem (fst p)"

text \<open>\<open>find\<close>: the elements before the place of the name, and the iterator.\<close>

definition before_key :: "string \<Rightarrow> 'v ordered \<Rightarrow> 'v ordered" where
  "before_key k m = takeWhile (\<lambda>p. IsLess (name_of p) k) m"

definition find_key :: "string \<Rightarrow> 'v ordered \<Rightarrow> 'v ordered" where
  "find_key k m =
     (let r = dropWhile (\<lambda>p. IsLess (name_of p) k) m in
      if r = [] \<or> IsLess k (name_of (hd r)) then [] else r)"

text \<open>\<open>insert\<close>: behind the elements that are not greater.\<close>

definition insert_entry :: "ini_entry \<Rightarrow> 'v \<Rightarrow> 'v ordered \<Rightarrow> 'v ordered" where
  "insert_entry e v m =
     takeWhile (\<lambda>p. \<not> IsLess (pItem e) (name_of p)) m @ (e, v) # dropWhile (\<lambda>p. \<not> IsLess (pItem e) (name_of p)) m"

text \<open>\<open>it->second = v\<close> for the element \<open>find\<close> gives.\<close>

definition assign_key :: "string \<Rightarrow> 'v \<Rightarrow> 'v ordered \<Rightarrow> 'v ordered" where
  "assign_key k v m =
     (case find_key k m of [] \<Rightarrow> m | p # r \<Rightarrow> before_key k m @ (fst p, v) # r)"

text \<open>The elements from the iterator on whose name is the iterator's.\<close>

definition equal_run :: "string \<Rightarrow> 'v ordered \<Rightarrow> 'v ordered" where
  "equal_run k it = takeWhile (\<lambda>p. \<not> IsLess k (name_of p)) it"

subsection \<open>The object\<close>

text \<open>
  \<open>m_pData\<close> counts only as set or not; \<open>m_nOrder\<close> stays below \<open>INT_MAX\<close> because a file of a gigabyte has
  fewer lines.
\<close>

record ini =
  m_pData_set :: bool
  m_pFileComment :: "string option"
  m_data :: sections
  m_bStoreIsUtf8 :: bool
  m_bAllowMultiKey :: bool
  m_bSpaces :: bool
  m_bParseQuotes :: bool
  m_bAllowKeyOnly :: bool
  m_nOrder :: nat

definition SimpleIni_new :: ini where
  "SimpleIni_new =
     \<lparr>m_pData_set = False, m_pFileComment = None, m_data = [], m_bStoreIsUtf8 = False, m_bAllowMultiKey = False,
      m_bSpaces = True, m_bParseQuotes = False, m_bAllowKeyOnly = False, m_nOrder = 0\<rparr>"

definition Reset :: "ini \<Rightarrow> ini" where
  "Reset s = s\<lparr>m_pData_set := False, m_pFileComment := None, m_nOrder := 0, m_data := []\<rparr>"

definition SetUnicode :: "bool \<Rightarrow> ini \<Rightarrow> ini" where
  "SetUnicode b s = (if \<not> m_pData_set s then s\<lparr>m_bStoreIsUtf8 := b\<rparr> else s)"

datatype si_error = SI_OK | SI_UPDATED | SI_INSERTED | SI_FAIL | SI_NOMEM | SI_FILE

definition SI_MAX_FILE_SIZE :: nat where
  "SI_MAX_FILE_SIZE = 1024 * 1024 * 1024"

text \<open>\<open>CopyString\<close> succeeds.\<close>

definition copyable :: "string \<Rightarrow> bool" where
  "copyable s \<longleftrightarrow> length s < SI_MAX_FILE_SIZE"

subsection \<open>Reading the store\<close>

definition GetSection :: "ini \<Rightarrow> string \<Rightarrow> keyval option" where
  "GetSection s sec = (case find_key sec (m_data s) of [] \<Rightarrow> None | p # _ \<Rightarrow> Some (snd p))"

definition SectionExists :: "ini \<Rightarrow> string \<Rightarrow> bool" where
  "SectionExists s sec \<longleftrightarrow> GetSection s sec \<noteq> None"

definition GetValue :: "ini \<Rightarrow> string \<Rightarrow> string \<Rightarrow> string option \<Rightarrow> string option" where
  "GetValue s sec key dflt =
     (case GetSection s sec of None \<Rightarrow> dflt
      | Some kv \<Rightarrow> (case find_key key kv of [] \<Rightarrow> dflt | p # _ \<Rightarrow> Some (snd p)))"

text \<open>What \<open>*a_pHasMultiple\<close> holds after \<open>GetValue\<close>.\<close>

definition HasMultiple :: "ini \<Rightarrow> string \<Rightarrow> string \<Rightarrow> bool" where
  "HasMultiple s sec key \<longleftrightarrow>
     (case GetSection s sec of None \<Rightarrow> False
      | Some kv \<Rightarrow> (case find_key key kv of p # q # _ \<Rightarrow> m_bAllowMultiKey s \<and> \<not> IsLess key (name_of q) | _ \<Rightarrow> False))"

definition KeyExists :: "ini \<Rightarrow> string \<Rightarrow> string \<Rightarrow> bool" where
  "KeyExists s sec key \<longleftrightarrow> GetValue s sec key None \<noteq> None"

definition value_entry :: "ini_entry \<times> string \<Rightarrow> ini_entry" where
  "value_entry p = Entry_new (snd p) (pComment (fst p)) (nOrder (fst p))"

definition GetAllValues :: "ini \<Rightarrow> string \<Rightarrow> string \<Rightarrow> ini_entry list" where
  "GetAllValues s sec key =
     (case GetSection s sec of None \<Rightarrow> []
      | Some kv \<Rightarrow>
          (case find_key key kv of [] \<Rightarrow> []
           | p # r \<Rightarrow> value_entry p # (if m_bAllowMultiKey s then map value_entry (equal_run key r) else [])))"

definition GetAllSections :: "ini \<Rightarrow> ini_entry list" where
  "GetAllSections s = map fst (m_data s)"

text \<open>One entry for each run of equal names; the first argument is \<open>pLastKey\<close>.\<close>

fun first_keys :: "string option \<Rightarrow> keyval \<Rightarrow> ini_entry list" where
  "first_keys prev [] = []"
| "first_keys prev (p # kv) =
     (if prev = None \<or> IsLess (the prev) (name_of p)
      then fst p # first_keys (Some (name_of p)) kv
      else first_keys prev kv)"

definition GetAllKeys :: "ini \<Rightarrow> string \<Rightarrow> ini_entry list" where
  "GetAllKeys s sec = (case GetSection s sec of None \<Rightarrow> [] | Some kv \<Rightarrow> first_keys None kv)"

definition GetSectionSize :: "ini \<Rightarrow> string \<Rightarrow> int" where
  "GetSectionSize s sec =
     (case GetSection s sec of None \<Rightarrow> - 1
      | Some kv \<Rightarrow> int (if \<not> m_bAllowMultiKey s \<or> kv = [] then length kv else length (first_keys None kv)))"

subsection \<open>Deleting\<close>

definition erase_section :: "string \<Rightarrow> sections \<Rightarrow> sections" where
  "erase_section sec m =
     (case find_key sec m of [] \<Rightarrow> m | p # r \<Rightarrow> before_key sec m @ r)"

text \<open>The second component says whether something was deleted.\<close>

definition DeleteValue :: "string \<Rightarrow> string option \<Rightarrow> string option \<Rightarrow> bool \<Rightarrow> ini \<Rightarrow> ini \<times> bool" where
  "DeleteValue sec key val remove_empty s =
     (case GetSection s sec of None \<Rightarrow> (s, False)
      | Some kv \<Rightarrow>
          (case key of
             None \<Rightarrow> (s\<lparr>m_data := erase_section sec (m_data s)\<rparr>, True)
           | Some k \<Rightarrow>
               (let it = find_key k kv;
                    doomed = (\<lambda>p. val = None \<or> \<not> IsLess (the val) (snd p) \<and> \<not> IsLess (snd p) (the val));
                    run = equal_run k it;
                    kv' = before_key k kv @ filter (\<lambda>p. \<not> doomed p) run @ drop (length run) it
                in if it = [] \<or> \<not> list_ex doomed run then (s, False)
                   else if \<not> remove_empty \<or> kv' \<noteq> []
                   then (s\<lparr>m_data := assign_key sec kv' (m_data s)\<rparr>, True)
                   else (s\<lparr>m_data := erase_section sec (m_data s)\<rparr>, True))))"

definition Delete :: "string \<Rightarrow> string option \<Rightarrow> bool \<Rightarrow> ini \<Rightarrow> ini \<times> bool" where
  "Delete sec key remove_empty s = DeleteValue sec key None remove_empty s"

subsection \<open>Adding\<close>

text \<open>The order and the comment a replaced entry hands on: those of the oldest of its run.\<close>

definition oldest :: "nat \<Rightarrow> keyval \<Rightarrow> nat \<times> string option" where
  "oldest ord run =
     foldl (\<lambda>(o', c) p. if nOrder (fst p) < o' then (nOrder (fst p), pComment (fst p)) else (o', c)) (ord, None) run"

text \<open>The key entry and its value: a new entry, or the value of the one that is there.\<close>

definition put_value :: "string \<Rightarrow> string \<Rightarrow> string option \<Rightarrow> nat \<Rightarrow> bool \<Rightarrow> string \<Rightarrow> ini \<Rightarrow> ini" where
  "put_value sec k com ord new_key v s =
     (let kv = (case GetSection s sec of None \<Rightarrow> [] | Some kv \<Rightarrow> kv) in
      s\<lparr>m_data := assign_key sec
          (if new_key then insert_entry (Entry_new k com ord) v kv else assign_key k v kv) (m_data s)\<rparr>)"

text \<open>
  The part of \<open>AddEntry\<close> behind the section entry: \<open>s\<close> holds the section, \<open>fresh\<close> says that it was just inserted.
\<close>

definition add_key ::
  "bool \<Rightarrow> string \<Rightarrow> string \<Rightarrow> string option \<Rightarrow> string option \<Rightarrow> bool \<Rightarrow> bool \<Rightarrow> ini \<Rightarrow> ini \<times> si_error" where
  "add_key fresh sec k val com force copy s =
     (let it = (case GetSection s sec of None \<Rightarrow> [] | Some kv \<Rightarrow> find_key k kv);
          ord = m_nOrder s + 1;
          s1 = s\<lparr>m_nOrder := ord\<rparr>;
          replaced = it \<noteq> [] \<and> m_bAllowMultiKey s \<and> force;
          old = (if replaced then oldest ord (equal_run k it) else (ord, None));
          s2 = (if replaced then fst (Delete sec (Some k) False s1) else s1);
          new_key = (it = [] \<or> replaced \<or> m_bAllowMultiKey s \<and> \<not> force);
          v = (case val of None \<Rightarrow> [] | Some v \<Rightarrow> v)
      in if snd old \<noteq> None \<and> \<not> copyable (the (snd old)) then (s1, SI_NOMEM)
         else if copy \<and> (new_key \<and> \<not> copyable k \<or> \<not> copyable v)
         then (if fresh then s2\<lparr>m_data := erase_section sec (m_data s2)\<rparr> else s2, SI_NOMEM)
         else (put_value sec k (if snd old \<noteq> None then snd old else com) (fst old) new_key v s2,
               if it = [] then SI_INSERTED else SI_UPDATED))"

definition AddEntry ::
  "string \<Rightarrow> string option \<Rightarrow> string option \<Rightarrow> string option \<Rightarrow> bool \<Rightarrow> bool \<Rightarrow> ini \<Rightarrow> ini \<times> si_error" where
  "AddEntry sec key val com force copy s =
     (if copy \<and> com \<noteq> None \<and> \<not> copyable (the com) then (s, SI_NOMEM)
      else if \<not> SectionExists s sec \<and> copy \<and> \<not> copyable sec then (s, SI_NOMEM)
      else
        let fresh = (\<not> SectionExists s sec);
            s1 = (if fresh
                  then s\<lparr>m_nOrder := m_nOrder s + 1,
                         m_data := insert_entry
                           (Entry_new sec (if key = None then com else None) (m_nOrder s + 1)) [] (m_data s)\<rparr>
                  else s)
        in case key of
             None \<Rightarrow> (s1, if fresh then SI_INSERTED else SI_UPDATED)
           | Some k \<Rightarrow> add_key fresh sec k val com force copy s1)"

definition SetValue :: "string \<Rightarrow> string option \<Rightarrow> string option \<Rightarrow> string option \<Rightarrow> bool \<Rightarrow> ini \<Rightarrow> ini \<times> si_error" where
  "SetValue sec key val com force s = AddEntry sec key val com force True s"

subsection \<open>The containers as finite maps\<close>

text \<open>
  A container is seen as the map from folded names to the first value of each. \<open>unique\<close> is the order of a
  \<open>std::map\<close>, \<open>sorted (keys m)\<close> that of a \<open>std::multimap\<close>.
\<close>

abbreviation key_of :: "ini_entry \<times> 'v \<Rightarrow> int list" where
  "key_of p \<equiv> fold_key (name_of p)"

abbreviation keys :: "'v ordered \<Rightarrow> int list list" where
  "keys m \<equiv> map key_of m"

definition unique :: "'v ordered \<Rightarrow> bool" where
  "unique m \<longleftrightarrow> sorted_wrt (<) (keys m)"

definition table :: "'v ordered \<Rightarrow> int list \<rightharpoonup> 'v" where
  "table m = map_of (map (\<lambda>p. (key_of p, snd p)) m)"

lemma table_simps [simp]: "table [] = Map.empty" "table (p # m) = (table m)(key_of p \<mapsto> snd p)"
  by (simp_all add: table_def)

lemma unique_Nil [simp]: "unique []"
  by (simp add: unique_def)

lemma unique_sorted: "unique m \<Longrightarrow> sorted (keys m)"
  unfolding unique_def by (rule strict_sorted_imp_sorted)

lemma unique_distinct: "unique m \<Longrightarrow> distinct (keys m)"
  unfolding unique_def by (simp add: strict_sorted_iff)

lemma table_None: "table m k = None \<longleftrightarrow> k \<notin> set (keys m)"
  by (induction m) auto

lemma find_key_Cons:
  "find_key k (p # m) =
     (if key_of p < fold_key k then find_key k m else if fold_key k < key_of p then [] else p # m)"
  by (simp add: find_key_def IsLess_iff Let_def)

lemma find_key_Nil [simp]: "find_key k [] = []"
  by (simp add: find_key_def)

lemma table_above: "sorted (keys m) \<Longrightarrow> \<forall>p\<in>set m. k < key_of p \<Longrightarrow> table m k = None"
  by (auto simp: table_None)

lemma find_key_value:
  "sorted (keys m) \<Longrightarrow> (case find_key k m of [] \<Rightarrow> None | p # _ \<Rightarrow> Some (snd p)) = table m (fold_key k)"
proof (induction m)
  case (Cons p m)
  then show ?case
    by (cases "key_of p" "fold_key k" rule: linorder_cases)
      (auto simp: find_key_Cons table_None[symmetric] intro!: sym [OF table_above])
qed simp

lemma find_key_end:
  assumes "sorted (keys m)"
  shows "find_key k m = [] \<longleftrightarrow> fold_key k \<notin> set (keys m)"
  using find_key_value [OF assms, of k] unfolding table_None [symmetric] by (cases "find_key k m") (auto dest: sym)

lemma find_key_first:
  "find_key k m = p # r \<Longrightarrow> key_of p = fold_key k \<and> m = before_key k m @ p # r"
  by (induction m) (auto simp: find_key_Cons before_key_def IsLess_iff split: if_splits)

lemma keys_insert_set: "set (insert_entry e v m) = insert (e, v) (set m)"
proof -
  have "set m = set (takeWhile P m) \<union> set (dropWhile P m)" for P :: "ini_entry \<times> 'a \<Rightarrow> bool"
    by (metis set_append takeWhile_dropWhile_id)
  then show ?thesis by (auto simp: insert_entry_def)
qed

lemma insert_entry_simps:
  "insert_entry e v [] = [(e, v)]"
  "insert_entry e v (p # m) =
     (if fold_key (pItem e) < key_of p then (e, v) # p # m else p # insert_entry e v m)"
  by (simp_all add: insert_entry_def IsLess_iff)

lemma sorted_insert: "sorted (keys m) \<Longrightarrow> sorted (keys (insert_entry e v m))"
  by (induction m) (auto simp: insert_entry_simps keys_insert_set)

lemma unique_insert:
  "unique m \<Longrightarrow> table m (fold_key (pItem e)) = None \<Longrightarrow> unique (insert_entry e v m)"
  unfolding table_None unique_def
  by (induction m) (auto simp: insert_entry_simps keys_insert_set)

lemma table_insert:
  "table m (fold_key (pItem e)) = None \<Longrightarrow> table (insert_entry e v m) = (table m)(fold_key (pItem e) \<mapsto> v)"
  unfolding table_None by (induction m) (auto simp: insert_entry_simps fun_eq_iff)

lemma before_key_simps:
  "before_key k [] = []" "before_key k (p # m) = (if key_of p < fold_key k then p # before_key k m else [])"
  by (simp_all add: before_key_def IsLess_iff)

lemma assign_key_simps:
  "assign_key k v [] = []"
  "assign_key k v (p # m) =
     (if key_of p < fold_key k then p # assign_key k v m
      else if fold_key k < key_of p then p # m else (fst p, v) # m)"
  by (auto simp: assign_key_def find_key_Cons before_key_simps split: list.splits)

lemma erase_section_simps:
  "erase_section k [] = []"
  "erase_section k (p # m) =
     (if key_of p < fold_key k then p # erase_section k m
      else if fold_key k < key_of p then p # m else m)"
  by (auto simp: erase_section_def find_key_Cons before_key_simps split: list.splits)

lemma keys_assign [simp]: "map fst (assign_key k v m) = map fst m"
  by (induction m) (simp_all add: assign_key_simps)

lemma table_assign:
  "sorted (keys m) \<Longrightarrow> table m (fold_key k) \<noteq> None \<Longrightarrow> table (assign_key k v m) = (table m)(fold_key k \<mapsto> v)"
proof (induction m)
  case (Cons p m)
  show ?case
  proof (cases "key_of p" "fold_key k" rule: linorder_cases)
    case less
    with Cons show ?thesis by (auto simp: assign_key_simps fun_eq_iff)
  next
    case greater
    with Cons.prems have "table (p # m) (fold_key k) = None" by (intro table_above) auto
    with Cons.prems show ?thesis by blast
  qed (auto simp: assign_key_simps fun_eq_iff)
qed simp

lemma set_assign: "q \<in> set (assign_key k v m) \<Longrightarrow> q \<in> set m \<or> (\<exists>p\<in>set m. q = (fst p, v))"
  by (induction m) (auto simp: assign_key_simps split: if_splits)

lemma set_erase: "set (erase_section k m) \<subseteq> set m"
  by (induction m) (auto simp: erase_section_simps)

lemma unique_erase: "unique m \<Longrightarrow> unique (erase_section k m)"
  unfolding unique_def by (induction m) (use set_erase in \<open>fastforce simp: erase_section_simps\<close>)+

lemma table_erase:
  assumes "unique m"
  shows "table (erase_section k m) = (table m)(fold_key k := None)"
  using assms
proof (induction m)
  case (Cons p m)
  then have u: "unique m" and less_all: "\<forall>q\<in>set m. key_of p < key_of q" by (simp_all add: unique_def)
  from less_all have p: "table m (key_of p) = None" by (intro table_above [OF unique_sorted [OF u]])
  show ?case
  proof (cases "key_of p" "fold_key k" rule: linorder_cases)
    case less
    with Cons.IH [OF u] show ?thesis by (auto simp: erase_section_simps fun_eq_iff)
  next
    case equal
    with p show ?thesis by (auto simp: erase_section_simps fun_eq_iff)
  next
    case greater
    then have "table m (fold_key k) = None"
      using less_all by (intro table_above [OF unique_sorted [OF u]]) (blast intro: less_trans)
    with greater show ?thesis by (auto simp: erase_section_simps fun_eq_iff)
  qed
qed (simp add: erase_section_simps)

subsection \<open>The store as a finite map\<close>

definition ini_table :: "ini \<Rightarrow> int list \<times> int list \<rightharpoonup> string" where
  "ini_table s k = (case table (m_data s) (fst k) of None \<Rightarrow> None | Some kv \<Rightarrow> table kv (snd k))"

text \<open>The sections in the order of a \<open>map\<close>, the keys in that of a \<open>multimap\<close>, and load orders already given out.\<close>

definition wf_keys :: "nat \<Rightarrow> keyval \<Rightarrow> bool" where
  "wf_keys n kv \<longleftrightarrow> sorted (keys kv) \<and> (\<forall>q\<in>set kv. nOrder (fst q) \<le> n)"

definition wf_ini :: "ini \<Rightarrow> bool" where
  "wf_ini s \<longleftrightarrow> unique (m_data s) \<and> (\<forall>p\<in>set (m_data s). nOrder (fst p) \<le> m_nOrder s \<and> wf_keys (m_nOrder s) (snd p))"

lemma wf_ini_new [simp]: "wf_ini SimpleIni_new" "wf_ini (Reset s)"
  by (simp_all add: wf_ini_def SimpleIni_new_def Reset_def)

lemma wf_keys_Nil [simp]: "wf_keys n []"
  by (simp add: wf_keys_def)

lemma wf_keys_le: "wf_keys n kv \<Longrightarrow> n \<le> n' \<Longrightarrow> wf_keys n' kv"
  by (auto simp: wf_keys_def intro: order_trans)

lemma table_in: "table m k = Some v \<Longrightarrow> \<exists>p\<in>set m. key_of p = k \<and> snd p = v"
  by (induction m) (auto split: if_splits)

lemma GetSection_table: "wf_ini s \<Longrightarrow> GetSection s sec = table (m_data s) (fold_key sec)"
  unfolding GetSection_def wf_ini_def by (simp add: find_key_value [symmetric] unique_sorted)

lemma GetSection_wf: "wf_ini s \<Longrightarrow> GetSection s sec = Some kv \<Longrightarrow> wf_keys (m_nOrder s) kv"
  by (auto simp: GetSection_table wf_ini_def dest!: table_in)

lemma GetValue_table:
  assumes "wf_ini s"
  shows "GetValue s sec key d = (case ini_table s (fold_key sec, fold_key key) of None \<Rightarrow> d | Some v \<Rightarrow> Some v)"
proof (cases "GetSection s sec")
  case None
  with assms show ?thesis by (simp add: GetValue_def ini_table_def GetSection_table)
next
  case (Some kv)
  from GetSection_wf [OF assms Some] have "sorted (keys kv)" by (simp add: wf_keys_def)
  from find_key_value [OF this, of key] Some assms show ?thesis
    by (auto simp: GetValue_def ini_table_def GetSection_table split: list.splits dest: sym)
qed

lemma wf_ini_assign:
  "wf_ini s \<Longrightarrow> wf_keys (m_nOrder s) kv \<Longrightarrow> wf_ini (s\<lparr>m_data := assign_key sec kv (m_data s)\<rparr>)"
  unfolding wf_ini_def unique_def by (auto dest!: set_assign simp flip: map_map [of "\<lambda>e. fold_key (pItem e)" fst, unfolded comp_def])

lemma wf_ini_erase: "wf_ini s \<Longrightarrow> wf_ini (s\<lparr>m_data := erase_section sec (m_data s)\<rparr>)"
  unfolding wf_ini_def using set_erase [of sec "m_data s"] by (auto simp: unique_erase)

lemma wf_ini_later: "wf_ini s \<Longrightarrow> m_nOrder s \<le> n \<Longrightarrow> wf_ini (s\<lparr>m_nOrder := n\<rparr>)"
  unfolding wf_ini_def by (auto intro: order_trans wf_keys_le)

lemma wf_ini_insert:
  "wf_ini s \<Longrightarrow> table (m_data s) (fold_key (pItem e)) = None \<Longrightarrow> nOrder e \<le> m_nOrder s \<Longrightarrow> wf_keys (m_nOrder s) kv \<Longrightarrow>
    wf_ini (s\<lparr>m_data := insert_entry e kv (m_data s)\<rparr>)"
  unfolding wf_ini_def by (auto simp: unique_insert keys_insert_set)

lemma wf_keys_insert: "wf_keys n kv \<Longrightarrow> nOrder e \<le> n \<Longrightarrow> wf_keys n (insert_entry e v kv)"
  by (auto simp: wf_keys_def sorted_insert keys_insert_set)

lemma wf_keys_assign: "wf_keys n kv \<Longrightarrow> wf_keys n (assign_key k v kv)"
  unfolding wf_keys_def by (auto dest!: set_assign simp flip: map_map [of "\<lambda>e. fold_key (pItem e)" fst, unfolded comp_def])

subsection \<open>Every operation keeps the order of the containers\<close>

lemma wf_keys_filter: "wf_keys n (a @ b @ c) \<Longrightarrow> wf_keys n (a @ filter P b @ c)"
  unfolding wf_keys_def map_append sorted_append set_append set_map
  by (simp add: sorted_filter ball_Un) (metis fst_conv)

lemma wf_keys_kept:
  assumes "wf_keys n kv"
  shows "wf_keys n (before_key k kv @ filter P (equal_run k (find_key k kv)) @ drop (length (equal_run k (find_key k kv))) (find_key k kv))"
proof (cases "find_key k kv")
  case Nil
  have "sorted (keys (takeWhile Q kv))" for Q
    using assms sorted_append [of "keys (takeWhile Q kv)" "keys (dropWhile Q kv)"]
    by (simp add: wf_keys_def flip: map_append)
  with assms Nil show ?thesis
    by (auto simp: wf_keys_def before_key_def equal_run_def dest: set_takeWhileD)
next
  case (Cons p r)
  let ?run = "equal_run k (p # r)"
  have run: "?run @ drop (length ?run) (p # r) = p # r"
    by (simp add: equal_run_def dropWhile_eq_drop [symmetric])
  from find_key_first [OF Cons] have "kv = before_key k kv @ ?run @ drop (length ?run) (p # r)" by (simp add: run)
  with assms have "wf_keys n (before_key k kv @ ?run @ drop (length ?run) (p # r))" by metis
  then show ?thesis unfolding Cons by (rule wf_keys_filter)
qed

lemma wf_ini_delete: "wf_ini s \<Longrightarrow> wf_ini (fst (DeleteValue sec key val e s))"
  using wf_ini_erase [of s sec] wf_ini_assign [OF _ wf_keys_kept [OF GetSection_wf]]
  by (auto simp: DeleteValue_def Let_def split: option.splits)

lemma DeleteValue_order [simp]: "m_nOrder (fst (DeleteValue sec key val e s)) = m_nOrder s"
  by (simp add: DeleteValue_def Let_def split: option.splits)

lemma oldest_le: "fst (oldest n run) \<le> n"
proof -
  have "fst (foldl (\<lambda>(o', c) p. if nOrder (fst p) < o' then (nOrder (fst p), pComment (fst p)) else (o', c)) a run) \<le> fst a" for a
  proof (induction run arbitrary: a)
    case (Cons p run)
    show ?case by (rule order_trans, simp, rule Cons.IH) (simp split: prod.splits)
  qed simp
  from this [of "(n, None)"] show ?thesis by (simp add: oldest_def)
qed

lemma wf_ini_put:
  assumes "wf_ini s" "ord \<le> m_nOrder s"
  shows "wf_ini (put_value sec k com ord new_key v s)"
proof -
  have "wf_keys (m_nOrder s) (case GetSection s sec of None \<Rightarrow> [] | Some kv \<Rightarrow> kv)"
    using GetSection_wf [OF assms(1)] by (simp split: option.split)
  then show ?thesis
    unfolding put_value_def Let_def using assms(2)
    by (intro wf_ini_assign [OF assms(1)]) (simp add: wf_keys_insert wf_keys_assign Entry_new_def)
qed

lemma wf_ini_branch: "wf_ini (fst x) \<Longrightarrow> wf_ini (fst y) \<Longrightarrow> wf_ini (fst (if c then x else y))"
  by simp

lemma wf_ini_add_key: "wf_ini s \<Longrightarrow> wf_ini (fst (add_key fresh sec k val com force copy s))"
proof -
  assume wf: "wf_ini s"
  then have s1: "wf_ini (s\<lparr>m_nOrder := m_nOrder s + 1\<rparr>)" by (simp add: wf_ini_later)
  have s2: "wf_ini (if r then fst (Delete sec (Some k) False (s\<lparr>m_nOrder := m_nOrder s + 1\<rparr>)) else s\<lparr>m_nOrder := m_nOrder s + 1\<rparr>)"
    (is "wf_ini ?s2") for r
    using wf_ini_delete [OF s1] s1 by (simp add: Delete_def)
  have put: "wf_ini (put_value sec k c (fst (if r' then oldest (m_nOrder s + 1) run else (m_nOrder s + 1, None))) n v
      (if r then fst (Delete sec (Some k) False (s\<lparr>m_nOrder := m_nOrder s + 1\<rparr>)) else s\<lparr>m_nOrder := m_nOrder s + 1\<rparr>))"
    for c r r' run n v
    by (rule wf_ini_put [OF s2]) (simp add: Delete_def oldest_le [of "Suc n" for n, simplified])
  have erased: "wf_ini (if fresh then s'\<lparr>m_data := erase_section sec (m_data s')\<rparr> else s')" if "wf_ini s'" for s'
    using wf_ini_erase [OF that] that by simp
  show ?thesis
    unfolding add_key_def Let_def by (intro wf_ini_branch) (simp_all only: fst_conv s1 put erased [OF s2])
qed

lemma wf_ini_add: "wf_ini s \<Longrightarrow> wf_ini (fst (AddEntry sec key val com force copy s))"
proof -
  assume wf: "wf_ini s"
  have fresh: "wf_ini (s\<lparr>m_nOrder := Suc (m_nOrder s),
      m_data := insert_entry (Entry_new sec c (Suc (m_nOrder s))) [] (m_data s)\<rparr>)" if "\<not> SectionExists s sec" for c
    using wf_ini_insert [OF wf_ini_later [OF wf, of "Suc (m_nOrder s)"], of "Entry_new sec c (Suc (m_nOrder s))" "[]"] that wf
    by (simp add: SectionExists_def GetSection_table Entry_new_def)
  show ?thesis
    unfolding AddEntry_def Let_def
    by (cases key; cases "SectionExists s sec") (simp_all add: wf_ini_add_key fresh wf)
qed

subsection \<open>What an entry added or deleted changes\<close>

lemma find_key_table: "wf_keys n kv \<Longrightarrow> find_key k kv = [] \<longleftrightarrow> table kv (fold_key k) = None"
  by (simp add: wf_keys_def find_key_end table_None)

lemma sections_table: "wf_ini s \<Longrightarrow> sorted (keys (m_data s))"
  by (simp add: wf_ini_def unique_sorted)

lemma sections_put:
  "wf_ini s \<Longrightarrow> table (m_data s) (fold_key sec) = Some kv \<Longrightarrow>
    table (m_data (put_value sec k com ord n v s)) = (table (m_data s))(fold_key sec \<mapsto>
      (if n then insert_entry (Entry_new k com ord) v kv else assign_key k v kv))"
  by (simp add: put_value_def Let_def GetSection_table table_assign sections_table)

lemma ini_table_put:
  assumes "wf_ini s" "table (m_data s) (fold_key sec) = Some kv" "n \<longleftrightarrow> table kv (fold_key k) = None"
  shows "ini_table (put_value sec k com ord n v s) = (ini_table s)((fold_key sec, fold_key k) \<mapsto> v)"
proof -
  have "wf_keys (m_nOrder s) kv" using GetSection_wf [OF assms(1)] assms(2) by (simp add: GetSection_table [OF assms(1)])
  then have "table (if n then insert_entry (Entry_new k com ord) v kv else assign_key k v kv) = (table kv)(fold_key k \<mapsto> v)"
    using assms(3) by (simp add: table_insert table_assign wf_keys_def Entry_new_def)
  with assms(2) show ?thesis
    by (auto simp: fun_eq_iff ini_table_def sections_put [OF assms(1,2)])
qed

lemma put_value_fields [simp]:
  "m_bAllowMultiKey (put_value sec k com ord n v s) = m_bAllowMultiKey s"
  "m_bStoreIsUtf8 (put_value sec k com ord n v s) = m_bStoreIsUtf8 s"
  "m_bSpaces (put_value sec k com ord n v s) = m_bSpaces s"
  "m_bParseQuotes (put_value sec k com ord n v s) = m_bParseQuotes s"
  "m_bAllowKeyOnly (put_value sec k com ord n v s) = m_bAllowKeyOnly s"
  "m_pFileComment (put_value sec k com ord n v s) = m_pFileComment s"
  "m_nOrder (put_value sec k com ord n v s) = m_nOrder s"
  by (simp_all add: put_value_def Let_def)

lemma ini_table_order [simp]: "ini_table (s\<lparr>m_nOrder := n\<rparr>) = ini_table s"
  by (simp add: ini_table_def fun_eq_iff)

text \<open>The section entry, when there is none yet.\<close>

definition with_section :: "string \<Rightarrow> string option \<Rightarrow> ini \<Rightarrow> ini" where
  "with_section sec com s =
     (if SectionExists s sec then s
      else s\<lparr>m_nOrder := Suc (m_nOrder s), m_data := insert_entry (Entry_new sec com (Suc (m_nOrder s))) [] (m_data s)\<rparr>)"

lemma with_section_fields [simp]:
  "m_bAllowMultiKey (with_section sec com s) = m_bAllowMultiKey s"
  "m_bStoreIsUtf8 (with_section sec com s) = m_bStoreIsUtf8 s"
  "m_bSpaces (with_section sec com s) = m_bSpaces s"
  "m_bParseQuotes (with_section sec com s) = m_bParseQuotes s"
  "m_bAllowKeyOnly (with_section sec com s) = m_bAllowKeyOnly s"
  "m_pFileComment (with_section sec com s) = m_pFileComment s"
  by (simp_all add: with_section_def)

lemma with_section_table:
  assumes "wf_ini s"
  shows "ini_table (with_section sec com s) = ini_table s"
    "table (m_data (with_section sec com s)) =
      (if SectionExists s sec then table (m_data s) else (table (m_data s))(fold_key sec \<mapsto> []))"
  using assms by (auto simp: with_section_def SectionExists_def GetSection_table ini_table_def fun_eq_iff table_insert Entry_new_def)

lemma wf_with_section: "wf_ini s \<Longrightarrow> wf_ini (with_section sec com s)"
  using wf_ini_insert [OF wf_ini_later [of s "Suc (m_nOrder s)"], of "Entry_new sec com (Suc (m_nOrder s))" "[]"]
  by (simp add: with_section_def SectionExists_def GetSection_table Entry_new_def)

text \<open>Every text of an entry can be copied.\<close>

definition entry_copyable :: "string \<Rightarrow> string \<Rightarrow> string option \<Rightarrow> string option \<Rightarrow> bool" where
  "entry_copyable sec k val com \<longleftrightarrow>
     copyable sec \<and> copyable k \<and> copyable (case val of None \<Rightarrow> [] | Some v \<Rightarrow> v) \<and> (\<forall>c. com = Some c \<longrightarrow> copyable c)"

text \<open>Without repeated keys an entry is put under its name, with a load order of its own when it is new.\<close>

lemma AddEntry_single:
  assumes "\<not> m_bAllowMultiKey s" "wf_ini s" "copy \<longrightarrow> entry_copyable sec k val com"
  shows "AddEntry sec (Some k) val com force copy s =
    (let s1 = with_section sec None s;
         new_key = (ini_table s (fold_key sec, fold_key k) = None)
     in (put_value sec k com (Suc (m_nOrder s1)) new_key (case val of None \<Rightarrow> [] | Some v \<Rightarrow> v)
           (s1\<lparr>m_nOrder := Suc (m_nOrder s1)\<rparr>), if new_key then SI_INSERTED else SI_UPDATED))"
proof -
  let ?s1 = "with_section sec None s"
  note s1 = wf_with_section [OF assms(2), of sec None]
  have "(case GetSection ?s1 sec of None \<Rightarrow> [] | Some kv \<Rightarrow> find_key k kv) = [] \<longleftrightarrow> ini_table s (fold_key sec, fold_key k) = None"
  proof (cases "GetSection ?s1 sec")
    case None
    then show ?thesis
      by (simp add: GetSection_table [OF s1] with_section_table(2) [OF assms(2)] SectionExists_def
          GetSection_table [OF assms(2)] ini_table_def split: if_splits)
  next
    case (Some kv)
    then have "table (m_data ?s1) (fold_key sec) = Some kv" by (simp add: GetSection_table [OF s1])
    then have "ini_table ?s1 (fold_key sec, fold_key k) = table kv (fold_key k)" by (simp add: ini_table_def)
    with Some find_key_table [OF GetSection_wf [OF s1 Some]] show ?thesis by (simp add: with_section_table [OF assms(2)])
  qed
  note new = this
  have multi: "\<not> m_bAllowMultiKey ?s1" using assms(1) by simp
  have "AddEntry sec (Some k) val com force copy s = add_key (\<not> SectionExists s sec) sec k val com force copy ?s1"
    using assms(3) by (auto simp: AddEntry_def with_section_def Let_def entry_copyable_def)
  moreover have "\<not> (copy \<and> (n \<and> \<not> copyable k \<or> \<not> copyable (case val of None \<Rightarrow> [] | Some v \<Rightarrow> v)))" for n
    using assms(3) by (auto simp: entry_copyable_def)
  ultimately show ?thesis using multi by (simp add: add_key_def new Let_def)
qed

lemma AddEntry_table:
  assumes "\<not> m_bAllowMultiKey s" "wf_ini s" "copy \<longrightarrow> entry_copyable sec k val com"
  shows "ini_table (fst (AddEntry sec (Some k) val com force copy s)) =
    (ini_table s)((fold_key sec, fold_key k) \<mapsto> (case val of None \<Rightarrow> [] | Some v \<Rightarrow> v))"
proof -
  let ?s1 = "with_section sec None s"
  let ?s2 = "?s1\<lparr>m_nOrder := Suc (m_nOrder ?s1)\<rparr>"
  have s2: "wf_ini ?s2" by (simp add: wf_ini_later wf_with_section assms(2))
  have t: "ini_table ?s2 = ini_table s" using with_section_table(1) [OF assms(2)] by simp
  obtain kv where kv: "table (m_data ?s2) (fold_key sec) = Some kv"
    using with_section_table(2) [OF assms(2), of sec None] GetSection_table [OF assms(2), of sec]
    by (cases "SectionExists s sec") (auto simp: SectionExists_def)
  have "ini_table s (fold_key sec, fold_key k) = table kv (fold_key k)" using kv by (simp add: ini_table_def flip: t)
  with ini_table_put [OF s2 kv, of _ k] show ?thesis
    by (simp add: AddEntry_single [OF assms] Let_def with_section_table(1) [OF assms(2)])
qed

lemma table_behind:
  assumes "sorted (keys m)" "\<forall>p\<in>set m. fold_key k \<le> key_of p"
  shows "table (dropWhile (\<lambda>p. \<not> IsLess k (name_of p)) m) = (table m)(fold_key k := None)"
  using assms
proof (induction m)
  case (Cons p m)
  show ?case
  proof (cases "fold_key k < key_of p")
    case True
    then have "table (p # m) (fold_key k) = None" using Cons.prems(1) by (intro table_above) auto
    with True show ?thesis by (auto simp: IsLess_iff fun_eq_iff)
  next
    case False
    with Cons.prems(2) have "key_of p = fold_key k" by simp
    with Cons show ?thesis by (auto simp: IsLess_iff fun_eq_iff)
  qed
qed (simp add: fun_eq_iff)

lemma table_without_run:
  assumes "sorted (keys m)"
  shows "table (before_key k m @ drop (length (equal_run k (find_key k m))) (find_key k m)) = (table m)(fold_key k := None) \<or>
    find_key k m = []"
  using assms
proof (induction m)
  case (Cons p m)
  show ?case
  proof (cases "key_of p" "fold_key k" rule: linorder_cases)
    case less
    with Cons show ?thesis by (auto simp: before_key_simps find_key_Cons fun_eq_iff)
  next
    case equal
    then have "\<forall>q\<in>set (p # m). fold_key k \<le> key_of q" using Cons.prems by auto
    note behind = table_behind [OF Cons.prems this]
    have "drop (length (equal_run k (p # m))) (p # m) = dropWhile (\<lambda>p. \<not> IsLess k (name_of p)) (p # m)"
      by (simp only: equal_run_def dropWhile_eq_drop)
    with behind equal show ?thesis by (simp only: before_key_simps find_key_Cons less_irrefl if_False append_Nil simp_thms)
  next
    case greater
    then have "find_key k (p # m) = []" by (simp add: find_key_Cons less_not_sym)
    then show ?thesis ..
  qed
qed simp

text \<open>Deleting a key removes every value of it and nothing else.\<close>

lemma Delete_table:
  assumes "wf_ini s"
  shows "ini_table (fst (Delete sec (Some k) e s)) = (ini_table s)((fold_key sec, fold_key k) := None)"
proof (cases "GetSection s sec")
  case None
  with assms show ?thesis
    by (auto simp: Delete_def DeleteValue_def fun_eq_iff ini_table_def GetSection_table)
next
  case (Some kv)
  then have t: "table (m_data s) (fold_key sec) = Some kv" using assms by (simp add: GetSection_table)
  let ?it = "find_key k kv"
  let ?run = "equal_run k ?it"
  let ?kv = "before_key k kv @ drop (length ?run) ?it"
  from GetSection_wf [OF assms Some] have kv: "wf_keys (m_nOrder s) kv" .
  show ?thesis
  proof (cases "?it = []")
    case True
    with find_key_table [OF kv] have "table kv (fold_key k) = None" by simp
    with True Some t show ?thesis
      by (auto simp: Delete_def DeleteValue_def fun_eq_iff ini_table_def Let_def)
  next
    case False
    then obtain p r where it: "?it = p # r" by (cases ?it) auto
    have "key_of p = fold_key k" using find_key_first [OF it] by blast
    then have run: "list_ex (\<lambda>p. True) ?run" by (simp add: it equal_run_def IsLess_iff)
    from table_without_run [of kv k] kv False have tab: "table ?kv = (table kv)(fold_key k := None)"
      by (simp add: wf_keys_def)
    have u: "unique (m_data s)" using assms by (simp add: wf_ini_def)
    have new: "table (assign_key sec ?kv (m_data s)) = (table (m_data s))(fold_key sec \<mapsto> ?kv)"
      using t by (intro table_assign sections_table [OF assms]) simp
    have "Delete sec (Some k) e s =
        (if \<not> e \<or> ?kv \<noteq> [] then (s\<lparr>m_data := assign_key sec ?kv (m_data s)\<rparr>, True)
         else (s\<lparr>m_data := erase_section sec (m_data s)\<rparr>, True))"
      using Some False run by (simp add: Delete_def DeleteValue_def Let_def)
    moreover have "ini_table (s\<lparr>m_data := assign_key sec ?kv (m_data s)\<rparr>) = (ini_table s)((fold_key sec, fold_key k) := None)"
      using t by (auto simp: fun_eq_iff ini_table_def new tab)
    moreover have "ini_table (s\<lparr>m_data := erase_section sec (m_data s)\<rparr>) = (ini_table s)((fold_key sec, fold_key k) := None)"
      if "?kv = []"
    proof -
      from that have "table kv = Map.empty(fold_key k := table kv (fold_key k))"
        using tab by (simp add: fun_eq_iff) metis
      then show ?thesis using t by (auto simp: fun_eq_iff ini_table_def table_erase [OF u] split: if_splits)
    qed
    ultimately show ?thesis by simp
  qed
qed

end
