(* ===== verification/IniText.thy ===== *)
theory IniText
  imports IniStore
begin

text \<open>
  The text of a settings file (\<open>Src/common/include/SimpleIni.h\<close>): the scanner of \<open>LoadData\<close> and the writer
  of \<open>Save\<close>. The scanner works in place: it ends names and values by writing NUL characters into the
  buffer behind them. Here the rest of the text is the argument and every name and value is a string of
  its own; the one name the scanner leaves without an end, that of a section whose bracket is not
  closed, is kept open until the next NUL is written behind it.

  The file's new line is a parameter: one line feed, or a carriage return before it on Windows.
\<close>

subsection \<open>Characters\<close>

definition LF :: char where "LF = CHR 0x0A"
definition CR :: char where "CR = CHR 0x0D"
definition TAB :: char where "TAB = CHR 0x09"

definition IsSpace :: "char \<Rightarrow> bool" where
  "IsSpace c \<longleftrightarrow> c = CHR '' '' \<or> c = TAB \<or> c = CR \<or> c = LF"

definition IsComment :: "char \<Rightarrow> bool" where
  "IsComment c \<longleftrightarrow> c = CHR '';'' \<or> c = CHR ''#''"

definition IsNewLineChar :: "char \<Rightarrow> bool" where
  "IsNewLineChar c \<longleftrightarrow> c = LF \<or> c = CR"

text \<open>The character at the pointer is the one before the NUL at the end, or not.\<close>

definition at :: "char \<Rightarrow> string \<Rightarrow> bool" where
  "at c d \<longleftrightarrow> d \<noteq> [] \<and> hd d = c"

definition SkipNewLine :: "string \<Rightarrow> string" where
  "SkipNewLine d = (if at CR d \<and> at LF (tl d) then drop 2 d else drop 1 d)"

definition line_of :: "string \<Rightarrow> string" where
  "line_of d = takeWhile (\<lambda>c. \<not> IsNewLineChar c) d"

definition after_line :: "string \<Rightarrow> string" where
  "after_line d = dropWhile (\<lambda>c. \<not> IsNewLineChar c) d"

text \<open>\<open>while (pTrail >= start && IsSpace(*pTrail)) --pTrail\<close>.\<close>

definition trim_right :: "string \<Rightarrow> string" where
  "trim_right s = rev (dropWhile IsSpace (rev s))"

lemma SkipNewLine_length: "d \<noteq> [] \<Longrightarrow> length (SkipNewLine d) < length d"
  by (auto simp: SkipNewLine_def)

lemma SkipNewLine_le: "length (SkipNewLine d) \<le> length d"
  by (simp add: SkipNewLine_def)

lemma after_line_le: "length (after_line d) \<le> length d"
  by (simp add: after_line_def length_dropWhile_le)

subsection \<open>Comments\<close>

text \<open>The blank lines up to the next character that is no space: how many, and the text from there.\<close>

function blank_lines :: "string \<Rightarrow> nat \<times> string" where
  "blank_lines [] = (0, [])"
| "blank_lines (c # cs) =
     (if \<not> IsSpace c then (0, c # cs)
      else if IsNewLineChar c then (let (n, e) = blank_lines (SkipNewLine (c # cs)) in (Suc n, e))
      else blank_lines cs)"
  by pat_completeness auto
termination
  by (relation "measure length") (auto intro: SkipNewLine_length [of "c # cs" for c cs, simplified])

lemma blank_lines_le: "length (snd (blank_lines d)) \<le> length d"
proof (induction d rule: blank_lines.induct)
  case (2 c cs)
  have "length (SkipNewLine (c # cs)) \<le> length (c # cs)" by (rule SkipNewLine_le)
  with 2 show ?case by (auto simp: prod.case_eq_if intro: order_trans)
qed simp

lemma blank_lines_comment:
  assumes "d = [] \<or> \<not> IsComment (hd d)" "blank_lines d = (n, e)" "e \<noteq> []" "IsComment (hd e)"
  shows "length e < length d"
proof (cases d)
  case (Cons c cs)
  have "length (snd (blank_lines (SkipNewLine (c # cs)))) < Suc (length cs)"
    by (rule le_less_trans [OF blank_lines_le]) (use SkipNewLine_length [of "c # cs"] in simp)
  moreover have "length (snd (blank_lines cs)) < Suc (length cs)"
    by (rule le_imp_less_Suc [OF blank_lines_le])
  ultimately show ?thesis using assms Cons by (auto split: if_splits prod.splits)
qed (use assms in simp)

text \<open>
  \<open>LoadMultiLineText\<close> without a tag, from the start of a line: the lines with one line feed each, the
  text behind the comment, and whether the data ended within its last line.
\<close>

function comment_lines :: "bool \<Rightarrow> string \<Rightarrow> string \<times> string \<times> bool" where
  "comment_lines blanks d =
     (if d = [] \<or> \<not> IsComment (hd d)
      then let (n, e) = blank_lines d in
           if blanks \<and> e \<noteq> [] \<and> IsComment (hd e)
           then let (t, r, cut) = comment_lines blanks e in (replicate n LF @ t, r, cut)
           else ([], d, False)
      else let d1 = after_line d in
           if d1 = [] then (line_of d, [], True)
           else let (t, r, cut) = comment_lines blanks (SkipNewLine d1) in (line_of d @ LF # t, r, cut))"
  by pat_completeness auto
termination
proof (relation "measure (\<lambda>(b, d). length d)", goal_cases)
  case (2 blanks d x n e)
  then show ?case using blank_lines_comment [of d n e] by simp
next
  case (3 blanks d d1)
  then have "length (SkipNewLine d1) < length d1" by (intro SkipNewLine_length) simp
  with 3 show ?case using after_line_le [of d] by simp
qed simp

declare comment_lines.simps [simp del]

text \<open>The comment and the text behind it, \<open>None\<close> for no comment: its last line feed is dropped.\<close>

definition load_comment :: "bool \<Rightarrow> string \<Rightarrow> (string \<times> string) option" where
  "load_comment blanks d =
     (if d = [] \<or> \<not> IsComment (hd d) then None
      else let (t, r, cut) = comment_lines blanks d in Some (if cut then t else butlast t, r))"

subsection \<open>Entries\<close>

text \<open>
  The section an entry belongs to: its name, or the text since the bracket that was not closed, which
  goes on up to the next NUL.
\<close>

datatype section_name = Ended string | Running string

fun name_text :: "section_name \<Rightarrow> string" where
  "name_text (Ended s) = s"
| "name_text (Running s) = s"

fun passed :: "string \<Rightarrow> section_name \<Rightarrow> section_name" where
  "passed t (Ended s) = Ended s"
| "passed t (Running s) = Running (s @ t)"

fun ended :: "string \<Rightarrow> section_name \<Rightarrow> section_name" where
  "ended t (Ended s) = Ended s"
| "ended t (Running s) = Ended (s @ t)"

record found_entry =
  fe_section :: string
  fe_key :: "string option"
  fe_val :: "string option"
  fe_comment :: "string option"

text \<open>The value of a key: the rest of its line without the blanks around it, and without quotes if they are parsed.\<close>

definition skip_blanks :: "string \<Rightarrow> string" where
  "skip_blanks d = dropWhile (\<lambda>c. \<not> IsNewLineChar c \<and> IsSpace c) d"

definition strip_quotes :: "bool \<Rightarrow> string \<Rightarrow> string" where
  "strip_quotes quotes v =
     (if quotes \<and> 1 < length v \<and> hd v = CHR 0x22 \<and> last v = CHR 0x22 then butlast (tl v) else v)"

text \<open>\<open>FindEntry\<close>: the next entry and the text behind it, \<open>None\<close> at the end of the data.\<close>

function FindEntry :: "ini \<Rightarrow> section_name \<Rightarrow> string option \<Rightarrow> string \<Rightarrow> (found_entry \<times> string) option" where
  "FindEntry s sec com data =
     (let blanks = takeWhile IsSpace data;
          d = dropWhile IsSpace data
      in if d = [] then None
         else if IsComment (hd d)
         then (case load_comment True d of
                 None \<Rightarrow> None
               | Some (t, r) \<Rightarrow> FindEntry s (ended t (passed blanks sec)) (Some t) r)
         else if hd d = CHR ''[''
         then (let d1 = dropWhile IsSpace (tl d);
                   name = takeWhile (\<lambda>c. c \<noteq> CHR '']'' \<and> \<not> IsNewLineChar c) d1;
                   d2 = dropWhile (\<lambda>c. c \<noteq> CHR '']'' \<and> \<not> IsNewLineChar c) d1
               in if \<not> at (CHR '']'') d2 then FindEntry s (Running name) com d2
                  else Some (\<lparr>fe_section = trim_right name, fe_key = None, fe_val = None, fe_comment = com\<rparr>,
                             after_line (tl d2)))
         else
           (let key = takeWhile (\<lambda>c. c \<noteq> CHR ''='' \<and> \<not> IsNewLineChar c) d;
                d1 = dropWhile (\<lambda>c. c \<noteq> CHR ''='' \<and> \<not> IsNewLineChar c) d;
                sec1 = passed blanks sec;
                have_value = at (CHR ''='') d1
            in if \<not> have_value \<and> \<not> m_bAllowKeyOnly s then FindEntry s (passed key sec1) com d1
               else if have_value \<and> key = []
               then FindEntry s (passed (line_of d1) sec1) com (after_line d1)
               else if have_value
               then (let v = skip_blanks (tl d1) in
                     Some (\<lparr>fe_section = name_text (ended (trim_right key) sec1), fe_key = Some (trim_right key),
                            fe_val = Some (strip_quotes (m_bParseQuotes s) (trim_right (line_of v))),
                            fe_comment = com\<rparr>,
                           SkipNewLine (after_line v)))
               else Some (\<lparr>fe_section = name_text (ended (trim_right key) sec1), fe_key = Some (trim_right key),
                           fe_val = None, fe_comment = com\<rparr>, SkipNewLine d1)))"
  by pat_completeness auto

lemma comment_lines_le: "length (fst (snd (comment_lines b d))) \<le> length d"
proof (induction b d rule: comment_lines.induct)
  case (1 b d)
  show ?case
  proof (cases "d = [] \<or> \<not> IsComment (hd d)")
    case True
    obtain n e where e: "blank_lines d = (n, e)" by fastforce
    show ?thesis
    proof (cases "b \<and> e \<noteq> [] \<and> IsComment (hd e)")
      case more: True
      with blank_lines_comment [OF True e] 1(1) [OF True e [symmetric] refl] True e show ?thesis
        by (simp add: comment_lines.simps [of True d] prod.case_eq_if)
    qed (use True e in \<open>auto simp: comment_lines.simps [of b d]\<close>)
  next
    case False
    have "length (SkipNewLine (after_line d)) \<le> length d"
      using after_line_le [of d] SkipNewLine_le [of "after_line d"] by simp
    with False 1(2) show ?thesis
      by (auto simp: comment_lines.simps [of b d] prod.case_eq_if Let_def)
  qed
qed

lemma load_comment_less: "load_comment b d = Some (t, r) \<Longrightarrow> length r < length d"
proof -
  assume l: "load_comment b d = Some (t, r)"
  then have d: "d \<noteq> []" "IsComment (hd d)" by (auto simp: load_comment_def split: if_splits)
  have "length (fst (snd (comment_lines b d))) < length d"
  proof (cases "after_line d = []")
    case False
    have "length (fst (snd (comment_lines b (SkipNewLine (after_line d))))) \<le> length (SkipNewLine (after_line d))"
      by (rule comment_lines_le)
    also have "\<dots> < length (after_line d)" by (rule SkipNewLine_length [OF False])
    also have "\<dots> \<le> length d" by (rule after_line_le)
    finally show ?thesis using d False by (simp add: comment_lines.simps [of b d] prod.case_eq_if Let_def)
  qed (use d in \<open>simp add: comment_lines.simps [of b d]\<close>)
  with l d show ?thesis by (auto simp: load_comment_def split: prod.splits)
qed

lemma dropWhile_less: "d \<noteq> [] \<Longrightarrow> P (hd d) \<Longrightarrow> length (dropWhile P d) < length d"
  by (cases d) (simp_all add: le_imp_less_Suc [OF length_dropWhile_le])

lemma at_head: "\<not> at c d \<Longrightarrow> d \<noteq> [] \<Longrightarrow> hd d \<noteq> c"
  by (simp add: at_def)

lemma dropWhile_shorter: "length d \<le> length (dropWhile P data) \<Longrightarrow> length d \<le> length data"
  by (meson length_dropWhile_le order_trans)

text \<open>Each turn of the scanner passes at least one character.\<close>

lemma no_value_shorter:
  assumes "d = dropWhile IsSpace data" "d \<noteq> []" "d1 = dropWhile (\<lambda>c. c \<noteq> CHR ''='' \<and> \<not> IsNewLineChar c) d"
    "\<not> at (CHR ''='') d1"
  shows "length d1 < length data"
proof -
  have "\<not> IsSpace (hd d)" using assms(1,2) by (metis hd_dropWhile)
  then have "\<not> IsNewLineChar (hd d)" by (auto simp: IsSpace_def IsNewLineChar_def)
  moreover have "hd d \<noteq> CHR ''=''"
  proof
    assume "hd d = CHR ''=''"
    then have "d1 = d" using assms(2,3) by (cases d) simp_all
    with \<open>hd d = CHR ''=''\<close> assms(2,4) show False by (simp add: at_def)
  qed
  ultimately have "length d1 < length d" using assms(2,3) by (simp add: dropWhile_less)
  then show ?thesis using length_dropWhile_le [of IsSpace data] assms(1) by simp
qed

lemma line_shorter:
  assumes "d = dropWhile IsSpace data" "d \<noteq> []" "length d1 \<le> length d" "at c d1" "\<not> IsNewLineChar c"
  shows "length (after_line d1) < length data"
proof -
  have "length (after_line d1) < length d1"
    unfolding after_line_def using assms(4,5) by (intro dropWhile_less) (simp_all add: at_def)
  then show ?thesis using assms(1,3) length_dropWhile_le [of IsSpace data] by simp
qed

lemma header_shorter:
  assumes "d = dropWhile IsSpace data" "d \<noteq> []" "d1 = dropWhile IsSpace (tl d)" "d2 = dropWhile P d1"
  shows "length d2 < length data"
proof -
  have "length d2 \<le> length (tl d)"
    unfolding assms(3,4) by (meson length_dropWhile_le order_trans)
  also have "\<dots> < length d" using assms(2) by simp
  also have "\<dots> \<le> length data" by (simp add: assms(1) length_dropWhile_le)
  finally show ?thesis .
qed

termination FindEntry
proof (relation "measure (\<lambda>(s, sec, com, data). length data)", goal_cases)
  case (2 s sec com data blanks d x t r)
  then show ?case using load_comment_less [of True d t r] length_dropWhile_le [of IsSpace data] by simp
next
  case (3 s sec com data blanks d d1 name d2)
  then show ?case using header_shorter [of d data d1 d2] by simp
next
  case (4 s sec com data blanks d key d1 sec1 have_value)
  then show ?case using no_value_shorter [of d data d1] by simp
next
  case (5 s sec com data blanks d key d1 sec1 have_value)
  then show ?case using line_shorter [of d data d1 "CHR ''=''"] by (simp add: length_dropWhile_le IsNewLineChar_def LF_def CR_def)
qed simp

declare FindEntry.simps [simp del]

text \<open>The turns of the scanner, one by one.\<close>

lemma FindEntry_end: "dropWhile IsSpace data = d \<Longrightarrow> d = [] \<Longrightarrow> FindEntry s sec com data = None"
  by (simp only: FindEntry.simps [of s sec com data] Let_def if_True simp_thms)

lemma FindEntry_comment:
  assumes d: "dropWhile IsSpace data = d" "d \<noteq> []" "IsComment (hd d)" "load_comment True d = Some (t, r)"
  shows "FindEntry s sec com data = FindEntry s (ended t (passed (takeWhile IsSpace data) sec)) (Some t) r"
  by (simp only: FindEntry.simps [of s sec com data] Let_def assms if_True if_False option.case prod.case simp_thms)

lemma FindEntry_header:
  assumes d: "dropWhile IsSpace data = d" "d \<noteq> []" "hd d = CHR ''[''"
    and "d1 = dropWhile IsSpace (tl d)" "name = takeWhile (\<lambda>c. c \<noteq> CHR '']'' \<and> \<not> IsNewLineChar c) d1"
    and "d2 = dropWhile (\<lambda>c. c \<noteq> CHR '']'' \<and> \<not> IsNewLineChar c) d1"
  shows "FindEntry s sec com data =
    (if \<not> at (CHR '']'') d2 then FindEntry s (Running name) com d2
     else Some (\<lparr>fe_section = trim_right name, fe_key = None, fe_val = None, fe_comment = com\<rparr>, after_line (tl d2)))"
proof -
  have "\<not> IsComment (CHR ''['')" by (simp add: IsComment_def)
  with assms(2,3) show ?thesis
    unfolding assms(4-6)
    by (simp only: FindEntry.simps [of s sec com data] Let_def d if_True if_False option.case prod.case simp_thms)
qed

lemma FindEntry_entry:
  assumes d: "dropWhile IsSpace data = d" "d \<noteq> []" "\<not> IsComment (hd d)" "hd d \<noteq> CHR ''[''"
    and "key = takeWhile (\<lambda>c. c \<noteq> CHR ''='' \<and> \<not> IsNewLineChar c) d"
    and "d1 = dropWhile (\<lambda>c. c \<noteq> CHR ''='' \<and> \<not> IsNewLineChar c) d"
    and "sec1 = passed (takeWhile IsSpace data) sec" "have_value \<longleftrightarrow> at (CHR ''='') d1"
  shows "FindEntry s sec com data =
    (if \<not> have_value \<and> \<not> m_bAllowKeyOnly s then FindEntry s (passed key sec1) com d1
     else if have_value \<and> key = [] then FindEntry s (passed (line_of d1) sec1) com (after_line d1)
     else if have_value
     then (let v = skip_blanks (tl d1) in
           Some (\<lparr>fe_section = name_text (ended (trim_right key) sec1), fe_key = Some (trim_right key),
                  fe_val = Some (strip_quotes (m_bParseQuotes s) (trim_right (line_of v))), fe_comment = com\<rparr>,
                 SkipNewLine (after_line v)))
     else Some (\<lparr>fe_section = name_text (ended (trim_right key) sec1), fe_key = Some (trim_right key),
                 fe_val = None, fe_comment = com\<rparr>, SkipNewLine d1))"
  unfolding assms(5-8)
  by (simp only: FindEntry.simps [of s sec com data] Let_def assms(1-4) if_True if_False option.case prod.case simp_thms)

lemma load_comment_Some: "d \<noteq> [] \<Longrightarrow> IsComment (hd d) \<Longrightarrow> \<exists>t r. load_comment b d = Some (t, r)"
  by (simp add: load_comment_def prod.case_eq_if)

lemma entry_shorter:
  assumes "dropWhile IsSpace data \<noteq> []" "\<not> IsComment (hd (dropWhile IsSpace data))"
    and "hd (dropWhile IsSpace data) \<noteq> CHR ''[''" "FindEntry s sec com data = Some (e, r)"
    and "\<And>sec' com' data'. FindEntry s sec' com' data' = Some (e, r) \<Longrightarrow> length data' < length data \<Longrightarrow> length r < length data"
  shows "length r < length data"
proof -
  let ?d = "dropWhile IsSpace data"
  have le: "length ?d \<le> length data" by (rule length_dropWhile_le)
  let ?P = "\<lambda>c. c \<noteq> CHR ''='' \<and> \<not> IsNewLineChar c"
  let ?d1 = "dropWhile ?P ?d"
  note turn = FindEntry_entry [OF refl assms(1-3) refl refl refl refl, of s sec com]
  have d1: "length ?d1 \<le> length ?d" by (rule length_dropWhile_le)
  show ?thesis
  proof (cases "at (CHR ''='') ?d1")
    case False
    note short = no_value_shorter [OF refl assms(1) refl False]
    show ?thesis
      using assms(4) assms(5) [OF _ short] short SkipNewLine_le [of ?d1] False
      by (cases "m_bAllowKeyOnly s") (auto simp: turn)
  next
    case True
    have "\<not> IsNewLineChar (CHR ''='')" by (simp add: IsNewLineChar_def LF_def CR_def)
    note short = line_shorter [OF refl assms(1) d1 True this]
    have v: "length (skip_blanks (tl ?d1)) \<le> length (tl ?d1)" unfolding skip_blanks_def by (rule length_dropWhile_le)
    have tl: "length (tl ?d1) < length ?d1" using True by (simp add: at_def)
    show ?thesis
    proof (cases "takeWhile ?P ?d = []")
      case empty: True
      from assms(4) assms(5) [OF _ short] show ?thesis by (simp only: turn True empty simp_thms if_True if_False)
    next
      case False
      from assms(4) have "r = SkipNewLine (after_line (skip_blanks (tl ?d1)))"
        by (simp only: turn True False simp_thms if_True if_False Let_def option.inject prod.inject)
      then show ?thesis
        using SkipNewLine_le [of "after_line (skip_blanks (tl ?d1))"] after_line_le [of "skip_blanks (tl ?d1)"] d1 le v tl
        by simp
    qed
  qed
qed

lemma FindEntry_shorter: "FindEntry s sec com data = Some (e, r) \<Longrightarrow> length r < length data"
proof (induction data arbitrary: sec com rule: measure_induct_rule [of length])
  case (less data)
  let ?d = "dropWhile IsSpace data"
  have le: "length ?d \<le> length data" by (rule length_dropWhile_le)
  have IH: "FindEntry s sec' com' data' = Some (e, r) \<Longrightarrow> length data' < length data \<Longrightarrow> length r < length data"
    for sec' com' data' using less.IH by (meson less_trans)
  have ne: "?d \<noteq> []" using less.prems by (auto simp: FindEntry_end [OF refl] simp del: dropWhile_eq_Nil_conv)
  consider (comment) "IsComment (hd ?d)" | (header) "hd ?d = CHR ''[''"
    | (entry) "\<not> IsComment (hd ?d)" "hd ?d \<noteq> CHR ''[''" by blast
  then show ?case
  proof cases
    case comment
    with load_comment_Some [OF ne] obtain t r' where l: "load_comment True ?d = Some (t, r')" by blast
    from less.prems have "FindEntry s (ended t (passed (takeWhile IsSpace data) sec)) (Some t) r' = Some (e, r)"
      by (simp only: FindEntry_comment [OF refl ne comment l])
    from IH [OF this] load_comment_less [OF l] le show ?thesis by simp
  next
    case header
    let ?P = "\<lambda>c. c \<noteq> CHR '']'' \<and> \<not> IsNewLineChar c"
    let ?d2 = "dropWhile ?P (dropWhile IsSpace (tl ?d))"
    have d2: "length ?d2 < length data" by (rule header_shorter [OF refl ne refl refl])
    show ?thesis
    proof (cases "at (CHR '']'') ?d2")
      case True
      with less.prems have "r = after_line (tl ?d2)" by (simp add: FindEntry_header [OF refl ne header refl refl refl])
      with after_line_le [of "tl ?d2"] d2 show ?thesis by simp
    next
      case False
      with less.prems obtain sec' where "FindEntry s sec' com ?d2 = Some (e, r)"
        by (simp add: FindEntry_header [OF refl ne header refl refl refl])
      from IH [OF this d2] show ?thesis .
    qed
  next
    case entry
    from entry_shorter [OF ne entry less.prems IH] show ?thesis .
  qed
qed

subsection \<open>Loading\<close>

definition si_failed :: "si_error \<Rightarrow> bool" where
  "si_failed rc \<longleftrightarrow> rc = SI_FAIL \<or> rc = SI_NOMEM \<or> rc = SI_FILE"

text \<open>\<open>UndoIncrementalLoadData\<close>: the added keys with their sections, then the added sections.\<close>

definition UndoIncrementalLoadData :: "string list \<Rightarrow> (string \<times> string) list \<Rightarrow> ini \<Rightarrow> ini" where
  "UndoIncrementalLoadData secs added s =
     fold (\<lambda>sec s. fst (Delete sec None False s)) secs
       (fold (\<lambda>(k, sec) s. fst (Delete sec (Some k) False s)) added s)"

text \<open>
  The loop over the entries: \<open>copy\<close> for a store that already holds a text, \<open>old\<close> the file comment it had,
  \<open>secs\<close> and \<open>added\<close> what this text added to it so far.
\<close>

function load_entries ::
  "bool \<Rightarrow> string option \<Rightarrow> string \<Rightarrow> string list \<Rightarrow> (string \<times> string) list \<Rightarrow> string \<Rightarrow> ini \<Rightarrow> ini \<times> si_error" where
  "load_entries copy old sec secs added data s =
     (case FindEntry s (Ended sec) None data of
        None \<Rightarrow> (if copy then s else s\<lparr>m_pData_set := True\<rparr>, SI_OK)
      | Some (e, r) \<Rightarrow>
          (let new_section = (\<not> SectionExists s (fe_section e));
               new_key = (case fe_key e of None \<Rightarrow> False
                          | Some k \<Rightarrow> \<not> (SectionExists s (fe_section e) \<and> KeyExists s (fe_section e) k));
               (s', rc) = AddEntry (fe_section e) (fe_key e) (fe_val e) (fe_comment e) False copy s
           in if si_failed rc
              then (if copy then UndoIncrementalLoadData secs added (s'\<lparr>m_pFileComment := old\<rparr>)
                    else s'\<lparr>m_data := [], m_pFileComment := None, m_nOrder := 0\<rparr>, rc)
              else load_entries copy old (fe_section e)
                     (if copy \<and> new_section \<and> fe_section e \<noteq> [] then secs @ [fe_section e] else secs)
                     (if copy \<and> new_key then added @ [(the (fe_key e), fe_section e)] else added) r s'))"
  by pat_completeness auto
termination
  by (relation "measure (\<lambda>(copy, old, sec, secs, added, data, s). length data)") (auto dest: FindEntry_shorter)

declare load_entries.simps [simp del]

text \<open>The text \<open>c_str()\<close> points to, as C functions read it.\<close>

definition c_str :: "string \<Rightarrow> string" where
  "c_str s = takeWhile (\<lambda>c. c \<noteq> CHR 0x00) s"

text \<open>\<open>FindFileComment\<close>: the text behind the comment, \<open>None\<close> when the comment cannot be copied.\<close>

definition FindFileComment :: "bool \<Rightarrow> string \<Rightarrow> ini \<Rightarrow> ini \<times> string option" where
  "FindFileComment copy data s =
     (if m_pFileComment s \<noteq> None then (s, Some data)
      else case load_comment False data of
          None \<Rightarrow> (s, Some data)
        | Some (t, r) \<Rightarrow> if copy \<and> \<not> copyable t then (s, None) else (s\<lparr>m_pFileComment := Some t\<rparr>, Some r))"

definition SI_UTF8_SIGNATURE :: string where
  "SI_UTF8_SIGNATURE = [CHR 0xEF, CHR 0xBB, CHR 0xBF]"

definition LoadData :: "string \<Rightarrow> ini \<Rightarrow> ini \<times> si_error" where
  "LoadData data s =
     (let bom = (take 3 data = SI_UTF8_SIGNATURE);
          data1 = (if bom then drop 3 data else data);
          s1 = (if bom then SetUnicode True s else s);
          copy = m_pData_set s1
      in if data1 = [] then (s1, SI_OK)
         else if SI_MAX_FILE_SIZE \<le> length data1 then (s1, SI_FILE)
         else case FindFileComment copy (c_str data1) s1 of
             (s2, None) \<Rightarrow> (s2, SI_NOMEM)
           | (s2, Some text) \<Rightarrow> load_entries copy (m_pFileComment s1) [] [] [] text s2)"

text \<open>What the file system gives for the path: it cannot be opened or read, or it holds a text.\<close>

datatype file_read = Unreadable | Holds string

definition LoadFile :: "file_read \<Rightarrow> ini \<Rightarrow> ini \<times> si_error" where
  "LoadFile f s =
     (case f of Unreadable \<Rightarrow> (s, SI_FILE)
      | Holds data \<Rightarrow> if SI_MAX_FILE_SIZE < length data then (s, SI_FILE)
                     else if data = [] then (s, SI_OK) else LoadData data s)"

subsection \<open>Saving\<close>

text \<open>The lines of a text, each with the file's new line behind it.\<close>

function out_lines :: "string \<Rightarrow> string \<Rightarrow> string" where
  "out_lines nl t =
     (let r = dropWhile (\<lambda>c. c \<noteq> LF) t in
      takeWhile (\<lambda>c. c \<noteq> LF) t @ nl @ (if r = [] then [] else out_lines nl (tl r)))"
  by pat_completeness auto
termination
proof (relation "measure (\<lambda>(nl, t). length t)", goal_cases)
  case (2 nl t r)
  then have "length (tl r) < length r" by simp
  also have "\<dots> \<le> length t" unfolding 2(1) by (rule length_dropWhile_le)
  finally show ?case by simp
qed simp

declare out_lines.simps [simp del]

definition OutputMultiLineText :: "string \<Rightarrow> string \<Rightarrow> string" where
  "OutputMultiLineText nl t = (if t = [] then [] else out_lines nl t)"

definition IsSingleLineQuotedValue :: "string \<Rightarrow> bool" where
  "IsSingleLineQuotedValue v \<longleftrightarrow>
     v \<noteq> [] \<and>
     (IsSpace (hd v) \<or>
      \<not> list_ex IsNewLineChar v \<and>
      (IsSpace (last v) \<or> 1 < length v \<and> hd v = CHR 0x22 \<and> last v = CHR 0x22))"

definition by_load_order :: "ini_entry list \<Rightarrow> ini_entry list" where
  "by_load_order es = sort_key nOrder es"

definition empty_first :: "ini_entry list \<Rightarrow> ini_entry list" where
  "empty_first es =
     (let before = takeWhile (\<lambda>e. pItem e \<noteq> []) es; rest = dropWhile (\<lambda>e. pItem e \<noteq> []) es
      in if rest = [] then es else hd rest # before @ tl rest)"

definition save_value :: "ini \<Rightarrow> string \<Rightarrow> string" where
  "save_value s v =
     (if v \<noteq> [] \<or> \<not> m_bAllowKeyOnly s
      then (if m_bSpaces s then '' = '' else ''='') @
           (if m_bParseQuotes s \<and> IsSingleLineQuotedValue v then [CHR 0x22] @ v @ [CHR 0x22] else v)
      else [])"

definition save_entry :: "string \<Rightarrow> ini \<Rightarrow> ini_entry \<Rightarrow> ini_entry \<Rightarrow> string" where
  "save_entry nl s k v =
     (case pComment v of None \<Rightarrow> [] | Some c \<Rightarrow> nl @ OutputMultiLineText nl c) @
     pItem k @ save_value s (pItem v) @ nl"

definition save_keys :: "string \<Rightarrow> ini \<Rightarrow> string \<Rightarrow> string" where
  "save_keys nl s sec =
     concat (map (\<lambda>k. concat (map (save_entry nl s k) (GetAllValues s sec (pItem k)))) (by_load_order (GetAllKeys s sec)))"

text \<open>\<open>need\<close> is \<open>bNeedNewLine\<close>.\<close>

definition save_section :: "string \<Rightarrow> ini \<Rightarrow> bool \<Rightarrow> ini_entry \<Rightarrow> string" where
  "save_section nl s need e =
     (if need then nl @ nl else []) @
     (case pComment e of None \<Rightarrow> [] | Some c \<Rightarrow> OutputMultiLineText nl c) @
     (if pItem e \<noteq> [] then ''['' @ pItem e @ '']'' @ nl else []) @
     save_keys nl s (pItem e)"

fun save_sections :: "string \<Rightarrow> ini \<Rightarrow> bool \<Rightarrow> ini_entry list \<Rightarrow> string" where
  "save_sections nl s need [] = []"
| "save_sections nl s need (e # es) = save_section nl s need e @ save_sections nl s True es"

definition Save :: "string \<Rightarrow> bool \<Rightarrow> ini \<Rightarrow> string" where
  "Save nl signature s =
     (if m_bStoreIsUtf8 s \<and> signature then SI_UTF8_SIGNATURE else []) @
     (case m_pFileComment s of None \<Rightarrow> [] | Some c \<Rightarrow> OutputMultiLineText nl c) @
     save_sections nl s (m_pFileComment s \<noteq> None) (empty_first (by_load_order (GetAllSections s)))"

text \<open>
  \<open>SaveFile\<close> of a path, which adds the signature: the result and the text written. What \<open>fputs\<close> returns is
  not looked at.
\<close>

definition SaveFile :: "string \<Rightarrow> bool \<Rightarrow> ini \<Rightarrow> si_error \<times> string option" where
  "SaveFile nl opened s = (if opened then (SI_OK, Some (Save nl True s)) else (SI_FILE, None))"

subsection \<open>Any history of operations\<close>

lemma wf_ini_fields [simp]:
  "wf_ini (s\<lparr>m_pFileComment := c\<rparr>) \<longleftrightarrow> wf_ini s" "wf_ini (s\<lparr>m_pData_set := b\<rparr>) \<longleftrightarrow> wf_ini s"
  "wf_ini (SetUnicode b s) \<longleftrightarrow> wf_ini s"
  by (simp_all add: wf_ini_def SetUnicode_def)

lemma wf_ini_undo: "wf_ini s \<Longrightarrow> wf_ini (UndoIncrementalLoadData secs added s)"
proof -
  have keys: "wf_ini s \<Longrightarrow> wf_ini (fold (\<lambda>(k, sec) s. fst (Delete sec (Some k) False s)) added s)" for s
    by (induction added arbitrary: s) (auto simp: Delete_def wf_ini_delete)
  have "wf_ini s \<Longrightarrow> wf_ini (fold (\<lambda>sec s. fst (Delete sec None False s)) secs s)" for s
    by (induction secs arbitrary: s) (auto simp: Delete_def wf_ini_delete)
  then show "wf_ini s \<Longrightarrow> ?thesis" using keys by (simp add: UndoIncrementalLoadData_def)
qed

lemma wf_ini_entries: "wf_ini s \<Longrightarrow> wf_ini (fst (load_entries copy old sec secs added data s))"
proof (induction copy old sec secs added data s rule: load_entries.induct)
  case (1 copy old sec secs added data s)
  show ?case
  proof (cases "FindEntry s (Ended sec) None data")
    case None
    with 1(2) show ?thesis by (simp add: load_entries.simps [of copy old sec secs added data s])
  next
    case (Some er)
    obtain e r where er: "er = (e, r)" by fastforce
    obtain s' rc where a: "AddEntry (fe_section e) (fe_key e) (fe_val e) (fe_comment e) False copy s = (s', rc)" by fastforce
    have wf: "wf_ini s'" using wf_ini_add [OF 1(2)] a by (metis fst_conv)
    then have "wf_ini (UndoIncrementalLoadData secs added (s'\<lparr>m_pFileComment := old\<rparr>))"
      by (intro wf_ini_undo) simp
    moreover have "wf_ini (s'\<lparr>m_data := [], m_pFileComment := None, m_nOrder := 0\<rparr>)" by (simp add: wf_ini_def)
    ultimately show ?thesis
      using 1(1) [OF Some er [symmetric] refl refl refl a [symmetric] _ wf] Some er a
      by (simp add: load_entries.simps [of copy old sec secs added data s] Let_def)
  qed
qed

lemma wf_ini_load: "wf_ini s \<Longrightarrow> wf_ini (fst (LoadFile f s))"
proof -
  assume wf: "wf_ini s"
  have "wf_ini (fst (LoadData data s))" for data
  proof -
    let ?s1 = "if take 3 data = SI_UTF8_SIGNATURE then SetUnicode True s else s"
    let ?data = "c_str (if take 3 data = SI_UTF8_SIGNATURE then drop 3 data else data)"
    have s1: "wf_ini ?s1" using wf by simp
    obtain s2 rest where f: "FindFileComment (m_pData_set ?s1) ?data ?s1 = (s2, rest)" by fastforce
    with s1 have "wf_ini s2"
      by (auto simp: FindFileComment_def split: if_splits option.splits prod.splits)
    with s1 wf_ini_entries [of s2] show ?thesis
      unfolding LoadData_def Let_def f by (simp split: option.split)
  qed
  with wf show ?thesis by (simp add: LoadFile_def split: file_read.split)
qed

datatype ini_op =
    LoadText file_read
  | Add string "string option" "string option" "string option" bool
  | Remove string "string option" "string option" bool
  | Clear

fun run_ini :: "ini_op \<Rightarrow> ini \<Rightarrow> ini" where
  "run_ini (LoadText f) s = fst (LoadFile f s)"
| "run_ini (Add sec key val com force) s = fst (SetValue sec key val com force s)"
| "run_ini (Remove sec key val remove_empty) s = fst (DeleteValue sec key val remove_empty s)"
| "run_ini Clear s = Reset s"

lemma wf_ini_run: "wf_ini s \<Longrightarrow> wf_ini (fold run_ini ops s)"
proof (induction ops arbitrary: s)
  case (Cons a ops)
  from Cons.prems have "wf_ini (run_ini a s)"
    by (cases a) (simp_all add: wf_ini_load wf_ini_delete SetValue_def wf_ini_add)
  from Cons.IH [OF this] show ?case by simp
qed simp

text \<open>C11: The settings store is a map with names compared without regard to case, after any history of loading
texts, adding, deleting and resetting, whatever the texts hold: its containers stay in the order their
search relies on, deleting a key removes exactly that key's values, and, while repeated keys are off, an
added entry is found under its name and changes nothing else.\<close>
theorem ini_store_is_map:
  assumes "s = fold run_ini ops (Reset s0)"
  shows "wf_ini s \<and>
    (\<forall>sec k e sec' k' d. GetValue (fst (Delete sec (Some k) e s)) sec' k' d =
      (if fold_key sec' = fold_key sec \<and> fold_key k' = fold_key k then d else GetValue s sec' k' d)) \<and>
    (m_bAllowMultiKey s \<or> (\<forall>sec k v sec' k' d. entry_copyable sec k (Some v) None \<longrightarrow>
      GetValue (fst (SetValue sec (Some k) (Some v) None force s)) sec' k' d =
        (if fold_key sec' = fold_key sec \<and> fold_key k' = fold_key k then Some v else GetValue s sec' k' d)))"
proof (intro conjI allI)
  show wf: "wf_ini s" unfolding assms by (rule wf_ini_run) simp
  show "GetValue (fst (Delete sec (Some k) e s)) sec' k' d =
      (if fold_key sec' = fold_key sec \<and> fold_key k' = fold_key k then d else GetValue s sec' k' d)" for sec k e sec' k' d
    using wf_ini_delete [OF wf] Delete_table [OF wf] by (simp add: GetValue_table wf Delete_def)
  show "m_bAllowMultiKey s \<or> (\<forall>sec k v sec' k' d. entry_copyable sec k (Some v) None \<longrightarrow>
      GetValue (fst (SetValue sec (Some k) (Some v) None force s)) sec' k' d =
        (if fold_key sec' = fold_key sec \<and> fold_key k' = fold_key k then Some v else GetValue s sec' k' d))"
  proof (cases "m_bAllowMultiKey s")
    case False
    then show ?thesis
      using AddEntry_table [OF False wf, where copy = True and com = None] wf_ini_add [OF wf]
      by (auto simp: GetValue_table wf SetValue_def)
  qed simp
qed

theorem ini_store_is_map_witness:
  "GetValue (fst (Delete ''a'' (Some ''k'') False (fold run_ini [Add ''A'' (Some ''K'') (Some ''v'') None False] (Reset SimpleIni_new))))
     ''A'' ''k'' None = None"
  using conjunct1 [OF conjunct2 [OF ini_store_is_map [OF refl, of "[Add ''A'' (Some ''K'') (Some ''v'') None False]" SimpleIni_new]]]
  by (simp add: fold_key_eq locase_range char_of_def bit_iff_odd)

end
