(* ===== verification/IniFile.thy ===== *)
theory IniFile
  imports IniText
begin

text \<open>
  Saving a store and loading the text again: the scanner of \<open>IniText\<close> reads every line the writer puts
  out, so the loaded store holds the same values under the same names.
\<close>

subsection \<open>Texts the file can carry\<close>

text \<open>The value between its first and its last character that is no white space.\<close>

definition trim :: "string \<Rightarrow> string" where
  "trim s = trim_right (dropWhile IsSpace s)"

definition one_line :: "string \<Rightarrow> bool" where
  "one_line s \<longleftrightarrow> (\<forall>c\<in>set s. \<not> IsNewLineChar c \<and> c \<noteq> CHR 0x00)"

definition trimmed :: "string \<Rightarrow> bool" where
  "trimmed s \<longleftrightarrow> s = [] \<or> \<not> IsSpace (hd s) \<and> \<not> IsSpace (last s)"

definition section_text :: "string \<Rightarrow> bool" where
  "section_text n \<longleftrightarrow> one_line n \<and> trimmed n \<and> CHR '']'' \<notin> set n"

definition key_text :: "string \<Rightarrow> bool" where
  "key_text k \<longleftrightarrow> k \<noteq> [] \<and> one_line k \<and> trimmed k \<and> CHR ''='' \<notin> set k \<and> \<not> IsComment (hd k) \<and> hd k \<noteq> CHR ''[''"

definition new_line :: "string \<Rightarrow> bool" where
  "new_line nl \<longleftrightarrow> nl = [LF] \<or> nl = [CR, LF]"

text \<open>What a value is after it was written and read: quotes keep the white space at its ends.\<close>

definition stored :: "bool \<Rightarrow> string \<Rightarrow> string" where
  "stored quotes v = (if quotes then v else trim v)"

lemma char_facts [simp]:
  "IsSpace LF" "IsSpace CR" "IsNewLineChar LF" "IsNewLineChar CR" "\<not> IsNewLineChar (CHR ''='')"
  "\<not> IsNewLineChar (CHR '' '')" "IsSpace (CHR '' '')" "\<not> IsSpace (CHR ''['')" "\<not> IsSpace (CHR '']'')"
  "\<not> IsNewLineChar (CHR '']'')" "\<not> IsSpace (CHR ''='')" "\<not> IsSpace (CHR 0x22)" "\<not> IsNewLineChar (CHR 0x22)"
  "\<not> IsComment (CHR ''['')" "LF \<noteq> CR" "CR \<noteq> LF" "LF \<noteq> CHR ''=''" "CR \<noteq> CHR ''=''"
  "\<not> IsNewLineChar (CHR ''['')" "\<not> IsComment LF" "\<not> IsComment CR"
  by (simp_all add: IsSpace_def IsNewLineChar_def IsComment_def LF_def CR_def TAB_def)

lemma trim_right_simps [simp]:
  "trim_right [] = []" "trim_right (s @ [c]) = (if IsSpace c then trim_right s else s @ [c])"
  by (simp_all add: trim_right_def)

lemma trim_right_id: "trimmed s \<Longrightarrow> trim_right s = s"
  by (cases s rule: rev_cases) (auto simp: trimmed_def)

lemma trim_right_blank: "trim_right (s @ '' '') = trim_right s"
  using trim_right_simps(2) [of s "CHR '' ''"] by simp

lemma trimmed_dropWhile: "trimmed s \<Longrightarrow> dropWhile IsSpace s = s"
  by (cases s) (auto simp: trimmed_def)

lemma trim_id: "trimmed s \<Longrightarrow> trim s = s"
  by (simp add: trim_def trimmed_dropWhile trim_right_id)

lemma new_line_cases:
  assumes "new_line nl"
  obtains c nl' where "nl = c # nl'" "IsNewLineChar c" "\<forall>x\<in>set nl. IsSpace x"
  using assms by (auto simp: new_line_def)

lemma SkipNewLine_nl [simp]: "new_line nl \<Longrightarrow> SkipNewLine (nl @ r) = r"
  by (auto simp: new_line_def SkipNewLine_def at_def)

lemma line_of_nl: "new_line nl \<Longrightarrow> one_line s \<Longrightarrow> line_of (s @ nl @ r) = s \<and> after_line (s @ nl @ r) = nl @ r"
  unfolding line_of_def after_line_def
  by (elim new_line_cases) (simp add: takeWhile_append dropWhile_append one_line_def)

lemma skip_blanks_nl:
  assumes "new_line nl" "one_line s"
  shows "skip_blanks (s @ nl @ r) = dropWhile IsSpace s @ nl @ r"
proof -
  have "dropWhile (\<lambda>c. \<not> IsNewLineChar c \<and> IsSpace c) s = dropWhile IsSpace s"
    using assms(2) by (intro dropWhile_cong) (auto simp: one_line_def)
  with assms show ?thesis
    unfolding skip_blanks_def by (elim new_line_cases) (auto simp: dropWhile_append dropWhile_eq_Nil_conv one_line_def)
qed

lemma split_at:
  "\<forall>c\<in>set a. P c \<Longrightarrow> \<not> P c0 \<Longrightarrow> takeWhile P (a @ c0 # r) = a \<and> dropWhile P (a @ c0 # r) = c0 # r"
  by simp

lemma dropWhile_spaces: "\<forall>c\<in>set b. IsSpace c \<Longrightarrow> dropWhile IsSpace (b @ d) = dropWhile IsSpace d"
  by simp

text \<open>White space before an entry changes nothing while the section's name is complete.\<close>

lemma FindEntry_blanks:
  assumes "\<forall>c\<in>set b. IsSpace c"
  shows "FindEntry s (Ended sec) com (b @ d) = FindEntry s (Ended sec) com d"
  by (simp only: FindEntry.simps [of s "Ended sec" com "b @ d"] FindEntry.simps [of s "Ended sec" com d]
      Let_def dropWhile_spaces [OF assms] passed.simps ended.simps)

lemma load_blanks:
  "\<forall>c\<in>set b. IsSpace c \<Longrightarrow> load_entries copy old sec secs added (b @ d) s = load_entries copy old sec secs added d s"
  by (subst (1 2) load_entries.simps) (simp only: FindEntry_blanks)

subsection \<open>The lines the writer puts out\<close>

lemma read_header:
  assumes "section_text n" "new_line nl"
  shows "FindEntry s (Ended sec) None (''['' @ n @ '']'' @ nl @ r) =
    Some (\<lparr>fe_section = n, fe_key = None, fe_val = None, fe_comment = None\<rparr>, nl @ r)"
proof -
  let ?P = "\<lambda>c. c \<noteq> CHR '']'' \<and> \<not> IsNewLineChar c"
  have n: "\<forall>c\<in>set n. ?P c" using assms(1) by (auto simp: section_text_def one_line_def)
  have "dropWhile IsSpace (n @ '']'' @ nl @ r) = n @ '']'' @ nl @ r"
    using assms(1) by (cases n) (simp_all add: section_text_def trimmed_def)
  moreover have "after_line (nl @ r) = nl @ r" using line_of_nl [OF assms(2), of "[]"] by (simp add: one_line_def)
  ultimately show ?thesis
    using n assms(1) by (simp add: FindEntry_header [OF refl _ _ refl refl refl] takeWhile_append dropWhile_append at_def
        section_text_def trim_right_id)
qed

text \<open>The value read back from the characters \<open>save_value\<close> writes behind the equals sign.\<close>

lemma value_read:
  assumes "one_line v" "new_line nl" "set b \<subseteq> set '' ''"
    and "q = (if m_bParseQuotes s \<and> IsSingleLineQuotedValue v then [CHR 0x22] @ v @ [CHR 0x22] else v)"
  shows "strip_quotes (m_bParseQuotes s) (trim_right (line_of (skip_blanks (b @ q @ nl @ r)))) = stored (m_bParseQuotes s) v \<and>
    SkipNewLine (after_line (skip_blanks (b @ q @ nl @ r))) = r"
proof -
  have "one_line q" using assms(1,4) by (auto simp: one_line_def)
  have b: "one_line b" "\<forall>c\<in>set b. IsSpace c" using assms(3) by (auto simp: one_line_def)
  with \<open>one_line q\<close> have "one_line (b @ q)" by (auto simp: one_line_def)
  with skip_blanks_nl [OF assms(2) this, of r] b(2)
  have skip: "skip_blanks (b @ q @ nl @ r) = dropWhile IsSpace q @ nl @ r" by simp
  have "one_line (dropWhile IsSpace q)" using \<open>one_line q\<close> by (auto simp: one_line_def dest: set_dropWhileD)
  note line = line_of_nl [OF assms(2) this, of r]
  have "strip_quotes (m_bParseQuotes s) (trim_right (dropWhile IsSpace q)) = stored (m_bParseQuotes s) v"
  proof (cases "m_bParseQuotes s \<and> IsSingleLineQuotedValue v")
    case True
    then have q: "q = (CHR 0x22 # v) @ [CHR 0x22]" by (simp add: assms(4))
    have "trim_right (dropWhile IsSpace q) = q"
      unfolding q append_Cons dropWhile.simps by (simp del: append_Cons add: append_Cons [symmetric])
    with True show ?thesis by (simp add: q strip_quotes_def stored_def butlast_append)
  next
    case False
    then have q: "q = v" by (simp add: assms(4))
    show ?thesis
    proof (cases "m_bParseQuotes s")
      case True
      moreover have "\<not> list_ex IsNewLineChar v" using assms(1) by (simp add: one_line_def list_ex_iff)
      ultimately have t: "trimmed v" and "1 < length v \<and> hd v = CHR 0x22 \<and> last v = CHR 0x22 \<longleftrightarrow> False"
        using False by (cases "v = []"; simp add: IsSingleLineQuotedValue_def trimmed_def)+
      then have "strip_quotes True v = v" by (simp only: strip_quotes_def simp_thms if_False)
      with True show ?thesis by (simp add: q stored_def trimmed_dropWhile [OF t] trim_right_id [OF t])
    qed (simp add: q strip_quotes_def stored_def trim_def)
  qed
  with assms(2) show ?thesis by (simp add: skip line)
qed

text \<open>The settings of the object the scanner looks at.\<close>

definition same_flags :: "ini \<Rightarrow> ini \<Rightarrow> bool" where
  "same_flags s t \<longleftrightarrow> m_bAllowMultiKey t = m_bAllowMultiKey s \<and> m_bParseQuotes t = m_bParseQuotes s \<and>
     m_bAllowKeyOnly t = m_bAllowKeyOnly s"

lemma same_flags_trans: "same_flags s t \<Longrightarrow> same_flags t u \<Longrightarrow> same_flags s u"
  by (simp add: same_flags_def)

lemma same_flags_refl [simp]: "same_flags s s"
  by (simp add: same_flags_def)

lemma read_entry:
  assumes "key_text k" "one_line v" "new_line nl" "same_flags s t"
  shows "\<exists>val. FindEntry t (Ended sec) None (k @ save_value s v @ nl @ r) =
      Some (\<lparr>fe_section = sec, fe_key = Some k, fe_val = val, fe_comment = None\<rparr>, r) \<and>
    (case val of None \<Rightarrow> [] | Some w \<Rightarrow> w) = stored (m_bParseQuotes s) v"
proof -
  let ?P = "\<lambda>c. c \<noteq> CHR ''='' \<and> \<not> IsNewLineChar c"
  let ?data = "k @ save_value s v @ nl @ r"
  from assms(1) have k: "k \<noteq> []" "\<not> IsSpace (hd k)" "\<not> IsComment (hd k)" "hd k \<noteq> CHR ''[''"
    and trim: "trim_right k = k"
    using trim_right_id [of k] unfolding key_text_def trimmed_def by blast+
  from assms(1) have k_line: "\<forall>c\<in>set k. ?P c"
    unfolding key_text_def one_line_def by metis
  from k(1,2) have d: "dropWhile IsSpace ?data = ?data" and b: "takeWhile IsSpace ?data = []"
    by (cases k; simp)+
  have hd: "?data \<noteq> []" "hd ?data = hd k" using k(1) by simp_all
  note turn = FindEntry_entry [OF d hd(1), unfolded hd(2), OF k(3,4) refl refl refl refl, unfolded b, of t]
  note flags = assms(4) [unfolded same_flags_def]
  show ?thesis
  proof (cases "v = [] \<and> m_bAllowKeyOnly s")
    case True
    obtain c nl' where nl: "nl = c # nl'" "IsNewLineChar c" using new_line_cases [OF assms(3)] by metis
    then have "c \<noteq> CHR ''=''" by (metis char_facts(5))
    with nl split_at [of k ?P c "nl' @ r"] k_line
    have "takeWhile ?P (k @ nl @ r) = k" "dropWhile ?P (k @ nl @ r) = nl @ r" "\<not> at (CHR ''='') (nl @ r)"
      by (simp_all add: at_def)
    moreover from True have sv: "save_value s v = []" by (simp add: save_value_def)
    ultimately show ?thesis
      using True turn [unfolded sv append_Nil] by (simp add: sv flags trim assms(3) stored_def trim_def)
  next
    case False
    define q where "q = (if m_bParseQuotes s \<and> IsSingleLineQuotedValue v then [CHR 0x22] @ v @ [CHR 0x22] else v)"
    define b1 where "b1 = (if m_bSpaces s then '' '' else [])"
    have sv: "save_value s v = b1 @ ''='' @ b1 @ q" using False by (simp add: save_value_def q_def b1_def)
    have "\<forall>c\<in>set (k @ b1). ?P c" using k_line by (simp add: b1_def ball_Un)
    then have split: "takeWhile ?P (k @ b1 @ ''='' @ b1 @ q @ nl @ r) = k @ b1"
      "dropWhile ?P (k @ b1 @ ''='' @ b1 @ q @ nl @ r) = ''='' @ b1 @ q @ nl @ r"
      using split_at [of "k @ b1" ?P "CHR ''=''" "b1 @ q @ nl @ r"] by simp_all
    have "trim_right (k @ b1) = k" using trim trim_right_blank [of k] by (simp add: b1_def)
    moreover have "set b1 \<subseteq> set '' ''" by (cases "m_bSpaces s") (simp_all add: b1_def)
    note value_read [OF assms(2,3) this q_def, of r]
    ultimately show ?thesis
      using k(1) turn [unfolded sv] split by (simp add: sv flags at_def Let_def)
  qed
qed

subsection \<open>Loading what was written\<close>

lemma AddEntry_flags:
  assumes "\<not> m_bAllowMultiKey t" "wf_ini t"
  shows "\<exists>t' rc. AddEntry sec (Some k) val None False False t = (t', rc) \<and> \<not> si_failed rc \<and> wf_ini t' \<and> same_flags t t' \<and>
    ini_table t' = (ini_table t)((fold_key sec, fold_key k) \<mapsto> (case val of None \<Rightarrow> [] | Some v \<Rightarrow> v))"
proof -
  obtain t' rc where a: "AddEntry sec (Some k) val None False False t = (t', rc)" by fastforce
  have "False \<longrightarrow> entry_copyable sec k val None" by simp
  note single = AddEntry_single [OF assms this, where force = False]
  from a single have "\<not> si_failed rc" by (auto simp: Let_def si_failed_def split: if_splits)
  moreover from a single have "same_flags t t'"
    by (auto simp: Let_def same_flags_def)
  moreover have "wf_ini t'" using wf_ini_add [OF assms(2)] a by (metis fst_conv)
  moreover have "ini_table t' = (ini_table t)((fold_key sec, fold_key k) \<mapsto> (case val of None \<Rightarrow> [] | Some v \<Rightarrow> v))"
    using AddEntry_table [OF assms, of False sec k val None False] a by simp
  ultimately show ?thesis using a by blast
qed

lemma AddSection_flags:
  assumes "wf_ini t"
  shows "\<exists>t' rc. AddEntry sec None None None False False t = (t', rc) \<and> \<not> si_failed rc \<and> wf_ini t' \<and> same_flags t t' \<and>
    ini_table t' = ini_table t"
proof -
  obtain t' rc where a: "AddEntry sec None None None False False t = (t', rc)" by fastforce
  then have t': "t' = with_section sec None t" and "\<not> si_failed rc"
    by (auto simp: AddEntry_def with_section_def Let_def si_failed_def split: if_splits)
  moreover have "wf_ini t'" by (simp add: t' wf_with_section assms)
  moreover have "same_flags t t'" by (simp add: t' with_section_def same_flags_def)
  ultimately show ?thesis using a with_section_table(1) [OF assms] by blast
qed

text \<open>The entries of a section as lines, and what loading them leaves in the table.\<close>

definition entry_line :: "string \<Rightarrow> ini \<Rightarrow> string \<times> string \<Rightarrow> string" where
  "entry_line nl s e = fst e @ save_value s (snd e) @ nl"

definition put_entry :: "bool \<Rightarrow> string \<Rightarrow> string \<times> string \<Rightarrow> (int list \<times> int list \<rightharpoonup> string) \<Rightarrow> (int list \<times> int list \<rightharpoonup> string)" where
  "put_entry quotes sec e m = m((fold_key sec, fold_key (fst e)) \<mapsto> stored quotes (snd e))"

definition entry_text :: "string \<times> string \<Rightarrow> bool" where
  "entry_text e \<longleftrightarrow> key_text (fst e) \<and> one_line (snd e)"

lemma load_lines:
  assumes "new_line nl" "\<forall>e\<in>set es. entry_text e" "wf_ini t" "\<not> m_bAllowMultiKey t" "same_flags s t"
  shows "\<exists>t'. load_entries False old sec [] [] (concat (map (entry_line nl s) es) @ r) t =
      load_entries False old sec [] [] r t' \<and>
    wf_ini t' \<and> same_flags t t' \<and> ini_table t' = fold (put_entry (m_bParseQuotes s) sec) es (ini_table t)"
  using assms(2-)
proof (induction es arbitrary: t)
  case Nil
  then show ?case using same_flags_refl [of t] by auto
next
  case (Cons e es)
  obtain k v where e: "e = (k, v)" by fastforce
  let ?r = "concat (map (entry_line nl s) es) @ r"
  from Cons.prems(1) have kv: "key_text k" "one_line v" by (simp_all add: e entry_text_def)
  from read_entry [OF kv assms(1) Cons.prems(4), of sec ?r] obtain val where
    found: "FindEntry t (Ended sec) None (k @ save_value s v @ nl @ ?r) =
      Some (\<lparr>fe_section = sec, fe_key = Some k, fe_val = val, fe_comment = None\<rparr>, ?r)"
    and val: "(case val of None \<Rightarrow> [] | Some w \<Rightarrow> w) = stored (m_bParseQuotes s) v"
    by blast
  from AddEntry_flags [OF Cons.prems(3,2), of sec k val] obtain t1 rc where
    t1: "AddEntry sec (Some k) val None False False t = (t1, rc)" "\<not> si_failed rc" "wf_ini t1" "same_flags t t1"
    "ini_table t1 = (ini_table t)((fold_key sec, fold_key k) \<mapsto> stored (m_bParseQuotes s) v)"
    by (auto simp: val)
  have "load_entries False old sec [] [] (concat (map (entry_line nl s) (e # es)) @ r) t =
      load_entries False old sec [] [] ?r t1"
    by (subst load_entries.simps) (simp add: e entry_line_def found t1(1,2))
  moreover have "\<not> m_bAllowMultiKey t1" "same_flags s t1"
    using t1(4) Cons.prems(3,4) by (simp_all add: same_flags_def)
  with Cons.IH [OF _ t1(3)] Cons.prems(1) obtain t' where t':
    "load_entries False old sec [] [] ?r t1 = load_entries False old sec [] [] r t'" "wf_ini t'" "same_flags t1 t'"
    "ini_table t' = fold (put_entry (m_bParseQuotes s) sec) es (ini_table t1)" by auto
  moreover have "same_flags t t'" using t1(4) t'(3) by (rule same_flags_trans)
  moreover have "fold (put_entry (m_bParseQuotes s) sec) (e # es) (ini_table t) =
      fold (put_entry (m_bParseQuotes s) sec) es (ini_table t1)"
    by (simp add: t1(5) e put_entry_def)
  ultimately show ?case by metis
qed

subsection \<open>The entries of a store in the order they are written\<close>

text \<open>
  A store as the program makes it: no comments, no repeated keys, and names and values a line can carry.
\<close>

definition plain_key :: "ini_entry \<times> string \<Rightarrow> bool" where
  "plain_key q \<longleftrightarrow> pComment (fst q) = None \<and> entry_text (name_of q, snd q)"

definition plain_section :: "ini_entry \<times> keyval \<Rightarrow> bool" where
  "plain_section p \<longleftrightarrow> pComment (fst p) = None \<and> section_text (name_of p) \<and> unique (snd p) \<and> (\<forall>q\<in>set (snd p). plain_key q)"

definition plain_ini :: "ini \<Rightarrow> bool" where
  "plain_ini s \<longleftrightarrow> wf_ini s \<and> \<not> m_bAllowMultiKey s \<and> m_pFileComment s = None \<and> (\<forall>p\<in>set (m_data s). plain_section p)"

definition section_entries :: "ini \<Rightarrow> string \<Rightarrow> (string \<times> string) list" where
  "section_entries s sec =
     map (\<lambda>k. (pItem k, case GetValue s sec (pItem k) None of None \<Rightarrow> [] | Some v \<Rightarrow> v)) (by_load_order (GetAllKeys s sec))"

lemma unique_same: "unique m \<Longrightarrow> p \<in> set m \<Longrightarrow> q \<in> set m \<Longrightarrow> key_of p = key_of q \<Longrightarrow> p = q"
  using unique_distinct [of m] by (metis distinct_map inj_on_def)

lemma find_key_mem:
  assumes "unique m" "q \<in> set m"
  shows "\<exists>r. find_key (name_of q) m = q # r"
proof -
  from assms(2) have "fold_key (name_of q) \<in> set (keys m)" by simp
  with find_key_end [OF unique_sorted [OF assms(1)], of "name_of q"]
  obtain p r where f: "find_key (name_of q) m = p # r" by (cases "find_key (name_of q) m") auto
  from find_key_first [OF f] have "key_of p = key_of q" "p \<in> set m"
    by (auto dest: arg_cong [of m _ set])
  with unique_same [OF assms(1) _ assms(2)] f show ?thesis by blast
qed

lemma plain_iniD:
  assumes "plain_ini s" "p \<in> set (m_data s)"
  shows "GetSection s (name_of p) = Some (snd p)" "plain_section p" "unique (m_data s)"
proof -
  from assms(1) show u: "unique (m_data s)" by (simp add: plain_ini_def wf_ini_def)
  from find_key_mem [OF u assms(2)] show "GetSection s (name_of p) = Some (snd p)" by (auto simp: GetSection_def)
  from assms show "plain_section p" by (simp add: plain_ini_def)
qed

lemma first_keys_unique:
  "unique kv \<Longrightarrow> \<forall>p\<in>set kv. prev = None \<or> fold_key (the prev) < key_of p \<Longrightarrow> first_keys prev kv = map fst kv"
  by (induction prev kv rule: first_keys.induct) (auto simp: unique_def IsLess_iff)

lemma plain_key_mem:
  assumes "plain_ini s" "p \<in> set (m_data s)" "q \<in> set (snd p)"
  shows "GetValue s (name_of p) (name_of q) None = Some (snd q)"
    "GetAllValues s (name_of p) (name_of q) = [value_entry q]"
proof -
  from plain_iniD [OF assms(1,2)] have sec: "GetSection s (name_of p) = Some (snd p)" "unique (snd p)"
    by (simp_all add: plain_section_def)
  from find_key_mem [OF sec(2) assms(3)] sec(1) assms(1)
  show "GetValue s (name_of p) (name_of q) None = Some (snd q)"
    "GetAllValues s (name_of p) (name_of q) = [value_entry q]"
    by (auto simp: GetValue_def GetAllValues_def plain_ini_def)
qed

lemma plain_keys:
  assumes "plain_ini s" "p \<in> set (m_data s)"
  shows "set (by_load_order (GetAllKeys s (name_of p))) = fst ` set (snd p)"
  using plain_iniD [OF assms] first_keys_unique [of "snd p" None]
  by (simp add: by_load_order_def GetAllKeys_def plain_section_def)

lemma save_keys_lines:
  assumes "plain_ini s" "p \<in> set (m_data s)"
  shows "save_keys nl s (name_of p) = concat (map (entry_line nl s) (section_entries s (name_of p)))"
    "\<forall>e\<in>set (section_entries s (name_of p)). entry_text e"
proof -
  let ?K = "by_load_order (GetAllKeys s (name_of p))"
  have entry: "concat (map (save_entry nl s k) (GetAllValues s (name_of p) (pItem k))) =
      entry_line nl s (pItem k, case GetValue s (name_of p) (pItem k) None of None \<Rightarrow> [] | Some v \<Rightarrow> v) \<and>
      entry_text (pItem k, case GetValue s (name_of p) (pItem k) None of None \<Rightarrow> [] | Some v \<Rightarrow> v)"
    if k: "k \<in> set ?K" for k
  proof -
    from k plain_keys [OF assms] obtain q where q: "q \<in> set (snd p)" "k = fst q" by auto
    with plain_iniD(2) [OF assms] have "plain_key q" by (simp add: plain_section_def)
    with q(2) plain_key_mem [OF assms q(1)] show ?thesis
      by (simp add: save_entry_def value_entry_def Entry_new_def entry_line_def plain_key_def)
  qed
  then show "save_keys nl s (name_of p) = concat (map (entry_line nl s) (section_entries s (name_of p)))"
    unfolding save_keys_def section_entries_def by (simp add: comp_def cong: map_cong)
  from entry show "\<forall>e\<in>set (section_entries s (name_of p)). entry_text e"
    by (simp add: section_entries_def)
qed

lemma section_entries_table:
  assumes "plain_ini s" "p \<in> set (m_data s)"
  shows "set (section_entries s (name_of p)) = (\<lambda>q. (name_of q, snd q)) ` set (snd p)"
  unfolding section_entries_def using plain_key_mem [OF assms] by (auto simp: plain_keys [OF assms])

lemma ini_entry_table:
  assumes "plain_ini s" "p \<in> set (m_data s)" "e \<in> set (section_entries s (name_of p))"
  shows "ini_table s (fold_key (name_of p), fold_key (fst e)) = Some (snd e)"
proof -
  from assms(3) section_entries_table [OF assms(1,2)] obtain q where q: "q \<in> set (snd p)" "e = (name_of q, snd q)" by auto
  from assms(1) have "wf_ini s" by (simp add: plain_ini_def)
  from GetValue_table [OF this, of "name_of p" "name_of q" None] plain_key_mem(1) [OF assms(1,2) q(1)] q(2)
  show ?thesis by (auto split: option.splits)
qed

lemma ini_table_entry:
  assumes "plain_ini s" "ini_table s x = Some v"
  shows "\<exists>p\<in>set (m_data s). \<exists>e\<in>set (section_entries s (name_of p)). x = (fold_key (name_of p), fold_key (fst e))"
proof -
  from assms(2) obtain kv where kv: "table (m_data s) (fst x) = Some kv" "table kv (snd x) = Some v"
    by (auto simp: ini_table_def split: option.splits)
  from table_in [OF kv(1)] obtain p where p: "p \<in> set (m_data s)" "key_of p = fst x" "snd p = kv" by blast
  from table_in [OF kv(2)] obtain q where q: "q \<in> set (snd p)" "key_of q = snd x" by (auto simp: p(3))
  then have "(name_of q, snd q) \<in> set (section_entries s (name_of p))" by (auto simp: section_entries_table [OF assms(1) p(1)])
  with p q show ?thesis by (metis fst_conv prod.collapse)
qed

subsection \<open>The whole text\<close>

lemma load_section:
  assumes "plain_ini s" "p \<in> set (m_data s)" "new_line nl" "wf_ini t" "same_flags s t"
    and "name_of p \<noteq> [] \<or> cur = []"
  shows "\<exists>t'. load_entries False old cur [] [] (save_section nl s need (fst p) @ r) t =
      load_entries False old (name_of p) [] [] r t' \<and>
    wf_ini t' \<and> same_flags s t' \<and>
    ini_table t' = fold (put_entry (m_bParseQuotes s) (name_of p)) (section_entries s (name_of p)) (ini_table t)"
proof -
  let ?n = "name_of p" and ?lines = "concat (map (entry_line nl s) (section_entries s (name_of p)))"
  note plain = plain_iniD(2) [OF assms(1,2), unfolded plain_section_def]
  have nl: "\<forall>c\<in>set nl. IsSpace c" using assms(3) by (elim new_line_cases)
  have multi: "\<not> m_bAllowMultiKey u" if "same_flags s u" for u using assms(1) that by (simp add: plain_ini_def same_flags_def)
  note lines = load_lines [OF assms(3) save_keys_lines(2) [OF assms(1,2)] _ multi, of _ s, where sec = ?n and old = old and r = r]
  have "save_section nl s need (fst p) @ r =
      (if need then nl @ nl else []) @ (if ?n \<noteq> [] then ''['' @ ?n @ '']'' @ nl else []) @ ?lines @ r"
    using plain save_keys_lines(1) [OF assms(1,2)] by (simp add: save_section_def)
  moreover have "load_entries False old cur [] [] ((if need then nl @ nl else []) @ d) t = load_entries False old cur [] [] d t" for d
    using nl by (intro load_blanks) auto
  ultimately have start: "load_entries False old cur [] [] (save_section nl s need (fst p) @ r) t =
      load_entries False old cur [] [] ((if ?n \<noteq> [] then ''['' @ ?n @ '']'' @ nl else []) @ ?lines @ r) t" by simp
  show ?thesis
  proof (cases "?n = []")
    case True
    with assms(6) have "cur = ?n" by simp
    with start True lines [OF assms(4,5,5)] show ?thesis
      by (metis append_Nil same_flags_trans [OF assms(5)])
  next
    case False
    from AddSection_flags [OF assms(4), of ?n] obtain t1 rc where
      t1: "AddEntry ?n None None None False False t = (t1, rc)" "\<not> si_failed rc" "wf_ini t1" "same_flags t t1"
      "ini_table t1 = ini_table t" by blast
    have "load_entries False old cur [] [] (''['' @ ?n @ '']'' @ nl @ ?lines @ r) t =
        load_entries False old ?n [] [] (nl @ ?lines @ r) t1"
      using plain by (subst load_entries.simps) (simp add: read_header [OF _ assms(3)] t1(1,2) del: append.simps)
    also have "\<dots> = load_entries False old ?n [] [] (?lines @ r) t1" by (rule load_blanks [OF nl])
    finally have "load_entries False old cur [] [] (save_section nl s need (fst p) @ r) t =
        load_entries False old ?n [] [] (?lines @ r) t1" using False start by simp
    moreover have f1: "same_flags s t1" using assms(5) t1(4) by (rule same_flags_trans)
    ultimately show ?thesis
      using lines [OF t1(3) f1 f1] t1(5) same_flags_trans [OF f1] by metis
  qed
qed

lemma load_sections:
  assumes "plain_ini s" "new_line nl" "set ps \<subseteq> set (m_data s)" "wf_ini t" "same_flags s t"
    and "\<forall>p\<in>set (tl ps). name_of p \<noteq> []" "cur = [] \<or> (\<forall>p\<in>set ps. name_of p \<noteq> [])"
  shows "\<exists>t'. load_entries False old cur [] [] (save_sections nl s need (map fst ps)) t = (t', SI_OK) \<and>
    wf_ini t' \<and>
    ini_table t' = fold (\<lambda>p. fold (put_entry (m_bParseQuotes s) (name_of p)) (section_entries s (name_of p))) ps (ini_table t)"
  using assms(3-)
proof (induction ps arbitrary: t cur need)
  case Nil
  have "load_entries False old cur [] [] [] t = (t\<lparr>m_pData_set := True\<rparr>, SI_OK)"
    by (subst load_entries.simps) (simp add: FindEntry_end [OF refl])
  with Nil.prems(2) show ?case by (auto simp: wf_ini_def ini_table_def fun_eq_iff)
next
  case (Cons p ps)
  let ?r = "save_sections nl s True (map fst ps)"
  have p: "p \<in> set (m_data s)" and cur: "name_of p \<noteq> [] \<or> cur = []" using Cons.prems(1,5) by auto
  from load_section [OF assms(1) p assms(2) Cons.prems(2,3) cur, of old need ?r] obtain t1 where
    t1: "load_entries False old cur [] [] (save_section nl s need (fst p) @ ?r) t = load_entries False old (name_of p) [] [] ?r t1"
    "wf_ini t1" "same_flags s t1"
    "ini_table t1 = fold (put_entry (m_bParseQuotes s) (name_of p)) (section_entries s (name_of p)) (ini_table t)" by blast
  have rest: "\<forall>q\<in>set ps. name_of q \<noteq> []" using Cons.prems(4) by simp
  have "\<forall>q\<in>set (tl ps). name_of q \<noteq> []" using rest by (cases ps) auto
  with Cons.IH [OF _ t1(2,3) this, of "name_of p" True] Cons.prems(1) rest t1(1,4) show ?case by simp
qed

text \<open>Writing entries that agree with a table leaves the table's values under their names.\<close>

lemma fold_put_entries:
  assumes "\<forall>e\<in>set es. g (fold_key sec, fold_key (fst e)) = Some (snd e)"
  shows "fold (put_entry q sec) es m x =
    (if \<exists>e\<in>set es. x = (fold_key sec, fold_key (fst e)) then map_option (stored q) (g x) else m x)"
  using assms by (induction es arbitrary: m) (auto simp: put_entry_def)

lemma fold_put_sections:
  assumes "\<forall>p\<in>set ps. \<forall>e\<in>set (E p). g (fold_key (n p), fold_key (fst e)) = Some (snd e)"
  shows "fold (\<lambda>p. fold (put_entry q (n p)) (E p)) ps m x =
    (if \<exists>p\<in>set ps. \<exists>e\<in>set (E p). x = (fold_key (n p), fold_key (fst e)) then map_option (stored q) (g x) else m x)"
  using assms
proof (induction ps arbitrary: m)
  case (Cons p ps)
  from Cons.prems have "\<forall>e\<in>set (E p). g (fold_key (n p), fold_key (fst e)) = Some (snd e)" by simp
  note first = fold_put_entries [OF this, of q m x]
  from Cons show ?case by (auto simp: first)
qed simp

lemma pick_pairs: "set es \<subseteq> fst ` M \<Longrightarrow> \<exists>ps. map fst ps = es \<and> set ps \<subseteq> M"
proof (induction es)
  case (Cons e es)
  then obtain ps p where "map fst ps = es" "set ps \<subseteq> M" "p \<in> M" "fst p = e" by auto
  then show ?case by (intro exI [of _ "p # ps"]) simp
qed simp

lemma set_empty_first: "set (empty_first es) = set es"
proof -
  let ?b = "takeWhile (\<lambda>e. pItem e \<noteq> []) es" and ?r = "dropWhile (\<lambda>e. pItem e \<noteq> []) es"
  have "set es = set ?b \<union> set ?r" by (metis set_append takeWhile_dropWhile_id)
  then show ?thesis by (cases ?r) (auto simp: empty_first_def Let_def)
qed

lemma length_empty_first: "length (empty_first es) = length es"
proof -
  let ?b = "takeWhile (\<lambda>e. pItem e \<noteq> []) es" and ?r = "dropWhile (\<lambda>e. pItem e \<noteq> []) es"
  have "length es = length ?b + length ?r" by (metis length_append takeWhile_dropWhile_id)
  then show ?thesis by (cases ?r) (simp_all add: empty_first_def Let_def)
qed

lemma tl_empty_first:
  assumes "distinct (map pItem es)"
  shows "\<forall>e\<in>set (tl (empty_first es)). pItem e \<noteq> []"
proof -
  let ?b = "takeWhile (\<lambda>e. pItem e \<noteq> []) es" and ?r = "dropWhile (\<lambda>e. pItem e \<noteq> []) es"
  have es: "es = ?b @ ?r" by simp
  show ?thesis
  proof (cases ?r)
    case Nil
    then have "\<forall>e\<in>set es. pItem e \<noteq> []" by (simp add: dropWhile_eq_Nil_conv)
    with Nil show ?thesis by (cases es) (auto simp: empty_first_def)
  next
    case (Cons e r)
    then have "pItem e = []" using hd_dropWhile [of "\<lambda>e. pItem e \<noteq> []" es] by simp
    moreover have "distinct (map pItem (?b @ e # r))" using assms es Cons by metis
    ultimately have "\<forall>x\<in>set r. pItem x \<noteq> []" by (auto simp: image_iff)
    moreover have "\<forall>e\<in>set ?b. pItem e \<noteq> []" by (auto dest: set_takeWhileD)
    ultimately show ?thesis using Cons by (auto simp: empty_first_def)
  qed
qed

text \<open>The sections in the order they are written.\<close>

lemma written_sections:
  assumes "plain_ini s"
  shows "\<exists>ps. map fst ps = empty_first (by_load_order (GetAllSections s)) \<and> set ps = set (m_data s) \<and>
    (\<forall>p\<in>set (tl ps). name_of p \<noteq> [])"
proof -
  let ?L = "empty_first (by_load_order (GetAllSections s))"
  have L: "set ?L = fst ` set (m_data s)" by (simp add: set_empty_first by_load_order_def GetAllSections_def)
  then obtain ps where ps: "map fst ps = ?L" "set ps \<subseteq> set (m_data s)" using pick_pairs [of ?L "set (m_data s)"] by auto
  have u: "unique (m_data s)" using assms by (simp add: plain_ini_def wf_ini_def)
  have "p \<in> set ps" if p: "p \<in> set (m_data s)" for p
  proof -
    from p L ps(1) have "fst p \<in> set (map fst ps)" by simp
    then obtain p' where "p' \<in> set ps" "fst p' = fst p" by auto
    with ps(2) unique_same [OF u _ p, of p'] show ?thesis by auto
  qed
  with ps(2) have all: "set ps = set (m_data s)" by blast
  have "distinct (map pItem (map fst (m_data s)))"
    using unique_distinct [OF u] distinct_map [of fold_key "map name_of (m_data s)"] by (simp add: comp_def)
  then have "distinct (map pItem (by_load_order (GetAllSections s)))"
    by (auto simp: by_load_order_def GetAllSections_def distinct_map intro: inj_on_imageI inj_on_imageI2)
  from tl_empty_first [OF this] have "\<forall>e\<in>set (map fst (tl ps)). pItem e \<noteq> []" by (simp add: ps(1) map_tl)
  then have "\<forall>p\<in>set (tl ps). name_of p \<noteq> []" by simp
  with ps(1) all show ?thesis by blast
qed

text \<open>What the file holds carries no NUL and starts with no comment.\<close>

lemma text_kept:
  assumes "\<forall>p\<in>set ps. plain_section p \<and> set (section_entries s (name_of p)) \<subseteq> (\<lambda>q. (name_of q, snd q)) ` set (snd p) \<and>
      save_keys nl s (name_of p) = concat (map (entry_line nl s) (section_entries s (name_of p)))"
    and "new_line nl"
  shows "CHR 0x00 \<notin> set (save_sections nl s need (map fst ps)) \<and>
    (save_sections nl s need (map fst ps) = [] \<or> \<not> IsComment (hd (save_sections nl s need (map fst ps))))"
  using assms(1)
proof (induction ps arbitrary: need)
  case (Cons p ps)
  let ?r = "save_sections nl s True (map fst ps)" and ?es = "section_entries s (name_of p)"
  from Cons.prems have plain: "plain_section p" and es: "set ?es \<subseteq> (\<lambda>q. (name_of q, snd q)) ` set (snd p)"
    and keys: "save_keys nl s (name_of p) = concat (map (entry_line nl s) ?es)" by simp_all
  have entry: "entry_text e" if "e \<in> set ?es" for e
    using es that plain by (auto simp: plain_section_def plain_key_def)
  have nl: "CHR 0x00 \<notin> set nl" "nl \<noteq> []" "\<not> IsComment (hd nl)"
    using assms(2) by (auto simp: new_line_def LF_def CR_def IsComment_def)
  have sec: "save_section nl s need (fst p) = (if need then nl @ nl else []) @
      (if name_of p \<noteq> [] then ''['' @ name_of p @ '']'' @ nl else []) @ concat (map (entry_line nl s) ?es)"
    using plain keys by (simp add: save_section_def plain_section_def)
  have line: "CHR 0x00 \<notin> set (entry_line nl s e) \<and> entry_line nl s e \<noteq> [] \<and> \<not> IsComment (hd (entry_line nl s e))"
    if "e \<in> set ?es" for e
    using entry [OF that] nl(1) by (auto simp: entry_line_def entry_text_def key_text_def one_line_def save_value_def)
  have "CHR 0x00 \<notin> set (save_section nl s need (fst p))"
    using nl(1) line plain unfolding sec plain_section_def section_text_def one_line_def by auto
  moreover have "save_section nl s need (fst p) = [] \<or> \<not> IsComment (hd (save_section nl s need (fst p)))"
    using nl line unfolding sec by (cases ?es) auto
  moreover have "save_section nl s need (fst p) = [] \<Longrightarrow> save_sections nl s need (map fst (p # ps)) = ?r" by simp
  ultimately show ?case
    using Cons.IH [of True] Cons.prems by (cases "save_section nl s need (fst p)") auto
qed simp

subsection \<open>Settings put into a store\<close>

text \<open>How long a text may be so that no file of a few dozen settings reaches the limit of a gigabyte.\<close>

definition text_bound :: nat where
  "text_bound = 2 ^ 20"

definition setting_fits :: "string \<times> string \<Rightarrow> string \<Rightarrow> bool" where
  "setting_fits n v \<longleftrightarrow> section_text (fst n) \<and> key_text (snd n) \<and> one_line v \<and>
     length (fst n) \<le> text_bound \<and> length (snd n) \<le> text_bound \<and> length v \<le> text_bound"

text \<open>At most \<open>n\<close> sections of at most \<open>n\<close> entries, all of them short.\<close>

definition small_key :: "ini_entry \<times> string \<Rightarrow> bool" where
  "small_key q \<longleftrightarrow> length (name_of q) \<le> text_bound \<and> length (snd q) \<le> text_bound"

definition small_section :: "nat \<Rightarrow> ini_entry \<times> keyval \<Rightarrow> bool" where
  "small_section n p \<longleftrightarrow> length (name_of p) \<le> text_bound \<and> length (snd p) \<le> n \<and> (\<forall>q\<in>set (snd p). small_key q)"

definition small_ini :: "nat \<Rightarrow> ini \<Rightarrow> bool" where
  "small_ini n s \<longleftrightarrow> length (m_data s) \<le> n \<and> (\<forall>p\<in>set (m_data s). small_section n p)"

definition settings_ok :: "nat \<Rightarrow> ini \<Rightarrow> bool" where
  "settings_ok n s \<longleftrightarrow> plain_ini s \<and> small_ini n s \<and> m_bStoreIsUtf8 s"

definition put_setting :: "string \<times> string \<Rightarrow> string \<Rightarrow> ini \<Rightarrow> ini" where
  "put_setting n v s = fst (SetValue (fst n) (Some (snd n)) (Some v) None False s)"

definition get_setting :: "ini \<Rightarrow> string \<times> string \<Rightarrow> string option" where
  "get_setting s n = GetValue s (fst n) (snd n) None"

definition setting_key :: "string \<times> string \<Rightarrow> int list \<times> int list" where
  "setting_key n = (fold_key (fst n), fold_key (snd n))"

lemma setting_copyable: "setting_fits n v \<Longrightarrow> entry_copyable (fst n) (snd n) (Some v) None"
  by (simp add: setting_fits_def entry_copyable_def copyable_def text_bound_def SI_MAX_FILE_SIZE_def)

lemma length_insert [simp]: "length (insert_entry e v m) = Suc (length m)"
  by (induction m) (simp_all add: insert_entry_simps)

lemma length_assign [simp]: "length (assign_key k v m) = length m"
  by (induction m) (simp_all add: assign_key_simps)

definition good_keys :: "nat \<Rightarrow> keyval \<Rightarrow> bool" where
  "good_keys n kv \<longleftrightarrow> unique kv \<and> length kv \<le> n \<and> (\<forall>q\<in>set kv. plain_key q \<and> small_key q)"

lemma good_keys_mono: "good_keys n kv \<Longrightarrow> good_keys (Suc n) kv"
  by (simp add: good_keys_def)

lemma good_section:
  "plain_section p \<and> small_section n p \<longleftrightarrow>
    pComment (fst p) = None \<and> section_text (name_of p) \<and> length (name_of p) \<le> text_bound \<and> good_keys n (snd p)"
  by (auto simp: plain_section_def small_section_def good_keys_def)

lemma good_keys_put:
  assumes "good_keys n kv" "key_text k" "one_line v" "length k \<le> text_bound" "length v \<le> text_bound"
    and "new_key \<longleftrightarrow> table kv (fold_key k) = None"
  shows "good_keys (Suc n) (if new_key then insert_entry (Entry_new k None j) v kv else assign_key k v kv)"
proof (cases new_key)
  case True
  have "plain_key (Entry_new k None j, v) \<and> small_key (Entry_new k None j, v)"
    using assms(2-5) by (simp add: plain_key_def small_key_def entry_text_def Entry_new_def)
  with True assms(1,6) show ?thesis
    by (auto simp: good_keys_def keys_insert_set Entry_new_def intro!: unique_insert)
next
  case False
  have "unique (assign_key k v kv)"
    using assms(1) by (simp add: good_keys_def unique_def flip: map_map [of "\<lambda>e. fold_key (pItem e)" fst, unfolded comp_def])
  moreover have "plain_key q \<and> small_key q" if "q \<in> set (assign_key k v kv)" for q
    using set_assign [OF that] assms(1,3,5) by (auto simp: good_keys_def plain_key_def entry_text_def small_key_def)
  ultimately show ?thesis using False assms(1) by (simp add: good_keys_def)
qed

text \<open>An entry put under a name without repeated keys, as the change of one section.\<close>

lemma put_setting_data:
  assumes "wf_ini s" "\<not> m_bAllowMultiKey s" "setting_fits nm v" "t = with_section (fst nm) None s"
  shows "\<exists>e kv. (e, kv) \<in> set (m_data t) \<and>
    put_setting nm v s = t\<lparr>m_nOrder := Suc (m_nOrder t), m_data := assign_key (fst nm)
      (if table kv (fold_key (snd nm)) = None
       then insert_entry (Entry_new (snd nm) None (Suc (m_nOrder t))) v kv else assign_key (snd nm) v kv) (m_data t)\<rparr>"
proof -
  have t: "wf_ini t" unfolding assms(4) by (rule wf_with_section [OF assms(1)])
  have "table (m_data t) (fold_key (fst nm)) \<noteq> None"
    using with_section_table(2) [OF assms(1), of "fst nm" None]
    by (cases "SectionExists s (fst nm)") (auto simp: assms(4) SectionExists_def GetSection_table [OF assms(1)])
  then obtain kv where kv: "table (m_data t) (fold_key (fst nm)) = Some kv" by blast
  from table_in [OF kv] obtain e where e: "(e, kv) \<in> set (m_data t)" by auto
  have "ini_table s (fold_key (fst nm), fold_key (snd nm)) = table kv (fold_key (snd nm))"
    using kv by (simp add: ini_table_def flip: with_section_table(1) [OF assms(1), of "fst nm" None] assms(4))
  moreover have "GetSection (t\<lparr>m_nOrder := n\<rparr>) (fst nm) = Some kv" for n
    using GetSection_table [OF t] kv by (simp add: GetSection_def)
  ultimately have "put_setting nm v s = t\<lparr>m_nOrder := Suc (m_nOrder t), m_data := assign_key (fst nm)
      (if table kv (fold_key (snd nm)) = None
       then insert_entry (Entry_new (snd nm) None (Suc (m_nOrder t))) v kv else assign_key (snd nm) v kv) (m_data t)\<rparr>"
    using AddEntry_single [OF assms(2,1) impI [OF setting_copyable [OF assms(3)]], where force = False and copy = True]
    by (simp add: put_setting_def SetValue_def Let_def put_value_def flip: assms(4))
  with e show ?thesis by blast
qed

lemma put_setting_ok:
  assumes "settings_ok n s" "setting_fits nm v"
  shows "settings_ok (Suc n) (put_setting nm v s)"
proof -
  let ?t = "with_section (fst nm) None s"
  from assms(1) have plain: "plain_ini s" and small: "small_ini n s" and utf8: "m_bStoreIsUtf8 s"
    by (simp_all add: settings_ok_def)
  from plain have wf: "wf_ini s" and multi: "\<not> m_bAllowMultiKey s" by (simp_all add: plain_ini_def)
  have ok: "plain_section p \<and> small_section n p" if "p \<in> set (m_data ?t)" for p
  proof (cases "p \<in> set (m_data s)")
    case False
    with that have "p = (Entry_new (fst nm) None (Suc (m_nOrder s)), [])"
      by (auto simp: with_section_def keys_insert_set split: if_splits)
    with assms(2) show ?thesis by (simp add: good_section setting_fits_def Entry_new_def good_keys_def)
  qed (use plain small in \<open>simp add: plain_ini_def small_ini_def\<close>)
  from put_setting_data [OF wf multi assms(2) refl] obtain e kv where e: "(e, kv) \<in> set (m_data ?t)"
    and data: "put_setting nm v s = ?t\<lparr>m_nOrder := Suc (m_nOrder ?t), m_data := assign_key (fst nm)
      (if table kv (fold_key (snd nm)) = None
       then insert_entry (Entry_new (snd nm) None (Suc (m_nOrder ?t))) v kv else assign_key (snd nm) v kv) (m_data ?t)\<rparr>"
    by blast
  from ok [OF e] have "good_keys n kv" by (simp add: good_section)
  from good_keys_put [OF this _ _ _ _ refl] assms(2)
  have kv: "good_keys (Suc n) (if table kv (fold_key (snd nm)) = None
       then insert_entry (Entry_new (snd nm) None (Suc (m_nOrder ?t))) v kv else assign_key (snd nm) v kv)"
    by (simp add: setting_fits_def)
  have "plain_section p \<and> small_section (Suc n) p" if "p \<in> set (m_data (put_setting nm v s))" for p
  proof -
    from that data consider "p \<in> set (m_data ?t)"
      | p' where "p' \<in> set (m_data ?t)" "p = (fst p', if table kv (fold_key (snd nm)) = None
         then insert_entry (Entry_new (snd nm) None (Suc (m_nOrder ?t))) v kv else assign_key (snd nm) v kv)"
      by (auto dest!: set_assign)
    then show ?thesis
      by cases (use ok kv good_keys_mono in \<open>simp_all add: good_section\<close>)
  qed
  moreover have "wf_ini (put_setting nm v s)" unfolding put_setting_def SetValue_def by (rule wf_ini_add [OF wf])
  moreover have "length (m_data (put_setting nm v s)) \<le> Suc n"
    using small by (simp add: data small_ini_def with_section_def)
  ultimately show ?thesis
    using plain utf8 by (simp add: settings_ok_def plain_ini_def small_ini_def data)
qed

lemma put_setting_flags:
  assumes "settings_ok n s" "setting_fits nm v"
  shows "m_bParseQuotes (put_setting nm v s) = m_bParseQuotes s" "m_bAllowKeyOnly (put_setting nm v s) = m_bAllowKeyOnly s"
proof -
  from assms(1) have wf: "wf_ini s" "\<not> m_bAllowMultiKey s" by (simp_all add: settings_ok_def plain_ini_def)
  from put_setting_data [OF wf assms(2) refl] show
    "m_bParseQuotes (put_setting nm v s) = m_bParseQuotes s" "m_bAllowKeyOnly (put_setting nm v s) = m_bAllowKeyOnly s"
    by auto
qed

lemma get_put_setting:
  assumes "settings_ok n s" "setting_fits nm v"
  shows "get_setting (put_setting nm v s) nm' =
    (if setting_key nm' = setting_key nm then Some v else get_setting s nm')"
proof -
  from assms(1) have wf: "wf_ini s" "\<not> m_bAllowMultiKey s" by (simp_all add: settings_ok_def plain_ini_def)
  have "wf_ini (put_setting nm v s)" unfolding put_setting_def SetValue_def by (rule wf_ini_add [OF wf(1)])
  with AddEntry_table [OF wf(2,1) impI [OF setting_copyable [OF assms(2)]], where force = False and copy = True]
  show ?thesis
    by (simp add: get_setting_def setting_key_def GetValue_table wf(1) put_setting_def SetValue_def split: option.split)
qed

subsection \<open>Interface: settings under names\<close>

text \<open>
  What the configuration relies on: a setting put under a name is found under every name with the same key
  and no other setting changes. \<open>ok n\<close> is the provider's invariant after \<open>n\<close> settings.
\<close>

locale settings_store =
  fixes get :: "'s \<Rightarrow> 'n \<Rightarrow> 'v option"
    and put :: "'n \<Rightarrow> 'v \<Rightarrow> 's \<Rightarrow> 's"
    and key :: "'n \<Rightarrow> 'k"
    and ok :: "nat \<Rightarrow> 's \<Rightarrow> bool"
    and fits :: "'n \<Rightarrow> 'v \<Rightarrow> bool"
  assumes ok_put: "ok n s \<Longrightarrow> fits nm v \<Longrightarrow> ok (Suc n) (put nm v s)"
    and get_put: "ok n s \<Longrightarrow> fits nm v \<Longrightarrow> get (put nm v s) nm' = (if key nm' = key nm then Some v else get s nm')"
begin

definition puts :: "('n \<times> 'v) list \<Rightarrow> 's \<Rightarrow> 's" where
  "puts es s = fold (\<lambda>e. put (fst e) (snd e)) es s"

definition all_fit :: "('n \<times> 'v) list \<Rightarrow> bool" where
  "all_fit es \<longleftrightarrow> (\<forall>e\<in>set es. fits (fst e) (snd e))"

lemma ok_puts: "ok n s \<Longrightarrow> all_fit es \<Longrightarrow> ok (n + length es) (puts es s)"
proof (induction es arbitrary: n s)
  case (Cons e es)
  from Cons.IH [OF ok_put [OF Cons.prems(1), of "fst e" "snd e"]] Cons.prems(2) show ?case
    by (simp add: puts_def all_fit_def)
qed (simp add: puts_def)

lemma get_others: "ok n s \<Longrightarrow> all_fit es \<Longrightarrow> key nm \<notin> key ` fst ` set es \<Longrightarrow> get (puts es s) nm = get s nm"
proof (induction es arbitrary: n s)
  case (Cons e es)
  from Cons.prems(2,3) have e: "fits (fst e) (snd e)" "key nm \<noteq> key (fst e)" by (auto simp: all_fit_def)
  from Cons.IH [OF ok_put [OF Cons.prems(1) e(1)]] get_put [OF Cons.prems(1) e(1), of nm] e(2) Cons.prems(2,3)
  show ?case by (simp add: puts_def all_fit_def)
qed (simp add: puts_def)

lemma get_puts:
  "ok n s \<Longrightarrow> all_fit es \<Longrightarrow> distinct (map (\<lambda>e. key (fst e)) es) \<Longrightarrow>
    list_all (\<lambda>e. get (puts es s) (fst e) = Some (snd e)) es"
proof (induction es arbitrary: n s)
  case (Cons e es)
  from Cons.prems(2) have e: "fits (fst e) (snd e)" "all_fit es" by (simp_all add: all_fit_def)
  note ok1 = ok_put [OF Cons.prems(1) e(1)]
  from Cons.prems(3) have "key (fst e) \<notin> key ` fst ` set es" by (auto simp: image_image)
  from get_others [OF ok1 e(2) this] get_put [OF Cons.prems(1) e(1), of "fst e"]
  have "get (puts (e # es) s) (fst e) = Some (snd e)" by (simp add: puts_def)
  with Cons.IH [OF ok1 e(2)] Cons.prems(3) show ?case by (simp add: puts_def)
qed simp

end

interpretation ini: settings_store get_setting put_setting setting_key settings_ok setting_fits
  by unfold_locales (simp_all add: put_setting_ok get_put_setting)

subsection \<open>The size of the file\<close>

lemma length_concat_le: "\<forall>x\<in>set xs. length x \<le> b \<Longrightarrow> length (concat xs) \<le> length xs * b"
  by (induction xs) auto

lemma length_entry_line:
  assumes "length nl \<le> 2" "length (fst e) \<le> text_bound" "length (snd e) \<le> text_bound"
  shows "length (entry_line nl s e) \<le> 2 * text_bound + 7"
  using assms by (simp add: entry_line_def save_value_def)

lemma length_save_section:
  assumes "plain_ini s" "small_ini n s" "p \<in> set (m_data s)" "new_line nl"
  shows "length (save_section nl s need (fst p)) \<le> 8 + text_bound + n * (2 * text_bound + 7)"
proof -
  have nl: "length nl \<le> 2" using assms(4) by (auto simp: new_line_def)
  from assms(2,3) have p: "length (name_of p) \<le> text_bound" "length (snd p) \<le> n" "\<forall>q\<in>set (snd p). small_key q"
    by (simp_all add: small_ini_def small_section_def)
  let ?es = "section_entries s (name_of p)"
  have "length (entry_line nl s e) \<le> 2 * text_bound + 7" if "e \<in> set ?es" for e
    using that p(3) nl by (intro length_entry_line) (auto simp: section_entries_table [OF assms(1,3)] small_key_def)
  then have "length (concat (map (entry_line nl s) ?es)) \<le> length (map (entry_line nl s) ?es) * (2 * text_bound + 7)"
    by (intro length_concat_le) simp
  also have "length (map (entry_line nl s) ?es) \<le> n"
    using p(2) plain_iniD [OF assms(1,3)] first_keys_unique [of "snd p" None]
    by (simp add: section_entries_def by_load_order_def GetAllKeys_def plain_section_def)
  finally have "length (save_keys nl s (name_of p)) \<le> n * (2 * text_bound + 7)"
    by (simp add: save_keys_lines(1) [OF assms(1,3)])
  then show ?thesis
    using plain_iniD(2) [OF assms(1,3)] p(1) nl
    by (cases "name_of p = []") (simp_all add: save_section_def plain_section_def)
qed

lemma length_save_sections:
  "\<forall>e\<in>set es. \<forall>need. length (save_section nl s need e) \<le> b \<Longrightarrow> length (save_sections nl s need es) \<le> length es * b"
  by (induction es arbitrary: need) (simp, simp, meson add_le_mono)

lemma length_Save:
  assumes "settings_ok n s" "new_line nl"
  shows "length (Save nl True s) \<le> 3 + n * (8 + text_bound + n * (2 * text_bound + 7))"
proof -
  from assms(1) have ok: "plain_ini s" "small_ini n s" by (simp_all add: settings_ok_def)
  let ?L = "empty_first (by_load_order (GetAllSections s))"
  have "length (save_section nl s need e) \<le> 8 + text_bound + n * (2 * text_bound + 7)" if "e \<in> set ?L" for e need
    using that length_save_section [OF ok _ assms(2)] by (auto simp: set_empty_first by_load_order_def GetAllSections_def)
  then have "length (save_sections nl s False ?L) \<le> length ?L * (8 + text_bound + n * (2 * text_bound + 7))"
    by (intro length_save_sections) blast
  also have "length ?L = length (m_data s)"
    by (simp add: length_empty_first by_load_order_def GetAllSections_def)
  also have "length (m_data s) * (8 + text_bound + n * (2 * text_bound + 7)) \<le> n * (8 + text_bound + n * (2 * text_bound + 7))"
    using ok(2) by (intro mult_le_mono1) (simp add: small_ini_def)
  finally show ?thesis using ok(1) by (simp add: Save_def plain_ini_def SI_UTF8_SIGNATURE_def)
qed

lemma Save_fits: "settings_ok n s \<Longrightarrow> n \<le> 20 \<Longrightarrow> new_line nl \<Longrightarrow> length (Save nl True s) < SI_MAX_FILE_SIZE"
proof -
  assume *: "settings_ok n s" "n \<le> 20" "new_line nl"
  have "n * (8 + text_bound + n * (2 * text_bound + 7)) \<le> 20 * (8 + text_bound + 20 * (2 * text_bound + 7))"
    using *(2) by (intro mult_le_mono add_le_mono) simp_all
  with length_Save [OF *(1,3)] show ?thesis by (simp add: text_bound_def SI_MAX_FILE_SIZE_def)
qed

subsection \<open>Saved and loaded again\<close>

lemma ini_file_parts:
  assumes "plain_ini s" "m_bStoreIsUtf8 s" "new_line nl" "length (Save nl True s) < SI_MAX_FILE_SIZE"
    and "t = SetUnicode u (SimpleIni_new\<lparr>m_bParseQuotes := m_bParseQuotes s, m_bAllowKeyOnly := m_bAllowKeyOnly s\<rparr>)"
  shows "\<exists>text s'. SaveFile nl True s = (SI_OK, Some text) \<and> LoadFile (Holds text) t = (s', SI_OK) \<and> wf_ini s' \<and>
    (\<forall>sec key d. GetValue s' sec key d =
      (case GetValue s sec key None of None \<Rightarrow> d | Some v \<Rightarrow> Some (stored (m_bParseQuotes s) v)))"
proof -
  from written_sections [OF assms(1)] obtain ps where ps:
    "map fst ps = empty_first (by_load_order (GetAllSections s))" "set ps = set (m_data s)"
    "\<forall>p\<in>set (tl ps). name_of p \<noteq> []" by blast
  let ?body = "save_sections nl s False (map fst ps)" and ?t = "SetUnicode True t"
  have save: "Save nl True s = SI_UTF8_SIGNATURE @ ?body"
    using assms(1,2) by (simp add: Save_def ps(1) plain_ini_def)
  have wf: "wf_ini ?t" "same_flags s ?t" "m_pFileComment ?t = None" "\<not> m_pData_set ?t" "ini_table ?t = Map.empty"
    using assms(1) by (simp_all add: assms(5) SetUnicode_def SimpleIni_new_def wf_ini_def same_flags_def plain_ini_def
        ini_table_def fun_eq_iff)
  from load_sections [OF assms(1,3) _ wf(1,2) ps(3), of "[]" None False] ps(2) obtain s' where
    s': "load_entries False None [] [] [] ?body ?t = (s', SI_OK)" "wf_ini s'"
    "ini_table s' = fold (\<lambda>p. fold (put_entry (m_bParseQuotes s) (name_of p)) (section_entries s (name_of p))) ps Map.empty"
    by (auto simp: wf(5))
  have "\<forall>p\<in>set ps. \<forall>e\<in>set (section_entries s (name_of p)). ini_table s (fold_key (name_of p), fold_key (fst e)) = Some (snd e)"
    using ini_entry_table [OF assms(1)] by (simp add: ps(2))
  note tab = fold_put_sections [OF this, where q = "m_bParseQuotes s" and m = Map.empty, folded s'(3)]
  have lookup: "ini_table s' x = map_option (stored (m_bParseQuotes s)) (ini_table s x)" for x
    using tab [of x] ini_table_entry [OF assms(1), of x] ps(2) by (cases "ini_table s x") auto
  have ws: "wf_ini s" using assms(1) by (simp add: plain_ini_def)
  have got: "GetValue s' sec key d =
      (case GetValue s sec key None of None \<Rightarrow> d | Some v \<Rightarrow> Some (stored (m_bParseQuotes s) v))" for sec key d
    by (simp add: GetValue_table [OF s'(2)] GetValue_table [OF ws] lookup split: option.split)
  have "\<forall>p\<in>set ps. plain_section p \<and> set (section_entries s (name_of p)) \<subseteq> (\<lambda>q. (name_of q, snd q)) ` set (snd p) \<and>
      save_keys nl s (name_of p) = concat (map (entry_line nl s) (section_entries s (name_of p)))"
    using plain_iniD(2) [OF assms(1)] section_entries_table [OF assms(1)] save_keys_lines(1) [OF assms(1)] by (simp add: ps(2))
  note kept = text_kept [OF this assms(3), of False]
  then have c: "c_str ?body = ?body" by (auto simp: c_str_def takeWhile_eq_all_conv)
  have comment: "FindFileComment False ?body ?t = (?t, Some ?body)"
    using kept wf(3) by (auto simp: FindFileComment_def load_comment_def)
  have "LoadFile (Holds (Save nl True s)) t = (s', SI_OK) \<or> ?body = [] \<and> LoadFile (Holds (Save nl True s)) t = (?t, SI_OK)"
    using assms(4) wf(3,4) c comment s'(1)
    by (simp add: LoadFile_def LoadData_def save SI_UTF8_SIGNATURE_def Let_def)
  moreover have "s' = ?t\<lparr>m_pData_set := True\<rparr>" if "?body = []"
    using s'(1) that by (subst (asm) load_entries.simps) (simp add: FindEntry_end [OF refl])
  then have "GetValue ?t = GetValue s'" "wf_ini ?t" if "?body = []"
    using that wf(1) by (simp_all add: GetValue_def GetSection_def fun_eq_iff)
  ultimately show ?thesis using got s'(2) by (auto simp: SaveFile_def)
qed

subsection \<open>Properties\<close>

text \<open>C10: A settings file gives back what was saved, up to the white space at the ends of a value when quotes are
off: for a store without comments and repeated keys whose names and values fit a line (\<open>plain_ini\<close>), saving
succeeds, loading the text into a fresh object with the same settings succeeds, and under every section and
key it finds the very value that was saved when quotes are on or the value has no white space at its ends,
and otherwise (the programs leave quotes off) the value without that white space; what was not saved is not
found. The order of the sections and keys does not matter, nor does the kind of new line.\<close>
theorem ini_file_roundtrip:
  assumes "plain_ini s" "m_bStoreIsUtf8 s" "new_line nl" "length (Save nl True s) < SI_MAX_FILE_SIZE"
    and "t = SetUnicode u (SimpleIni_new\<lparr>m_bParseQuotes := m_bParseQuotes s, m_bAllowKeyOnly := m_bAllowKeyOnly s\<rparr>)"
  shows "\<exists>text s'. SaveFile nl True s = (SI_OK, Some text) \<and> LoadFile (Holds text) t = (s', SI_OK) \<and> wf_ini s' \<and>
    (\<forall>sec key v d. GetValue s sec key None = Some v \<longrightarrow>
      (m_bParseQuotes s \<or> trim v = v \<longrightarrow> GetValue s' sec key d = Some v) \<and>
      (\<not> m_bParseQuotes s \<longrightarrow> GetValue s' sec key d = Some (trim v))) \<and>
    (\<forall>sec key d. GetValue s sec key None = None \<longrightarrow> GetValue s' sec key d = d)"
proof -
  from ini_file_parts [OF assms] obtain out s' where "SaveFile nl True s = (SI_OK, Some out)"
    "LoadFile (Holds out) t = (s', SI_OK)" "wf_ini s'"
    "\<forall>sec key d. GetValue s' sec key d =
      (case GetValue s sec key None of None \<Rightarrow> d | Some v \<Rightarrow> Some (stored (m_bParseQuotes s) v))" by blast
  then show ?thesis by (auto simp: stored_def)
qed

lemma settings_ok_fresh: "settings_ok 0 (SetUnicode True SimpleIni_new)"
  by (simp add: settings_ok_def plain_ini_def small_ini_def SetUnicode_def SimpleIni_new_def wf_ini_def)

theorem ini_file_roundtrip_witness:
  "\<exists>text s'. SaveFile [CR, LF] True (put_setting (''server'', ''password'') ''a b'' (SetUnicode True SimpleIni_new)) =
      (SI_OK, Some text) \<and>
    LoadFile (Holds text) SimpleIni_new = (s', SI_OK) \<and> GetValue s' ''SERVER'' ''Password'' None = Some ''a b''"
proof -
  let ?s = "put_setting (''server'', ''password'') ''a b'' (SetUnicode True SimpleIni_new)"
  have fits: "setting_fits (''server'', ''password'') ''a b''"
    by (simp add: setting_fits_def section_text_def key_text_def one_line_def trimmed_def text_bound_def IsSpace_def
        IsNewLineChar_def IsComment_def LF_def CR_def TAB_def)
  from put_setting_ok [OF settings_ok_fresh fits] have ok: "settings_ok 1 ?s" by simp
  have nl: "new_line [CR, LF]" by (simp add: new_line_def)
  have flags: "\<not> m_bParseQuotes ?s" "\<not> m_bAllowKeyOnly ?s"
    using put_setting_flags [OF settings_ok_fresh fits] by (simp_all add: SetUnicode_def SimpleIni_new_def)
  then have t: "SimpleIni_new =
      SetUnicode False (SimpleIni_new\<lparr>m_bParseQuotes := m_bParseQuotes ?s, m_bAllowKeyOnly := m_bAllowKeyOnly ?s\<rparr>)"
    by (simp add: SimpleIni_new_def SetUnicode_def)
  have "setting_key (''SERVER'', ''Password'') = setting_key (''server'', ''password'')"
    by (simp add: setting_key_def fold_key_eq locase_range char_of_def bit_iff_odd)
  with get_put_setting [OF settings_ok_fresh fits, of "(''SERVER'', ''Password'')"]
  have "GetValue ?s ''SERVER'' ''Password'' None = Some ''a b''" by (simp add: get_setting_def)
  moreover have "trim ''a b'' = ''a b''"
    by (simp add: trim_def trim_right_def IsSpace_def TAB_def LF_def CR_def)
  moreover have "plain_ini ?s" "m_bStoreIsUtf8 ?s" using ok by (simp_all add: settings_ok_def)
  note ini_file_roundtrip [OF this nl Save_fits [OF ok _ nl] t]
  ultimately show ?thesis by fastforce
qed

text \<open>
  A section header without its closing bracket is not skipped: the entries behind it go to a section
  named by the header and everything up to the end of the first key.
\<close>

lemma unclosed_header_runs_on:
  assumes "key_text k" "one_line n" "CHR '']'' \<notin> set n" "n \<noteq> []" "\<not> IsSpace (hd n)"
  shows "\<exists>e r. FindEntry s sec com (''['' @ n @ [LF] @ k @ ''='' @ v) = Some (e, r) \<and>
    fe_section e = n @ [LF] @ k \<and> fe_key e = Some k"
proof -
  let ?P = "\<lambda>c. c \<noteq> CHR '']'' \<and> \<not> IsNewLineChar c" and ?Q = "\<lambda>c. c \<noteq> CHR ''='' \<and> \<not> IsNewLineChar c"
  have n: "\<forall>c\<in>set n. ?P c" using assms(2,3) unfolding one_line_def by metis
  have bracket: "LF \<noteq> CHR '']''" by (simp add: LF_def)
  have "dropWhile IsSpace (n @ LF # k @ ''='' @ v) = n @ LF # k @ ''='' @ v" using assms(4,5) by (cases n) simp_all
  moreover have "dropWhile IsSpace (''['' @ n @ [LF] @ k @ ''='' @ v) = ''['' @ n @ [LF] @ k @ ''='' @ v" by simp
  ultimately have turn: "FindEntry s sec com (''['' @ n @ [LF] @ k @ ''='' @ v) = FindEntry s (Running n) com (LF # k @ ''='' @ v)"
    using split_at [of n ?P LF "k @ ''='' @ v"] n bracket FindEntry_header [OF _ _ _ refl refl refl, of "''['' @ n @ [LF] @ k @ ''='' @ v" _ s sec com]
    by (simp add: at_def)
  from assms(1) have k: "k \<noteq> []" "\<not> IsSpace (hd k)" "\<not> IsComment (hd k)" "hd k \<noteq> CHR ''[''" "trim_right k = k"
    using trim_right_id [of k] unfolding key_text_def trimmed_def by blast+
  from assms(1) have "\<forall>c\<in>set k. ?Q c" unfolding key_text_def one_line_def by metis
  note split = split_at [OF this, of "CHR ''=''" v]
  from k(1,2) have d: "dropWhile IsSpace (LF # k @ ''='' @ v) = k @ ''='' @ v" "takeWhile IsSpace (LF # k @ ''='' @ v) = [LF]"
    "takeWhile IsSpace (k @ ''='' @ v) = []"
    by (cases k; simp)+
  have "k @ ''='' @ v \<noteq> []" "hd (k @ ''='' @ v) = hd k" using k(1) by simp_all
  from FindEntry_entry [OF d(1) this(1), unfolded this(2), OF k(3,4) refl refl refl refl, of s "Running n" com] split k(1,5)
  show ?thesis using turn d(3) by (simp add: at_def Let_def)
qed

end
