(* ===== verification/Configuration.thy ===== *)
theory Configuration
  imports IniFile HttpMessage
begin

text \<open>
  The settings of both programs: \<open>Src/client/include/client_config.h\<close> and
  \<open>Src/server/include/server_config.h\<close>, with the number and truth value getters and setters of
  \<open>Src/common/include/SimpleIni.h\<close> over the store of \<open>IniStore\<close> and the files of \<open>IniText\<close>.

  What the file system holds under the path is an argument. \<open>long\<close> has \<open>lb\<close> bits: 64 on Linux, 32 on
  Windows; \<open>nl\<close> is the file's new line.
\<close>

subsection \<open>Getters and setters\<close>

text \<open>\<open>GetValue\<close> with a default that is no null pointer, assigned to a \<open>std::string\<close>.\<close>

definition text_value :: "ini \<Rightarrow> string \<Rightarrow> string \<Rightarrow> string \<Rightarrow> string" where
  "text_value s sec key dflt = (case GetValue s sec key (Some dflt) of None \<Rightarrow> [] | Some v \<Rightarrow> v)"

text \<open>\<open>SetValue\<close> of a \<open>std::string\<close>'s \<open>c_str()\<close>.\<close>

definition SetText :: "string \<Rightarrow> string \<Rightarrow> string \<Rightarrow> ini \<Rightarrow> ini" where
  "SetText sec key v s = fst (SetValue sec (Some key) (Some (c_str v)) None False s)"

text \<open>
  \<open>strtol\<close>: the number and the text after it, \<open>None\<close> for one that is no \<open>long\<close>. Without a digit it
  returns 0 and the whole text.
\<close>

definition is_radix_digit :: "nat \<Rightarrow> char \<Rightarrow> bool" where
  "is_radix_digit b c \<longleftrightarrow> (case digit_val c of None \<Rightarrow> False | Some d \<Rightarrow> d < b)"

definition hex_mark :: "char \<Rightarrow> bool" where
  "hex_mark c \<longleftrightarrow> c = CHR ''x'' \<or> c = CHR ''X''"

definition skip_hex_prefix :: "nat \<Rightarrow> string \<Rightarrow> string" where
  "skip_hex_prefix b u =
     (if b = 16 \<and> 2 < length u \<and> u ! 0 = CHR ''0'' \<and> hex_mark (u ! 1) \<and> is_radix_digit 16 (u ! 2)
      then drop 2 u else u)"

definition strtol :: "nat \<Rightarrow> nat \<Rightarrow> string \<Rightarrow> (int \<times> string) option" where
  "strtol lb b s =
     (let t = dropWhile is_space s;
          neg = (t \<noteq> [] \<and> hd t = CHR ''-'');
          u = skip_hex_prefix b (if t \<noteq> [] \<and> (hd t = CHR ''-'' \<or> hd t = CHR ''+'') then tl t else t);
          ds = takeWhile (is_radix_digit b) u;
          n = int (radix_value b ds);
          v = (if neg then - n else n)
      in if ds = [] then Some (0, s)
         else if v < - (2 ^ (lb - 1)) \<or> 2 ^ (lb - 1) \<le> v then None
         else Some (v, dropWhile (is_radix_digit b) u))"

text \<open>A value of 64 characters or more does not fit the buffer and counts as absent.\<close>

definition long_value :: "nat \<Rightarrow> string \<Rightarrow> int \<Rightarrow> int" where
  "long_value lb v dflt =
     (if v = [] then dflt
      else if 64 < length v + 1 then dflt
      else if 1 < length v \<and> v ! 0 = CHR ''0'' \<and> hex_mark (v ! 1) \<and> length v = 2 then dflt
      else case (if 1 < length v \<and> v ! 0 = CHR ''0'' \<and> hex_mark (v ! 1)
                 then strtol lb 16 (drop 2 v) else strtol lb 10 v) of
             None \<Rightarrow> dflt
           | Some (n, rest) \<Rightarrow> if rest \<noteq> [] then dflt else n)"

definition GetLongValue :: "nat \<Rightarrow> ini \<Rightarrow> string \<Rightarrow> string \<Rightarrow> int \<Rightarrow> int" where
  "GetLongValue lb s sec key dflt =
     (case GetValue s sec key None of None \<Rightarrow> dflt | Some v \<Rightarrow> long_value lb v dflt)"

text \<open>\<open>%ld\<close> of the argument converted to \<open>long\<close>.\<close>

definition long_text :: "nat \<Rightarrow> int \<Rightarrow> string" where
  "long_text lb n =
     (let v = signed_take_bit (lb - 1) n in
      if v < 0 then ''-'' @ dec_string (nat (- v)) else dec_string (nat v))"

definition SetLongValue :: "nat \<Rightarrow> string \<Rightarrow> string \<Rightarrow> int \<Rightarrow> ini \<Rightarrow> ini" where
  "SetLongValue lb sec key n s = fst (AddEntry sec (Some key) (Some (long_text lb n)) None False True s)"

definition GetBoolValue :: "ini \<Rightarrow> string \<Rightarrow> string \<Rightarrow> bool \<Rightarrow> bool" where
  "GetBoolValue s sec key dflt =
     (case GetValue s sec key None of None \<Rightarrow> dflt
      | Some v \<Rightarrow>
          if v = [] then dflt
          else if hd v \<in> set ''tTyY1'' then True
          else if hd v \<in> set ''fFnN0'' then False
          else if hd v \<in> set ''oO'' \<and> 1 < length v \<and> v ! 1 \<in> set ''nN'' then True
          else if hd v \<in> set ''oO'' \<and> 1 < length v \<and> v ! 1 \<in> set ''fF'' then False
          else dflt)"

definition SetBoolValue :: "string \<Rightarrow> string \<Rightarrow> bool \<Rightarrow> ini \<Rightarrow> ini" where
  "SetBoolValue sec key b s =
     fst (AddEntry sec (Some key) (Some (if b then ''true'' else ''false'')) None False True s)"

text \<open>What is under the path: no file (and whether the new one can be opened for writing), or a file.\<close>

datatype config_file = Missing bool | Present file_read

text \<open>The object both functions start with.\<close>

definition config_ini :: ini where
  "config_ini = SetUnicode True SimpleIni_new"

subsection \<open>The client's settings\<close>

text \<open>The two \<open>int16_t\<close> members are words whose signed value is meant.\<close>

record client_config =
  stun_ip :: string
  stun_port :: u16
  ws_server_ip :: string
  ws_max_message_size :: u32
  ws_connection_timeout :: u16
  ws_enable_tls :: bool
  ws_disable_tls_verification :: bool
  ws_max_outstanding_pings :: u16
  ws_ping_interval :: u16
  ws_ca_certificate_pem_file :: string
  ws_key_pem_file :: string
  ws_key_pem_pass :: string
  ws_certificate_pem_file :: string
  ws_proxy_server :: string
  ws_protocols :: string
  socks5_bind_ip :: string
  socks5_bind_port :: u16
  cc_server_password :: string
  asio_thread_count :: u16

definition ClientConfig_new :: client_config where
  "ClientConfig_new =
     \<lparr>stun_ip = ''stun.miwifi.com'', stun_port = 3478, ws_server_ip = ''ws://127.0.0.1:80'',
      ws_max_message_size = 1024 * 1024, ws_connection_timeout = 3000, ws_enable_tls = False,
      ws_disable_tls_verification = False, ws_max_outstanding_pings = 100, ws_ping_interval = 3000,
      ws_ca_certificate_pem_file = [], ws_key_pem_file = [], ws_key_pem_pass = [],
      ws_certificate_pem_file = [], ws_proxy_server = [], ws_protocols = [],
      socks5_bind_ip = ''0.0.0.0'', socks5_bind_port = 10801, cc_server_password = [], asio_thread_count = 4\<rparr>"

text \<open>The setters of the default file, in the order of the code.\<close>

definition client_defaults :: "nat \<Rightarrow> client_config \<Rightarrow> (ini \<Rightarrow> ini) list" where
  "client_defaults lb c =
     [SetText ''stun'' ''ip'' (stun_ip c),
      SetLongValue lb ''stun'' ''port'' (uint (stun_port c)),
      SetText ''websocket'' ''server_ip'' (ws_server_ip c),
      SetLongValue lb ''websocket'' ''max_message_size'' (uint (ws_max_message_size c)),
      SetLongValue lb ''websocket'' ''connection_timeout'' (uint (ws_connection_timeout c)),
      SetBoolValue ''websocket'' ''enable_tls'' (ws_enable_tls c),
      SetBoolValue ''websocket'' ''disable_tls_verification'' (ws_disable_tls_verification c),
      SetLongValue lb ''websocket'' ''max_outstanding_pings'' (uint (ws_max_outstanding_pings c)),
      SetLongValue lb ''websocket'' ''ping_interval'' (uint (ws_ping_interval c)),
      SetText ''websocket'' ''ca_certificate_pem_file'' (ws_ca_certificate_pem_file c),
      SetText ''websocket'' ''certificate_pem_file'' (ws_certificate_pem_file c),
      SetText ''websocket'' ''key_pem_file'' (ws_key_pem_file c),
      SetText ''websocket'' ''key_pem_pass'' (ws_key_pem_pass c),
      SetText ''websocket'' ''proxy_server'' (ws_proxy_server c),
      SetText ''websocket'' ''protocols'' (ws_protocols c),
      SetText ''socks5'' ''bind_ip'' (socks5_bind_ip c),
      SetLongValue lb ''socks5'' ''bind_port'' (sint (socks5_bind_port c)),
      SetText ''server'' ''password'' (cc_server_password c),
      SetLongValue lb ''server'' ''asio_thread_count'' (sint (asio_thread_count c))]"

text \<open>\<open>static_cast<int>\<close> and the conversion to the member's type.\<close>

definition as_int :: "int \<Rightarrow> int" where
  "as_int n = signed_take_bit 31 n"

definition client_fields :: "nat \<Rightarrow> ini \<Rightarrow> client_config" where
  "client_fields lb s =
     \<lparr>stun_ip = text_value s ''stun'' ''ip'' ''stun.miwifi.com'',
      stun_port = word_of_int (as_int (GetLongValue lb s ''stun'' ''port'' 3478)),
      ws_server_ip = text_value s ''websocket'' ''server_ip'' ''ws://127.0.0.1:80'',
      ws_max_message_size = word_of_int (as_int (GetLongValue lb s ''websocket'' ''max_message_size'' (1024 * 1024))),
      ws_connection_timeout = word_of_int (as_int (GetLongValue lb s ''websocket'' ''connection_timeout'' 3000)),
      ws_enable_tls = GetBoolValue s ''websocket'' ''enable_tls'' False,
      ws_disable_tls_verification = GetBoolValue s ''websocket'' ''disable_tls_verification'' False,
      ws_max_outstanding_pings = word_of_int (as_int (GetLongValue lb s ''websocket'' ''max_outstanding_pings'' 100)),
      ws_ping_interval = word_of_int (as_int (GetLongValue lb s ''websocket'' ''ping_interval'' 3000)),
      ws_ca_certificate_pem_file = text_value s ''websocket'' ''ca_certificate_pem_file'' [],
      ws_key_pem_file = text_value s ''websocket'' ''key_pem_file'' [],
      ws_key_pem_pass = text_value s ''websocket'' ''key_pem_pass'' [],
      ws_certificate_pem_file = text_value s ''websocket'' ''certificate_pem_file'' [],
      ws_proxy_server = text_value s ''websocket'' ''proxy_server'' [],
      ws_protocols = text_value s ''websocket'' ''protocols'' [],
      socks5_bind_ip = text_value s ''socks5'' ''bind_ip'' ''0.0.0.0'',
      socks5_bind_port = word_of_int (as_int (GetLongValue lb s ''socks5'' ''bind_port'' 10801)),
      cc_server_password = text_value s ''server'' ''password'' [],
      asio_thread_count = word_of_int (as_int (GetLongValue lb s ''server'' ''asio_thread_count'' 4))\<rparr>"

text \<open>
  The settings afterwards and the file written, if any: its path and what it holds. Without a file the
  defaults are saved under \<open>config.ini\<close> in the working directory, whatever path was looked for.
\<close>

definition readClientConfig ::
  "nat \<Rightarrow> string \<Rightarrow> config_file \<Rightarrow> string \<Rightarrow> client_config \<Rightarrow> client_config \<times> (string \<times> string) option" where
  "readClientConfig lb nl file exec_dir c =
     (case file of
        Missing opened \<Rightarrow>
          (let s = fold (\<lambda>f. f) (client_defaults lb c) config_ini in
           case SaveFile nl opened s of
             (SI_OK, written) \<Rightarrow> (client_fields lb s, map_option (Pair ''config.ini'') written)
           | (_, written) \<Rightarrow> (c, map_option (Pair ''config.ini'') written))
      | Present f \<Rightarrow>
          (case LoadFile f config_ini of
             (s, SI_OK) \<Rightarrow> (client_fields lb s, None)
           | _ \<Rightarrow> (c, None)))"

subsection \<open>The server's settings\<close>

record server_config =
  sc_stun_ip :: string
  sc_stun_port :: u16
  sc_ws_bind_port :: u16
  sc_ws_max_message_size :: u32
  sc_ws_connection_timeout :: u16
  sc_ws_enable_tls :: bool
  sc_ws_certificate_pem_file :: string
  sc_ws_key_pem_file :: string
  sc_ws_key_pem_pass :: string
  sc_ws_bind_address :: string
  sc_server_password :: string
  sc_asio_thread_count :: u32

definition ServerConfig_new :: server_config where
  "ServerConfig_new =
     \<lparr>sc_stun_ip = [], sc_stun_port = 3478, sc_ws_bind_port = 8080, sc_ws_max_message_size = 1024 * 1024,
      sc_ws_connection_timeout = 10000, sc_ws_enable_tls = False, sc_ws_certificate_pem_file = [],
      sc_ws_key_pem_file = [], sc_ws_key_pem_pass = [], sc_ws_bind_address = ''0.0.0.0'',
      sc_server_password = [], sc_asio_thread_count = 4\<rparr>"

definition server_defaults :: "nat \<Rightarrow> server_config \<Rightarrow> (ini \<Rightarrow> ini) list" where
  "server_defaults lb c =
     [SetText ''stun'' ''ip'' (sc_stun_ip c),
      SetLongValue lb ''stun'' ''port'' (uint (sc_stun_port c)),
      SetLongValue lb ''websocket'' ''bind_port'' (uint (sc_ws_bind_port c)),
      SetLongValue lb ''websocket'' ''max_message_size'' (uint (sc_ws_max_message_size c)),
      SetLongValue lb ''websocket'' ''connection_timeout'' (uint (sc_ws_connection_timeout c)),
      SetBoolValue ''websocket'' ''enable_tls'' (sc_ws_enable_tls c),
      SetText ''websocket'' ''certificate_pem_file'' (sc_ws_certificate_pem_file c),
      SetText ''websocket'' ''key_pem_file'' (sc_ws_key_pem_file c),
      SetText ''websocket'' ''key_pem_pass'' (sc_ws_key_pem_pass c),
      SetText ''websocket'' ''bind_address'' (sc_ws_bind_address c),
      SetText ''server'' ''password'' (sc_server_password c),
      SetLongValue lb ''server'' ''asio_thread_count'' (sint (sc_asio_thread_count c))]"

definition server_fields :: "nat \<Rightarrow> ini \<Rightarrow> server_config" where
  "server_fields lb s =
     \<lparr>sc_stun_ip = text_value s ''stun'' ''ip'' ''stun.miwifi.com:3478'',
      sc_stun_port = word_of_int (GetLongValue lb s ''stun'' ''port'' 3478),
      sc_ws_bind_port = word_of_int (GetLongValue lb s ''websocket'' ''bind_port'' 8080),
      sc_ws_max_message_size = word_of_int (GetLongValue lb s ''websocket'' ''max_message_size'' (1024 * 1024)),
      sc_ws_connection_timeout = word_of_int (GetLongValue lb s ''websocket'' ''connection_timeout'' 30),
      sc_ws_enable_tls = GetBoolValue s ''websocket'' ''enable_tls'' False,
      sc_ws_certificate_pem_file = text_value s ''websocket'' ''certificate_pem_file'' [],
      sc_ws_key_pem_file = text_value s ''websocket'' ''key_pem_file'' [],
      sc_ws_key_pem_pass = text_value s ''websocket'' ''key_pem_pass'' [],
      sc_ws_bind_address = text_value s ''websocket'' ''bind_address'' ''0.0.0.0'',
      sc_server_password = text_value s ''server'' ''password'' [],
      sc_asio_thread_count = word_of_int (GetLongValue lb s ''server'' ''asio_thread_count'' 4)\<rparr>"

definition readConfig ::
  "nat \<Rightarrow> string \<Rightarrow> config_file \<Rightarrow> string \<Rightarrow> server_config \<Rightarrow> server_config \<times> (string \<times> string) option" where
  "readConfig lb nl file exec_dir c =
     (case file of
        Missing opened \<Rightarrow>
          (let s = fold (\<lambda>f. f) (server_defaults lb c) config_ini in
           case SaveFile nl opened s of
             (SI_OK, written) \<Rightarrow> (server_fields lb s, map_option (Pair exec_dir) written)
           | (_, written) \<Rightarrow> (c, map_option (Pair exec_dir) written))
      | Present f \<Rightarrow>
          (case LoadFile f config_ini of
             (s, SI_OK) \<Rightarrow> (server_fields lb s, None)
           | _ \<Rightarrow> (c, None)))"

subsection \<open>Numbers\<close>

lemma digit_of_dec: "c \<in> set (dec_string n) \<Longrightarrow> is_radix_digit 10 c \<and> \<not> is_space c \<and> c \<noteq> CHR ''-'' \<and> c \<noteq> CHR ''+'' \<and> \<not> hex_mark c"
  using set_dec_string [of n]
  by (auto simp: is_radix_digit_def digit_val_def is_space_def hex_mark_def)

lemma takeWhile_dec [simp]: "takeWhile (is_radix_digit 10) (dec_string n) = dec_string n"
  "dropWhile (is_radix_digit 10) (dec_string n) = []"
  by (simp_all add: takeWhile_eq_all_conv dropWhile_eq_Nil_conv digit_of_dec)

lemma dropWhile_head: "xs \<noteq> [] \<Longrightarrow> \<not> P (hd xs) \<Longrightarrow> dropWhile P xs = xs"
  by (cases xs) simp_all

definition int_text :: "int \<Rightarrow> string" where
  "int_text v = (if v < 0 then ''-'' @ dec_string (nat (- v)) else dec_string (nat v))"

lemma strtol_int_text:
  "strtol lb 10 (int_text v) =
     (if v < - (2 ^ (lb - 1)) \<or> 2 ^ (lb - 1) \<le> v then None else Some (v, []))"
proof (cases "v < 0")
  case True
  have "\<not> is_space (CHR ''-'')" by (simp add: is_space_def)
  with True show ?thesis
    by (simp add: int_text_def strtol_def skip_hex_prefix_def Let_def)
next
  case False
  have hd: "hd (dec_string (nat v)) \<in> set (dec_string (nat v))" by (rule hd_in_set) simp
  then have "dropWhile is_space (dec_string (nat v)) = dec_string (nat v)"
    by (intro dropWhile_head) (simp_all add: digit_of_dec [OF hd])
  with False digit_of_dec [OF hd] show ?thesis
    by (simp add: int_text_def strtol_def skip_hex_prefix_def Let_def)
qed

lemma length_int_text: "v \<in> {- (2 ^ 63)..<2 ^ 64} \<Longrightarrow> length (int_text v) \<le> 21"
proof -
  assume "v \<in> {- (2 ^ 63)..<2 ^ 64}"
  then have "nat \<bar>v\<bar> < 2 ^ 64" by auto
  then have "nat \<bar>v\<bar> < 10 ^ Suc 19" by simp
  from radix_digits_length [OF this] have "length (dec_string (nat \<bar>v\<bar>)) \<le> 20" by (simp add: dec_string_def)
  then show ?thesis by (simp add: int_text_def abs_if split: if_splits)
qed

text \<open>A decimal number in the file is read as it is when it is a \<open>long\<close>, and as the default otherwise.\<close>

lemma long_value_int_text:
  assumes "length (int_text v) < 64"
  shows "long_value lb (int_text v) d = (if v < - (2 ^ (lb - 1)) \<or> 2 ^ (lb - 1) \<le> v then d else v)"
proof -
  have ne: "int_text v \<noteq> []" by (simp add: int_text_def)
  have "\<not> (1 < length (int_text v) \<and> int_text v ! 0 = CHR ''0'' \<and> hex_mark (int_text v ! 1))"
  proof
    assume *: "1 < length (int_text v) \<and> int_text v ! 0 = CHR ''0'' \<and> hex_mark (int_text v ! 1)"
    then have "int_text v = dec_string (nat v)" by (auto simp: int_text_def split: if_splits)
    with * have "int_text v ! 1 \<in> set (dec_string (nat v))" by (metis nth_mem)
    from digit_of_dec [OF this] * show False by blast
  qed
  with assms ne show ?thesis
    by (simp only: long_value_def if_False strtol_int_text) auto
qed

lemma long_text_eq: "long_text lb n = int_text (signed_take_bit (lb - 1) n)"
  by (simp add: long_text_def int_text_def Let_def)

lemma signed_take_bit_range:
  fixes n :: int
  shows "lb \<in> {32, 64} \<Longrightarrow> - (2 ^ (lb - 1)) \<le> signed_take_bit (lb - 1) n \<and> signed_take_bit (lb - 1) n < 2 ^ (lb - 1)"
  using signed_take_bit_int_greater_eq_minus_exp [of "lb - 1" n] signed_take_bit_int_less_exp [of "lb - 1" n]
  by simp

lemma long_value_long_text:
  assumes "lb \<in> {32, 64}"
  shows "long_value lb (long_text lb n) d = signed_take_bit (lb - 1) n"
proof -
  let ?v = "signed_take_bit (lb - 1) n"
  note r = signed_take_bit_range [OF assms, of n]
  have "?v \<in> {- (2 ^ 63)..<2 ^ 64}"
    using r assms by (elim insertE emptyE) simp_all
  from length_int_text [OF this] have "length (int_text ?v) < 64" by linarith
  moreover have "\<not> (?v < - (2 ^ (lb - 1)) \<or> 2 ^ (lb - 1) \<le> ?v)" using r by linarith
  ultimately show ?thesis by (simp only: long_value_int_text long_text_eq if_False)
qed

lemma word_of_signed_take_bit:
  "LENGTH('a::len) \<le> Suc n \<Longrightarrow> word_of_int (signed_take_bit n k) = (word_of_int k :: 'a word)"
  by (rule bit_word_eqI)
    (simp add: bit_word_of_int_iff bit_signed_take_bit_iff min_def, metis dual_order.antisym less_Suc_eq_le order_less_le_trans)

lemma word_of_as_int [simp]:
  "LENGTH('a::len) \<le> 32 \<Longrightarrow> word_of_int (as_int k) = (word_of_int k :: 'a word)"
  by (simp add: as_int_def word_of_signed_take_bit)

lemma setting_roundtrip:
  fixes w :: "'a::len word"
  assumes "LENGTH('a) \<le> 32" "lb \<in> {32, 64}"
  shows "word_of_int (signed_take_bit (lb - 1) (uint w)) = w"
    "word_of_int (signed_take_bit (lb - 1) (sint w)) = w"
proof -
  have "LENGTH('a) \<le> Suc (lb - 1)" using assms by auto
  then show "word_of_int (signed_take_bit (lb - 1) (uint w)) = w"
    "word_of_int (signed_take_bit (lb - 1) (sint w)) = w"
    by (simp_all only: word_of_signed_take_bit) simp_all
qed

subsection \<open>Saving and reading back\<close>

text \<open>A text a line of the file can carry, of at most a megabyte.\<close>

definition carried :: "string \<Rightarrow> bool" where
  "carried v \<longleftrightarrow> one_line v \<and> length v \<le> text_bound"

lemma c_str_id [simp]: "one_line v \<Longrightarrow> c_str v = v"
  by (auto simp: one_line_def c_str_def takeWhile_eq_all_conv)

definition client_texts :: "client_config \<Rightarrow> string list" where
  "client_texts c =
     [stun_ip c, ws_server_ip c, ws_ca_certificate_pem_file c, ws_certificate_pem_file c, ws_key_pem_file c,
      ws_key_pem_pass c, ws_proxy_server c, ws_protocols c, socks5_bind_ip c, cc_server_password c]"

definition server_texts :: "server_config \<Rightarrow> string list" where
  "server_texts c =
     [sc_stun_ip c, sc_ws_certificate_pem_file c, sc_ws_key_pem_file c, sc_ws_key_pem_pass c,
      sc_ws_bind_address c, sc_server_password c]"

lemma setters_put:
  "one_line v \<Longrightarrow> SetText sec key v = put_setting (sec, key) v"
  "SetLongValue lb sec key n = put_setting (sec, key) (long_text lb n)"
  "SetBoolValue sec key b = put_setting (sec, key) (if b then ''true'' else ''false'')"
  by (simp_all add: put_setting_def SetText_def SetLongValue_def SetBoolValue_def SetValue_def fun_eq_iff)

lemma int_text_chars: "set (int_text v) \<subseteq> set ''-0123456789''"
proof -
  have "set ''0123456789'' \<subseteq> set ''-0123456789''" by simp
  with set_dec_string have dec: "set (dec_string n) \<subseteq> set ''-0123456789''" for n by (rule subset_trans)
  have "set ''-'' \<subseteq> set ''-0123456789''" by simp
  with dec show ?thesis unfolding int_text_def by (simp only: set_append Un_subset_iff split: if_split) blast
qed

lemma long_text_carried: "lb \<in> {32, 64} \<Longrightarrow> carried (long_text lb n)"
proof -
  assume lb: "lb \<in> {32, 64}"
  let ?v = "signed_take_bit (lb - 1) n"
  have "?v \<in> {- (2 ^ 63)..<2 ^ 64}"
    using signed_take_bit_range [OF lb, of n] lb by (elim insertE emptyE) simp_all
  from length_int_text [OF this] have "length (int_text ?v) \<le> text_bound" by (simp add: text_bound_def)
  moreover have "\<not> IsNewLineChar c \<and> c \<noteq> CHR 0x00" if "c \<in> set ''-0123456789''" for c
    using that by (auto simp: IsNewLineChar_def LF_def CR_def)
  then have "one_line (int_text ?v)" using int_text_chars by (auto simp: one_line_def)
  ultimately show ?thesis by (simp add: carried_def long_text_eq)
qed

lemma bool_text_carried: "carried (if b then ''true'' else ''false'')"
  by (simp add: carried_def one_line_def text_bound_def IsNewLineChar_def LF_def CR_def)

lemma one_line_carried: "carried v \<Longrightarrow> one_line v"
  by (simp add: carried_def)

lemma long_text_trimmed: "lb \<in> {32, 64} \<Longrightarrow> trim (long_text lb n) = long_text lb n"
proof (rule trim_id)
  let ?t = "int_text (signed_take_bit (lb - 1) n)"
  have "?t \<noteq> []" by (simp add: int_text_def)
  then have "hd ?t \<in> set ''-0123456789''" "last ?t \<in> set ''-0123456789''"
    using int_text_chars by (meson hd_in_set last_in_set subsetD)+
  moreover have "\<not> IsSpace c" if "c \<in> set ''-0123456789''" for c
    using that by (auto simp: IsSpace_def LF_def CR_def TAB_def)
  ultimately show "trimmed (long_text lb n)" by (simp add: trimmed_def long_text_eq)
qed

lemma bool_text_trimmed: "trim (if b then ''true'' else ''false'') = (if b then ''true'' else ''false'')"
  by (rule trim_id) (simp add: trimmed_def IsSpace_def LF_def CR_def TAB_def)

definition client_entries :: "nat \<Rightarrow> client_config \<Rightarrow> ((string \<times> string) \<times> string) list" where
  "client_entries lb c =
     [((''stun'', ''ip''), stun_ip c),
      ((''stun'', ''port''), long_text lb (uint (stun_port c))),
      ((''websocket'', ''server_ip''), ws_server_ip c),
      ((''websocket'', ''max_message_size''), long_text lb (uint (ws_max_message_size c))),
      ((''websocket'', ''connection_timeout''), long_text lb (uint (ws_connection_timeout c))),
      ((''websocket'', ''enable_tls''), if ws_enable_tls c then ''true'' else ''false''),
      ((''websocket'', ''disable_tls_verification''), if ws_disable_tls_verification c then ''true'' else ''false''),
      ((''websocket'', ''max_outstanding_pings''), long_text lb (uint (ws_max_outstanding_pings c))),
      ((''websocket'', ''ping_interval''), long_text lb (uint (ws_ping_interval c))),
      ((''websocket'', ''ca_certificate_pem_file''), ws_ca_certificate_pem_file c),
      ((''websocket'', ''certificate_pem_file''), ws_certificate_pem_file c),
      ((''websocket'', ''key_pem_file''), ws_key_pem_file c),
      ((''websocket'', ''key_pem_pass''), ws_key_pem_pass c),
      ((''websocket'', ''proxy_server''), ws_proxy_server c),
      ((''websocket'', ''protocols''), ws_protocols c),
      ((''socks5'', ''bind_ip''), socks5_bind_ip c),
      ((''socks5'', ''bind_port''), long_text lb (sint (socks5_bind_port c))),
      ((''server'', ''password''), cc_server_password c),
      ((''server'', ''asio_thread_count''), long_text lb (sint (asio_thread_count c)))]"

definition server_entries :: "nat \<Rightarrow> server_config \<Rightarrow> ((string \<times> string) \<times> string) list" where
  "server_entries lb c =
     [((''stun'', ''ip''), sc_stun_ip c),
      ((''stun'', ''port''), long_text lb (uint (sc_stun_port c))),
      ((''websocket'', ''bind_port''), long_text lb (uint (sc_ws_bind_port c))),
      ((''websocket'', ''max_message_size''), long_text lb (uint (sc_ws_max_message_size c))),
      ((''websocket'', ''connection_timeout''), long_text lb (uint (sc_ws_connection_timeout c))),
      ((''websocket'', ''enable_tls''), if sc_ws_enable_tls c then ''true'' else ''false''),
      ((''websocket'', ''certificate_pem_file''), sc_ws_certificate_pem_file c),
      ((''websocket'', ''key_pem_file''), sc_ws_key_pem_file c),
      ((''websocket'', ''key_pem_pass''), sc_ws_key_pem_pass c),
      ((''websocket'', ''bind_address''), sc_ws_bind_address c),
      ((''server'', ''password''), sc_server_password c),
      ((''server'', ''asio_thread_count''), long_text lb (sint (sc_asio_thread_count c)))]"


text \<open>The names are such that no two of them are the same to the store, and each fits a line.\<close>

lemma names_fit:
  "list_all (\<lambda>n. section_text (fst n) \<and> key_text (snd n) \<and> length (fst n) \<le> text_bound \<and> length (snd n) \<le> text_bound)
     (map fst (client_entries lb c))"
  "list_all (\<lambda>n. section_text (fst n) \<and> key_text (snd n) \<and> length (fst n) \<le> text_bound \<and> length (snd n) \<le> text_bound)
     (map fst (server_entries lb d))"
  by (simp_all add: client_entries_def server_entries_def section_text_def key_text_def one_line_def trimmed_def
      text_bound_def IsSpace_def IsNewLineChar_def IsComment_def LF_def CR_def TAB_def)

lemma names_distinct:
  "distinct (map (\<lambda>e. setting_key (fst e)) (client_entries lb c))"
  "distinct (map (\<lambda>e. setting_key (fst e)) (server_entries lb d))"
  by (simp_all add: client_entries_def server_entries_def setting_key_def fold_key_eq locase_range)

text \<open>The settings with the white space at the ends of their texts gone.\<close>

definition client_trimmed :: "client_config \<Rightarrow> client_config" where
  "client_trimmed c =
     c\<lparr>stun_ip := trim (stun_ip c),
        ws_server_ip := trim (ws_server_ip c),
        ws_ca_certificate_pem_file := trim (ws_ca_certificate_pem_file c),
        ws_certificate_pem_file := trim (ws_certificate_pem_file c),
        ws_key_pem_file := trim (ws_key_pem_file c),
        ws_key_pem_pass := trim (ws_key_pem_pass c),
        ws_proxy_server := trim (ws_proxy_server c),
        ws_protocols := trim (ws_protocols c),
        socks5_bind_ip := trim (socks5_bind_ip c),
        cc_server_password := trim (cc_server_password c)\<rparr>"

definition server_trimmed :: "server_config \<Rightarrow> server_config" where
  "server_trimmed c =
     c\<lparr>sc_stun_ip := trim (sc_stun_ip c),
        sc_ws_certificate_pem_file := trim (sc_ws_certificate_pem_file c),
        sc_ws_key_pem_file := trim (sc_ws_key_pem_file c),
        sc_ws_key_pem_pass := trim (sc_ws_key_pem_pass c),
        sc_ws_bind_address := trim (sc_ws_bind_address c),
        sc_server_password := trim (sc_server_password c)\<rparr>"

text \<open>Every setting of a list is found in the store, as \<open>f\<close> changes it.\<close>

definition holds_all :: "(string \<Rightarrow> string) \<Rightarrow> ini \<Rightarrow> ((string \<times> string) \<times> string) list \<Rightarrow> bool" where
  "holds_all f s es \<longleftrightarrow> list_all (\<lambda>e. \<forall>d. GetValue s (fst (fst e)) (snd (fst e)) d = Some (f (snd e))) es"

lemma client_fields_found:
  assumes "lb \<in> {32, 64}"
  shows "holds_all id s (client_entries lb c) \<Longrightarrow> client_fields lb s = c"
    "holds_all trim s (client_entries lb c) \<Longrightarrow> client_fields lb s = client_trimmed c"
proof -
  note fields = client_fields_def client_trimmed_def text_value_def GetLongValue_def GetBoolValue_def
  note got = holds_all_def client_entries_def long_text_trimmed [OF assms] bool_text_trimmed
  note numbers = long_value_long_text [OF assms] setting_roundtrip [OF _ assms]
  show "holds_all id s (client_entries lb c) \<Longrightarrow> client_fields lb s = c"
    by (cases c) (simp add: got fields numbers del: One_nat_def)
  show "holds_all trim s (client_entries lb c) \<Longrightarrow> client_fields lb s = client_trimmed c"
    by (cases c) (simp add: got fields numbers del: One_nat_def)
qed

lemma server_fields_found:
  assumes "lb \<in> {32, 64}"
  shows "holds_all id s (server_entries lb c) \<Longrightarrow> server_fields lb s = c"
    "holds_all trim s (server_entries lb c) \<Longrightarrow> server_fields lb s = server_trimmed c"
proof -
  note fields = server_fields_def server_trimmed_def text_value_def GetLongValue_def GetBoolValue_def
  note got = holds_all_def server_entries_def long_text_trimmed [OF assms] bool_text_trimmed
  note numbers = long_value_long_text [OF assms] setting_roundtrip [OF _ assms]
  show "holds_all id s (server_entries lb c) \<Longrightarrow> server_fields lb s = c"
    by (cases c) (simp add: got fields numbers del: One_nat_def)
  show "holds_all trim s (server_entries lb c) \<Longrightarrow> server_fields lb s = server_trimmed c"
    by (cases c) (simp add: got fields numbers del: One_nat_def)
qed

text \<open>What is put, saved and loaded again.\<close>

lemma settings_ok_config: "settings_ok 0 config_ini"
  unfolding config_ini_def by (rule settings_ok_fresh)

lemma put_found:
  assumes "ini.all_fit es" "distinct (map (\<lambda>e. setting_key (fst e)) es)"
  shows "holds_all id (ini.puts es config_ini) es"
  using ini.get_puts [OF settings_ok_config assms] ini.ok_puts [OF settings_ok_config assms(1)]
  by (auto simp: holds_all_def list_all_iff get_setting_def settings_ok_def plain_ini_def GetValue_table split: option.splits)

lemma puts_flags:
  "settings_ok n s \<Longrightarrow> ini.all_fit es \<Longrightarrow>
    m_bParseQuotes (ini.puts es s) = m_bParseQuotes s \<and> m_bAllowKeyOnly (ini.puts es s) = m_bAllowKeyOnly s"
proof (induction es arbitrary: n s)
  case (Cons e es)
  from Cons.prems(2) have e: "setting_fits (fst e) (snd e)" "ini.all_fit es" by (simp_all add: ini.all_fit_def)
  from Cons.IH [OF put_setting_ok [OF Cons.prems(1) e(1)] e(2)] put_setting_flags [OF Cons.prems(1) e(1)]
  show ?case by (simp add: ini.puts_def)
qed (simp add: ini.puts_def)

lemma reload_found:
  assumes "ini.all_fit es" "distinct (map (\<lambda>e. setting_key (fst e)) es)" "length es \<le> 20" "new_line nl"
  shows "\<exists>text s'. SaveFile nl True (ini.puts es config_ini) = (SI_OK, Some text) \<and>
    LoadFile (Holds text) config_ini = (s', SI_OK) \<and> holds_all trim s' es"
proof -
  let ?s = "ini.puts es config_ini"
  from ini.ok_puts [OF settings_ok_config assms(1)] have ok: "settings_ok (length es) ?s" by simp
  from puts_flags [OF settings_ok_config assms(1)] have flags: "\<not> m_bParseQuotes ?s" "\<not> m_bAllowKeyOnly ?s"
    by (simp_all add: config_ini_def SetUnicode_def SimpleIni_new_def)
  have t: "config_ini =
      SetUnicode True (SimpleIni_new\<lparr>m_bParseQuotes := m_bParseQuotes ?s, m_bAllowKeyOnly := m_bAllowKeyOnly ?s\<rparr>)"
    using flags by (simp add: config_ini_def SimpleIni_new_def)
  have "plain_ini ?s" "m_bStoreIsUtf8 ?s" using ok by (simp_all add: settings_ok_def)
  from ini_file_parts [OF this assms(4) Save_fits [OF ok assms(3,4)] t] obtain doc s' where
    f: "SaveFile nl True ?s = (SI_OK, Some doc)" "LoadFile (Holds doc) config_ini = (s', SI_OK)"
    "\<forall>sec key d. GetValue s' sec key d =
      (case GetValue ?s sec key None of None \<Rightarrow> d | Some v \<Rightarrow> Some (stored (m_bParseQuotes ?s) v))" by blast
  with put_found [OF assms(1,2)] flags(1) have "holds_all trim s' es"
    by (auto simp: holds_all_def list_all_iff stored_def)
  with f show ?thesis by blast
qed

lemma client_saved:
  assumes "lb \<in> {32, 64}" "\<forall>v\<in>set (client_texts c). carried v"
  shows "fold (\<lambda>f. f) (client_defaults lb c) config_ini = ini.puts (client_entries lb c) config_ini"
    "ini.all_fit (client_entries lb c)" "length (client_entries lb c) \<le> 20"
proof -
  show "fold (\<lambda>f. f) (client_defaults lb c) config_ini = ini.puts (client_entries lb c) config_ini"
    using assms(2) by (simp add: client_defaults_def client_entries_def setters_put one_line_carried client_texts_def ini.puts_def)
  have "\<forall>e\<in>set (client_entries lb c). carried (snd e)"
    using assms(2) by (simp add: client_entries_def client_texts_def long_text_carried [OF assms(1)] bool_text_carried)
  then show "ini.all_fit (client_entries lb c)"
    using names_fit(1) [of lb c] by (auto simp: ini.all_fit_def setting_fits_def list_all_iff carried_def)
  show "length (client_entries lb c) \<le> 20" by (simp add: client_entries_def)
qed

lemma server_saved:
  assumes "lb \<in> {32, 64}" "\<forall>v\<in>set (server_texts c). carried v"
  shows "fold (\<lambda>f. f) (server_defaults lb c) config_ini = ini.puts (server_entries lb c) config_ini"
    "ini.all_fit (server_entries lb c)" "length (server_entries lb c) \<le> 20"
proof -
  show "fold (\<lambda>f. f) (server_defaults lb c) config_ini = ini.puts (server_entries lb c) config_ini"
    using assms(2) by (simp add: server_defaults_def server_entries_def setters_put one_line_carried server_texts_def ini.puts_def)
  have "\<forall>e\<in>set (server_entries lb c). carried (snd e)"
    using assms(2) by (simp add: server_entries_def server_texts_def long_text_carried [OF assms(1)] bool_text_carried)
  then show "ini.all_fit (server_entries lb c)"
    using names_fit(2) [of lb c] by (auto simp: ini.all_fit_def setting_fits_def list_all_iff carried_def)
  show "length (server_entries lb c) \<le> 20" by (simp add: server_entries_def)
qed

subsection \<open>Properties\<close>

text \<open>C37: Settings survive a restart, down to the text of the file: a client that finds no file keeps the
settings it has and writes a \<open>config.ini\<close> from which any later start reads those settings, whatever it had
before; the same holds of the server and its file. Only the white space at the ends of a text is lost.
The texts must fit a line and a megabyte each; both widths of \<open>long\<close> and both new lines are covered (a
message size that is no signed \<open>long\<close> is saved as a negative number and wraps back).\<close>
theorem settings_survive_restart:
  assumes "lb \<in> {32, 64}" "new_line nl"
    and "\<forall>v\<in>set (client_texts c). carried v" "\<forall>v\<in>set (server_texts d). carried v"
  shows "(\<exists>file. readClientConfig lb nl (Missing True) dir c = (c, Some (''config.ini'', file)) \<and>
      (\<forall>dir' c'. readClientConfig lb nl (Present (Holds file)) dir' c' = (client_trimmed c, None))) \<and>
    (\<exists>file. readConfig lb nl (Missing True) dir d = (d, Some (dir, file)) \<and>
      (\<forall>dir' d'. readConfig lb nl (Present (Holds file)) dir' d' = (server_trimmed d, None)))"
proof
  note cs = client_saved [OF assms(1,3)] and ss = server_saved [OF assms(1,4)]
  from reload_found [OF cs(2) names_distinct(1) cs(3) assms(2)] obtain doc s' where
    c: "SaveFile nl True (ini.puts (client_entries lb c) config_ini) = (SI_OK, Some doc)"
    "LoadFile (Holds doc) config_ini = (s', SI_OK)" "holds_all trim s' (client_entries lb c)" by blast
  with client_fields_found [OF assms(1)] put_found [OF cs(2) names_distinct(1)]
  show "\<exists>file. readClientConfig lb nl (Missing True) dir c = (c, Some (''config.ini'', file)) \<and>
      (\<forall>dir' c'. readClientConfig lb nl (Present (Holds file)) dir' c' = (client_trimmed c, None))"
    by (simp add: readClientConfig_def cs(1) Let_def)
  from reload_found [OF ss(2) names_distinct(2) ss(3) assms(2)] obtain doc s' where
    "SaveFile nl True (ini.puts (server_entries lb d) config_ini) = (SI_OK, Some doc)"
    "LoadFile (Holds doc) config_ini = (s', SI_OK)" "holds_all trim s' (server_entries lb d)" by blast
  with server_fields_found [OF assms(1)] put_found [OF ss(2) names_distinct(2)]
  show "\<exists>file. readConfig lb nl (Missing True) dir d = (d, Some (dir, file)) \<and>
      (\<forall>dir' d'. readConfig lb nl (Present (Holds file)) dir' d' = (server_trimmed d, None))"
    by (simp add: readConfig_def ss(1) Let_def)
qed

theorem settings_survive_restart_witness:
  "\<exists>file. readClientConfig 64 [LF] (Missing True) ''d'' ClientConfig_new = (ClientConfig_new, Some (''config.ini'', file)) \<and>
      (\<forall>dir' c'. readClientConfig 64 [LF] (Present (Holds file)) dir' c' = (ClientConfig_new, None))"
proof -
  have "(64::nat) \<in> {32, 64}" "new_line [LF]" by (simp_all add: new_line_def)
  moreover have "\<forall>v\<in>set (client_texts ClientConfig_new). carried v" "\<forall>v\<in>set (server_texts ServerConfig_new). carried v"
    by (simp_all add: client_texts_def server_texts_def ClientConfig_new_def ServerConfig_new_def carried_def one_line_def
        IsNewLineChar_def LF_def CR_def text_bound_def)
  moreover have "client_trimmed ClientConfig_new = ClientConfig_new"
    by (simp add: client_trimmed_def ClientConfig_new_def trim_def trim_right_def IsSpace_def LF_def CR_def TAB_def)
  ultimately show ?thesis using settings_survive_restart by metis
qed

text \<open>A port in the file is cut to 16 bits without a word: a decimal number that is a \<open>long\<close> is
taken modulo 65536, so 65536 is port 0 and 70000 is port 4464, and only a number beyond \<open>long\<close> counts as
absent and gives the default port.\<close>
lemma port_setting_wraps:
  assumes "lb \<in> {32, 64}" "length (int_text n) < 64"
    and "GetValue s ''socks5'' ''bind_port'' None = Some (int_text n)"
    and "GetValue s ''websocket'' ''bind_port'' None = Some (int_text n)"
  shows "uint (socks5_bind_port (client_fields lb s)) =
      (if - (2 ^ (lb - 1)) \<le> n \<and> n < 2 ^ (lb - 1) then n mod 65536 else 10801) \<and>
    uint (sc_ws_bind_port (server_fields lb s)) =
      (if - (2 ^ (lb - 1)) \<le> n \<and> n < 2 ^ (lb - 1) then n mod 65536 else 8080)"
  using assms(3,4) long_value_int_text [OF assms(2)]
  by (auto simp: client_fields_def server_fields_def GetLongValue_def uint_word_of_int not_less not_le simp del: One_nat_def)

text \<open>The server's defaults depend on whether there is a file: started without one it keeps no STUN host
at all and a timeout of 10 seconds, while an empty file gives it the host \<open>stun.miwifi.com:3478\<close> and a
timeout of 30 milliseconds; the client has the same settings either way.\<close>
lemma server_defaults_differ:
  assumes "lb \<in> {32, 64}"
  shows "fst (readConfig lb nl (Missing opened) dir ServerConfig_new) = ServerConfig_new \<and>
    fst (readConfig lb nl (Present (Holds [])) dir ServerConfig_new) =
      ServerConfig_new\<lparr>sc_stun_ip := ''stun.miwifi.com:3478'', sc_ws_connection_timeout := 30\<rparr> \<and>
    fst (readClientConfig lb nl (Missing opened) dir ClientConfig_new) = ClientConfig_new \<and>
    fst (readClientConfig lb nl (Present (Holds [])) dir ClientConfig_new) = ClientConfig_new"
proof -
  have "\<forall>v\<in>set (client_texts ClientConfig_new). carried v" "\<forall>v\<in>set (server_texts ServerConfig_new). carried v"
    by (simp_all add: client_texts_def server_texts_def ClientConfig_new_def ServerConfig_new_def carried_def one_line_def
        IsNewLineChar_def LF_def CR_def text_bound_def)
  note cs = client_saved [OF assms this(1)] and ss = server_saved [OF assms this(2)]
  have "fst (readConfig lb nl (Missing opened) dir ServerConfig_new) = ServerConfig_new"
    "fst (readClientConfig lb nl (Missing opened) dir ClientConfig_new) = ClientConfig_new"
    using put_found [OF cs(2) names_distinct(1)] put_found [OF ss(2) names_distinct(2)]
    by (simp_all add: readConfig_def readClientConfig_def Let_def SaveFile_def cs(1) ss(1)
        client_fields_found(1) [OF assms] server_fields_found(1) [OF assms])
  then show ?thesis
    by (simp add: readConfig_def readClientConfig_def server_fields_def client_fields_def text_value_def GetValue_def
        GetLongValue_def GetBoolValue_def ServerConfig_new_def ClientConfig_new_def LoadFile_def config_ini_def
        GetSection_def SetUnicode_def SimpleIni_new_def)
qed

end
