(* ===== verification/NetworkRtcApp.thy ===== *)
theory NetworkRtcApp
  imports ClientSession SessionController SessionIds Configuration
begin

text \<open>
  The client program: \<open>Src/client/src/socks5.cpp\<close> (\<open>SocksServer\<close>, which accepts local connections and
  keeps a session for each) and \<open>Src/client/src/network_rtc_app.cpp\<close> (\<open>NetworkRtcApp\<close>, which joins it to
  the multiplexer and the controller).

  Session objects are shared: the server's map holds pointers, the callbacks in the multiplexer hold
  weak ones. They live in a store under their session number, which is what a callback of the
  multiplexer captures (\<open>ClientSession\<close>); numbers are distinct for the first 65536 connections
  (\<open>SessionIds\<close>), after which the model would confuse a session with the one whose number it takes.
\<close>

subsection \<open>The libraries' settings\<close>

text \<open>\<open>rtc::Configuration\<close> and \<open>rtc::WebSocketConfiguration\<close>; \<open>None\<close> leaves the library's default.\<close>

record rtc_settings =
  rs_ice_server :: "string \<times> u16"
  rs_proxy :: "string option"

record ws_settings =
  wx_disable_tls_verification :: bool
  wx_proxy :: "string option"
  wx_protocols :: "string list option"
  wx_timeout :: "u16 option"
  wx_ping_interval :: "u16 option"
  wx_max_pings :: "u16 option"
  wx_ca_file :: "string option"
  wx_cert_file :: "string option"
  wx_key_file :: "string option"
  wx_key_pass :: "string option"
  wx_max_message :: "u32 option"

definition text_opt :: "string \<Rightarrow> string option" where
  "text_opt s = (if s \<noteq> [] then Some s else None)"

definition num_opt :: "'a::len word \<Rightarrow> 'a word option" where
  "num_opt n = (if n > 0 then Some n else None)"

definition rtc_settings_of :: "client_config \<Rightarrow> rtc_settings" where
  "rtc_settings_of c =
     \<lparr>rs_ice_server = (stun_ip c, stun_port c), rs_proxy = text_opt (ws_proxy_server c)\<rparr>"

definition ws_settings_of :: "client_config \<Rightarrow> ws_settings" where
  "ws_settings_of c =
     \<lparr>wx_disable_tls_verification = ws_disable_tls_verification c,
      wx_proxy = text_opt (ws_proxy_server c),
      wx_protocols = map_option (\<lambda>s. [s]) (text_opt (ws_protocols c)),
      wx_timeout = num_opt (ws_connection_timeout c),
      wx_ping_interval = num_opt (ws_ping_interval c),
      wx_max_pings = num_opt (ws_max_outstanding_pings c),
      wx_ca_file = text_opt (ws_ca_certificate_pem_file c),
      wx_cert_file = text_opt (ws_certificate_pem_file c),
      wx_key_file = text_opt (ws_key_pem_file c),
      wx_key_pass = text_opt (ws_key_pem_pass c),
      wx_max_message = num_opt (ws_max_message_size c)\<rparr>"

subsection \<open>State\<close>

record 'l app =
  ap_mux :: "u32 session_mux"
  ap_draws :: "u32 list"
  ap_controller :: controller
  ap_close_cb :: bool
  ap_config :: client_config
  sv_open :: bool
  sv_port :: u16
  sv_ids :: u32
  sv_sessions :: "u32 list"
  sv_heap :: "u32 \<Rightarrow> 'l client_session option"

datatype app_action =
    ApSession u32 cs_action
  | ApCtl ctl_action
  | ApListen u16
  | ApAccept
  | ApStopListening
  | ApClosed
  | ApConfigure rtc_settings ws_settings

type_synonym 'l app_handler = "('l app, app_action) handler"

definition NetworkRtcApp_new :: "u32 \<Rightarrow> u32 list \<Rightarrow> 'l app" where
  "NetworkRtcApp_new peer ds =
     \<lparr>ap_mux = set_send_func (SessionMux_new peer), ap_draws = ds,
      ap_controller = ctl_bindDataChannel Controller_new, ap_close_cb = False, ap_config = ClientConfig_new,
      sv_open = False, sv_port = 0, sv_ids = 0, sv_sessions = [], sv_heap = (\<lambda>_. None)\<rparr>"

definition app_onClose :: "'l app \<Rightarrow> 'l app" where
  "app_onClose p = p\<lparr>ap_close_cb := True\<rparr>"

subsection \<open>Running a session\<close>

text \<open>The send function: a frame too long for its length prefix is logged and dropped.\<close>

definition app_send :: "bytes \<Rightarrow> 'l app_handler" where
  "app_send f p =
     (case packMessage f (length f) of
        Inl e \<Rightarrow> if e = LengthError then skip p else Inl e
      | Inr buf \<Rightarrow> cbind (ctl_send buf (length buf) (ap_controller p)) (\<lambda>acts. emit (map ApCtl acts) p))"

text \<open>The lambda given to \<open>set_on_close\<close> erases the session from the server's map.\<close>

fun app_route :: "u32 \<Rightarrow> cs_action \<Rightarrow> 'l app_handler" where
  "app_route i (CsToPeer conn f) = app_send f"
| "app_route i (CsUdp (CuToPeer conn f)) = app_send f"
| "app_route i (CsClosed j) = modify (\<lambda>p. p\<lparr>sv_sessions := removeAll j (sv_sessions p)\<rparr>)"
| "app_route i a = emit [ApSession i a]"

definition app_world :: "'l client_session \<Rightarrow> 'l app \<Rightarrow> 'l client_world" where
  "app_world c p = \<lparr>cs = c, mux = ap_mux p, draws = ap_draws p\<rparr>"

definition run_session :: "u32 \<Rightarrow> 'l cs_handler \<Rightarrow> 'l app_handler" where
  "run_session i h p =
     (case sv_heap p i of None \<Rightarrow> skip p
      | Some c \<Rightarrow> cbind (h (app_world c p)) (\<lambda>(w, acts).
          for_each (app_route i) acts
            (p\<lparr>ap_mux := mux w, ap_draws := draws w, sv_heap := (sv_heap p)(i \<mapsto> cs w)\<rparr>)))"

subsection \<open>The server of local connections\<close>

text \<open>
  Opening an acceptor that is open already throws, and so does a failure to bind or to listen
  (\<open>bound\<close>).
\<close>

definition socks_start :: "bool \<Rightarrow> u16 \<Rightarrow> 'l app_handler" where
  "socks_start bound port p =
     (let p1 = p\<lparr>sv_port := port\<rparr> in
      if sv_open p1 then Inl SystemError
      else if \<not> bound then Inl SystemError
      else Inr (p1\<lparr>sv_open := True\<rparr>, [ApListen (sv_port p1), ApAccept]))"

text \<open>The loop over the \<open>unordered_map\<close> visits the sessions in some order.\<close>

definition stop_session :: "u32 \<Rightarrow> 'l app_handler" where
  "stop_session i p =
     (if i \<in> set (sv_sessions p)
      then run_session i (andThen (modify (cs_upd (cs_set_on_close False))) cs_close) p
      else skip p)"

definition socks_stop :: "u32 list \<Rightarrow> 'l app_handler" where
  "socks_stop order p =
     andThen (if sv_open p then andThen (modify (\<lambda>p. p\<lparr>sv_open := False\<rparr>)) (emit [ApStopListening]) else skip)
       (for_each stop_session order) p"

text \<open>The accept handler; an accepted socket is adopted by the session's \<open>TcpSocket\<close>.\<close>

datatype accept_result = Aborted | AcceptError | Accepted

definition on_accept :: "'l llhttp \<Rightarrow> accept_result \<Rightarrow> 'l app_handler" where
  "on_accept ll r p =
     (case r of Aborted \<Rightarrow> skip p
      | AcceptError \<Rightarrow> emit [ApAccept] p
      | Accepted \<Rightarrow> (case create_session_id (sv_ids p) of (i, j) \<Rightarrow>
          let c = cs_set_on_close True (Socks5Session_new ll i) in
          andThen (run_session i cs_start) (emit [ApAccept])
            (p\<lparr>sv_ids := j, sv_heap := (sv_heap p)(i \<mapsto> c),
               sv_sessions := (if i \<in> set (sv_sessions p) then sv_sessions p else sv_sessions p @ [i])\<rparr>)))"

text \<open>
  The last pointer to a session goes away: not in the map any more, and its socket's callbacks have
  been released with the socket.
\<close>

definition destroy_session :: "u32 \<Rightarrow> 'l app_handler" where
  "destroy_session i p =
     (case sv_heap p i of None \<Rightarrow> skip p
      | Some c \<Rightarrow> if i \<in> set (sv_sessions p) \<or> cs_tcp c then skip p
          else andThen (run_session i cs_destroy) (modify (\<lambda>p. p\<lparr>sv_heap := (sv_heap p)(i := None)\<rparr>)) p)"

subsection \<open>Messages of the data channel\<close>

text \<open>
  What the multiplexer calls. The client sets no SYN handler, and its sessions no flow control
  callback; a callback whose session is gone does nothing.
\<close>

fun app_upcall :: "'l llhttp \<Rightarrow> (string \<Rightarrow> bytes option) \<Rightarrow> udp_env \<Rightarrow> u32 upcall \<Rightarrow> 'l app_handler" where
  "app_upcall ll v4 ue (CallData i d n prot) = run_session i (p2p_data ll v4 d n prot)"
| "app_upcall ll v4 ue (CallSynack i ok prot) = run_session i (p2p_synack ue ok prot)"
| "app_upcall ll v4 ue (CallClose i prot) = run_session i (p2p_close prot)"
| "app_upcall ll v4 ue (CallSyn sid host port prot) = skip"
| "app_upcall ll v4 ue (CallCtrl i ctrl prot) = skip"

definition app_on_message :: "'l llhttp \<Rightarrow> (string \<Rightarrow> bytes option) \<Rightarrow> udp_env \<Rightarrow> bytes \<Rightarrow> 'l app_handler" where
  "app_on_message ll v4 ue d p =
     cbind (unpackMessage d (length d)) (\<lambda>r. case r of None \<Rightarrow> skip p
       | Some (payload, len) \<Rightarrow> cbind (on_p2p_data (ap_mux p) payload (unat len)) (\<lambda>u.
           case u of None \<Rightarrow> skip p | Some c \<Rightarrow> app_upcall ll v4 ue c p))"

subsection \<open>The application\<close>

definition app_on_state :: "bool \<Rightarrow> u32 list \<Rightarrow> controller_state \<Rightarrow> 'l app_handler" where
  "app_on_state bound order st p =
     (case st of
        SessionController.Connected \<Rightarrow> socks_start bound (socks5_bind_port (ap_config p)) p
      | SessionController.Closed \<Rightarrow> andThen (socks_stop order)
          (\<lambda>p. if ap_close_cb p then emit [ApClosed] p else Inl BadFunctionCall) p)"

fun app_on_ctl ::
  "'l llhttp \<Rightarrow> (string \<Rightarrow> bytes option) \<Rightarrow> udp_env \<Rightarrow> bool \<Rightarrow> u32 list \<Rightarrow> ctl_action \<Rightarrow> 'l app_handler" where
  "app_on_ctl ll v4 ue bound order (Link (DataOut d)) = app_on_message ll v4 ue d"
| "app_on_ctl ll v4 ue bound order (StateChange st) = app_on_state bound order st"
| "app_on_ctl ll v4 ue bound order LoginSuccess = skip"
| "app_on_ctl ll v4 ue bound order (Link a) = emit [ApCtl (Link a)]"

text \<open>An event of the controller, whose calls come back here.\<close>

definition app_ctl_event ::
  "'l llhttp \<Rightarrow> (string \<Rightarrow> json option) \<Rightarrow> (json \<Rightarrow> string) \<Rightarrow> (string \<Rightarrow> bytes option) \<Rightarrow> udp_env \<Rightarrow> bool \<Rightarrow>
   u32 list \<Rightarrow> ctl_event \<Rightarrow> 'l app_handler" where
  "app_ctl_event ll parse dump v4 ue bound order e p =
     cbind (ctl_handle parse dump e (ap_controller p)) (\<lambda>(c, acts).
       for_each (app_on_ctl ll v4 ue bound order) acts (p\<lparr>ap_controller := c\<rparr>))"

definition app_start :: "client_config \<Rightarrow> 'l app_handler" where
  "app_start config p =
     (case ctl_connect_url (ws_server_ip config)
         (ctl_onStateChange (ctl_init (cc_server_password config) (ap_controller p))) of (c, acts) \<Rightarrow>
        Inr (p\<lparr>ap_config := config, ap_controller := c\<rparr>,
          ApConfigure (rtc_settings_of config) (ws_settings_of config) # map ApCtl acts))"

definition app_stop :: "u32 list \<Rightarrow> 'l app_handler" where
  "app_stop order =
     andThen (socks_stop order) (\<lambda>p. case ctl_disconnect (ap_controller p) of (c, acts) \<Rightarrow>
       Inr (p\<lparr>ap_controller := c\<rparr>, map ApCtl acts))"

end
