(* ===== verification/EndToEnd.thy ===== *)
theory EndToEnd
  imports NetworkRtcApp ServerSession
begin

text \<open>
  The two programs joined by their data channel. The channel is reliable and ordered, so what one end
  sends waits in a queue until the other end's \<open>onMessage\<close> runs; the applications, the targets and
  the two queues make their steps in any order.
\<close>

subsection \<open>The pair\<close>

record ('c, 's) pair =
  near :: "'c app"
  far :: "'s server_session"
  up :: "bytes list"
  down :: "bytes list"

datatype pair_action = Near app_action | Far ss_action

type_synonym ('c, 's) pair_handler = "(('c, 's) pair, pair_action) handler"

text \<open>A message given to the channel is queued; everything else is seen from outside.\<close>

fun from_near :: "app_action \<Rightarrow> ('c, 's) pair_handler" where
  "from_near (ApCtl (Link (DcSend d))) = modify (\<lambda>x. x\<lparr>up := up x @ [d]\<rparr>)"
| "from_near a = emit [Near a]"

fun from_far :: "ss_action \<Rightarrow> ('c, 's) pair_handler" where
  "from_far (SsCtl (Link (DcSend d))) = modify (\<lambda>x. x\<lparr>down := down x @ [d]\<rparr>)"
| "from_far a = emit [Far a]"

definition at_near :: "'c app_handler \<Rightarrow> ('c, 's) pair_handler" where
  "at_near h x = cbind (h (near x)) (\<lambda>(p, acts). for_each from_near acts (x\<lparr>near := p\<rparr>))"

definition at_far :: "'s ss_handler \<Rightarrow> ('c, 's) pair_handler" where
  "at_far h x = cbind (h (far x)) (\<lambda>(s, acts). for_each from_far acts (x\<lparr>far := s\<rparr>))"

text \<open>
  What happens to the pair: the local application's socket \<open>i\<close> is read or closed, a target's socket
  reports, the channel hands over the next message in either direction.
\<close>

datatype pair_event =
    AppReads u32 bytes nat
  | AppCloses u32
  | Target nat target_event
  | DeliverUp
  | DeliverDown

text \<open>What the libraries and the system answer.\<close>

record ('c, 's) libs =
  lb_near :: "'c llhttp"
  lb_far :: "'s llhttp"
  lb_v4 :: "string \<Rightarrow> bytes option"
  lb_udp :: udp_env
  lb_garbage :: u16

fun pair_step :: "('c, 's) libs \<Rightarrow> pair_event \<Rightarrow> ('c, 's) pair_handler" where
  "pair_step L (AppReads i d n) = at_near (run_session i (process_data (lb_near L) d n))"
| "pair_step L (AppCloses i) = at_near (run_session i on_tcp_close)"
| "pair_step L (Target a e) = at_far (ss_on_target a e)"
| "pair_step L DeliverUp = (\<lambda>x. case up x of [] \<Rightarrow> skip x
     | d # ds \<Rightarrow> at_far (ss_on_message (lb_far L) (lb_garbage L) d) (x\<lparr>up := ds\<rparr>))"
| "pair_step L DeliverDown = (\<lambda>x. case down x of [] \<Rightarrow> skip x
     | d # ds \<Rightarrow> at_near (app_on_message (lb_near L) (lb_v4 L) (lb_udp L) d) (x\<lparr>down := ds\<rparr>))"

subsection \<open>Frames on the channel\<close>

text \<open>The message that carries a frame, and the frames the channel can carry.\<close>

definition channel_msg :: "mux_msg \<Rightarrow> bytes" where
  "channel_msg m = le_store32 (htonl (word_of_nat (length (msg_frame m)))) @ msg_frame m"

definition fits :: "mux_msg \<Rightarrow> bool" where
  "fits m \<longleftrightarrow> wf_msg m \<and> length (msg_frame m) < 2 ^ 32"

lemma pack_channel_msg: "fits m \<Longrightarrow> packMessage (msg_frame m) (length (msg_frame m)) = Inr (channel_msg m)"
  by (simp add: fits_def channel_msg_def packMessage_eq)

lemma fits_small:
  "length d \<le> 8192 \<Longrightarrow> wf_protocol p \<Longrightarrow> fits (MData sid d p)"
  "wf_protocol p \<Longrightarrow> fits (MSynack sid ok p)" "wf_protocol p \<Longrightarrow> fits (MFin sid p)"
  "length h < 256 \<Longrightarrow> wf_protocol p \<Longrightarrow> fits (MSyn sid h port p)"
  by (simp_all add: fits_def encode_syn_payload_def)

text \<open>Each end's link is up when its data channel is open.\<close>

definition near_up :: "'c app \<Rightarrow> bool" where
  "near_up p \<longleftrightarrow> p2_dc (ct_p2p (ap_controller p)) = Some True"

definition far_up :: "'s server_session \<Rightarrow> bool" where
  "far_up s \<longleftrightarrow> p2_dc (ct_p2p (ss_controller s)) = Some True"

lemma app_send_msg:
  "fits m \<Longrightarrow> near_up p \<Longrightarrow> app_send (msg_frame m) p = Inr (p, [ApCtl (Link (DcSend (channel_msg m)))])"
  by (simp add: app_send_def pack_channel_msg near_up_def ctl_send_def P2PClient_send_def emit_def)

lemma ss_send_msg:
  "fits m \<Longrightarrow> far_up s \<Longrightarrow> ss_send (msg_frame m) s = Inr (s, [SsCtl (Link (DcSend (channel_msg m)))])"
  by (simp add: ss_send_def pack_channel_msg far_up_def ctl_send_def P2PClient_send_def emit_def)

lemma far_receives:
  assumes "wf_manager (manager (ss_mux s))" "fits m"
  shows "ss_on_message ll g (channel_msg m) s =
    (case deliver (abs_sessions (ss_mux s)) (on_syn_set (ss_mux s)) m of None \<Rightarrow> skip s
     | Some c \<Rightarrow> ss_upcall ll g c s)"
  using ss_on_message_msg [OF assms(1) _ pack_channel_msg [OF assms(2)]] assms(2) by (simp add: fits_def)

lemma near_receives:
  assumes "wf_manager (manager (ap_mux p))" "fits m"
  shows "app_on_message ll v4 ue (channel_msg m) p =
    (case deliver (abs_sessions (ap_mux p)) (on_syn_set (ap_mux p)) m of None \<Rightarrow> skip p
     | Some c \<Rightarrow> app_upcall ll v4 ue c p)"
proof -
  have "unat (word_of_nat (length (msg_frame m)) :: u32) = length (msg_frame m)"
    using assms(2) by (intro unat_data_len) (simp add: fits_def)
  then show ?thesis
    using unpack_pack_eq [OF pack_channel_msg [OF assms(2)]] on_p2p_data_deliver [OF assms(1), of m] assms(2)
    by (simp add: app_on_message_def fits_def)
qed

subsection \<open>A tunnel\<close>

text \<open>
  Session \<open>i\<close> of the client and tunnel \<open>a\<close> of the server, on stream \<open>sid\<close>. The protocols whose bytes are
  passed on as they are:
\<close>

definition raw :: "protocol \<Rightarrow> bool" where
  "raw prot \<longleftrightarrow> prot = Socks5Connect \<or> prot = HttpsConnect"

lemma rawE:
  assumes "raw prot"
  obtains "wf_protocol prot" "served prot"
  using assms by (auto simp: raw_def served_def)

text \<open>The session's stream object is the one the multiplexer finds, and its callbacks are the session's.\<close>

definition near_stream :: "'c app \<Rightarrow> u32 \<Rightarrow> u32 \<Rightarrow> sess_ptr \<Rightarrow> bool" where
  "near_stream p i sid q \<longleftrightarrow> wf_manager (manager (ap_mux p)) \<and> sessions (manager (ap_mux p)) sid = Some q \<and>
     store (manager (ap_mux p)) q =
       Some \<lparr>on_data = Some i, on_synack = Some i, on_close = Some i, on_data_ctrl = None, sess_stream_id = sid\<rparr>"

text \<open>\<open>fin\<close>: the other end has closed the stream.\<close>

definition near_session :: "bool \<Rightarrow> phase \<Rightarrow> u32 \<Rightarrow> u32 \<Rightarrow> protocol \<Rightarrow> 'c app \<Rightarrow> bool" where
  "near_session fin ph i sid prot p \<longleftrightarrow> near_up p \<and> send_func_set (ap_mux p) \<and>
     (\<exists>c q. sv_heap p i = Some c \<and> cs_tcp c \<and> cs_phase c = ph \<and> cs_protocol c = prot \<and>
        cs_session_id c = i \<and> cs_sess c = Some q \<and> near_stream p i sid q \<and>
        is_p2p_closed c = fin \<and> \<not> cs_is_closed c \<and> cs_on_close c)"

text \<open>\<open>cls\<close>: the class of the object that talks to the target.\<close>

definition far_object ::
  "'s target_class \<Rightarrow> bool \<Rightarrow> nat \<Rightarrow> u32 \<Rightarrow> protocol \<Rightarrow> 's server_session \<Rightarrow> bool" where
  "far_object cls fin a sid prot s \<longleftrightarrow> far_up s \<and> send_func_set (ss_mux s) \<and> ss_inv s \<and>
     abs_sessions (ss_mux s) sid = Some (bound_session a sid) \<and>
     (\<exists>t ob. ss_heap s a = Some t \<and> tn_stream_id t = sid \<and> tn_held t \<and> tn_protocol t = prot \<and>
        tn_obj t = Some ob \<and> si_class ob = cls \<and> si_p2p_closed ob = fin)"

abbreviation far_tunnel :: "bool \<Rightarrow> nat \<Rightarrow> u32 \<Rightarrow> protocol \<Rightarrow> 's server_session \<Rightarrow> bool" where
  "far_tunnel \<equiv> far_object TcpSession"

abbreviation near_side :: "phase \<Rightarrow> u32 \<Rightarrow> u32 \<Rightarrow> protocol \<Rightarrow> 'c app \<Rightarrow> bool" where
  "near_side \<equiv> near_session False"

abbreviation far_side :: "nat \<Rightarrow> u32 \<Rightarrow> protocol \<Rightarrow> 's server_session \<Rightarrow> bool" where
  "far_side \<equiv> far_tunnel False"

lemma near_sideE:
  assumes "near_session fin ph i sid prot p"
  obtains c q where "sv_heap p i = Some c" "cs_tcp c" "cs_phase c = ph" "cs_protocol c = prot"
    "cs_session_id c = i" "cs_sess c = Some q" "near_stream p i sid q" "near_up p" "send_func_set (ap_mux p)"
    "wf_manager (manager (ap_mux p))" "stream_id (app_world c p) = Inr sid" "is_p2p_closed c = fin"
    "\<not> cs_is_closed c" "cs_on_close c"
  using assms by (force simp: near_session_def near_stream_def stream_id_def app_world_def)

lemma far_sideE:
  assumes "far_object cls fin a sid prot s"
  obtains t ob where "ss_heap s a = Some t" "tn_stream_id t = sid" "tn_held t" "tn_protocol t = prot"
    "tn_obj t = Some ob" "si_class ob = cls" "si_send_data ob" "si_send_synack ob" "si_socket ob"
    "far_up s" "send_func_set (ss_mux s)" "wf_manager (manager (ss_mux s))"
    "abs_sessions (ss_mux s) sid = Some (bound_session a sid)" "tn_ok t" "ss_inv s"
    "si_p2p_closed ob = fin"
  using assms by (fastforce simp: far_object_def ss_inv_def heap_ok_def tn_ok_def)

lemma run_session_same:
  assumes "sv_heap p i = Some c" "h (app_world c p) = Inr (app_world c p, acts)"
  shows "run_session i h p = for_each (app_route i) acts p"
proof -
  have "p\<lparr>ap_mux := ap_mux p, ap_draws := ap_draws p, sv_heap := (sv_heap p)(i \<mapsto> c)\<rparr> = p"
    using assms(1) by (simp add: fun_upd_idem)
  with assms show ?thesis by (simp add: run_session_def app_world_def del: app.update_convs)
qed

lemma run_tunnel_same:
  assumes "ss_heap s a = Some t" "h \<lparr>tun = t, tun_mux = ss_mux s\<rparr> = Inr (\<lparr>tun = t, tun_mux = ss_mux s\<rparr>, acts)"
  shows "run_tunnel a h s = for_each (ss_route a) acts s"
proof -
  have "s\<lparr>ss_heap := (ss_heap s)(a \<mapsto> t), ss_mux := ss_mux s\<rparr> = s" using assms(1) by (simp add: fun_upd_idem)
  with assms show ?thesis by (simp add: run_tunnel_def)
qed

text \<open>The four steps of a datum: read at one end, handed over at the other, in both directions.\<close>

lemma near_reads:
  assumes "near_side SessionProtocol.Connected i sid prot p" "raw prot" "length b \<le> 8192"
  shows "run_session i (process_data ll (b @ stale) (length b)) p =
    Inr (p, [ApCtl (Link (DcSend (channel_msg (MData sid b prot))))])"
  using assms(1)
proof (rule near_sideE)
  fix c q assume c: "sv_heap p i = Some c" "cs_phase c = SessionProtocol.Connected" "cs_protocol c = prot" "near_up p"
    "send_func_set (ap_mux p)" "stream_id (app_world c p) = Inr sid"
  have "process_data ll (b @ stale) (length b) (app_world c p) =
      peer_data (b @ stale) (length b) (app_world c p)"
    using c(2,3) assms(2) by (auto simp: process_data_def app_world_def raw_def)
  also have "\<dots> = Inr (app_world c p, [CsToPeer (peer_conn_id (ap_mux p)) (msg_frame (MData sid b prot))])"
    using peer_data_run [OF c(6)] c(3,5) by (simp add: app_world_def)
  finally show ?thesis
    using run_session_same [OF c(1)] fits_small(1) [OF assms(3)] assms(2) c(4)
    by (auto simp: andThen_def skip_def app_send_msg [where m = "MData sid b prot", simplified] elim: rawE)
qed

lemma far_gets:
  assumes "far_side a sid prot s" "raw prot" "length b \<le> 8192"
  shows "ss_on_message ll g (channel_msg (MData sid b prot)) s = Inr (s, [SsSock a (SiTcp (EvSend b))])"
  using assms(1)
proof (rule far_sideE)
  fix t ob assume t: "ss_heap s a = Some t" "tn_held t" "tn_obj t = Some ob" "si_class ob = TcpSession"
    "si_socket ob" "wf_manager (manager (ss_mux s))" "abs_sessions (ss_mux s) sid = Some (bound_session a sid)"
  let ?w = "\<lparr>tun = t, tun_mux = ss_mux s\<rparr>"
  have "tn_upd (\<lambda>t. t\<lparr>tn_obj := Some ob\<rparr>) ?w = ?w" using t(3) by (simp add: tn_upd_def)
  then have "p2p_revData ll g b (length b) prot ?w = Inr (?w, [TnSock (SiTcp (EvSend b))])"
    using t assms(2) by (auto simp: p2p_revData_def raw_def through_def on_obj_def revP2pData_def
        TcpSession_revP2pData_def rd_range_def si_sock_def emit_def andThen_def skip_def)
  from run_tunnel_same [OF t(1), where h = "p2p_revData ll g b (length b) prot", OF this]
  show ?thesis
    using far_receives [OF t(6) fits_small(1) [OF assms(3)]] t(7) assms(2)
    by (auto simp: bound_session_def andThen_def emit_def skip_def elim: rawE)
qed

lemma far_reads:
  assumes "far_object cls False a sid prot s" "wf_protocol prot" "length b \<le> 8192"
  shows "ss_on_target a (TevData (b @ stale) (length b)) s =
    Inr (s, [SsCtl (Link (DcSend (channel_msg (MData sid b prot))))])"
  using assms(1)
proof (rule far_sideE)
  fix t ob assume t: "ss_heap s a = Some t" "tn_stream_id t = sid" "tn_protocol t = prot" "tn_obj t = Some ob"
    "si_send_data ob" "far_up s" "send_func_set (ss_mux s)"
  let ?w = "\<lparr>tun = t, tun_mux = ss_mux s\<rparr>"
  have "tn_upd (\<lambda>t. t\<lparr>tn_obj := Some ob\<rparr>) ?w = ?w" using t(4) by (simp add: tn_upd_def)
  then have "tn_on_target (TevData (b @ stale) (length b)) ?w =
      Inr (?w, [TnToPeer (peer_conn_id (ss_mux s)) (msg_frame (MData sid b prot))])"
    using t by (simp add: tn_on_target_def on_obj_def rd_range_def call_bound_def send_data_def mux_send_def
        tn_peer_def emit_def andThen_def skip_def)
  from run_tunnel_same [OF t(1), where h = "tn_on_target (TevData (b @ stale) (length b))", OF this]
  show ?thesis
    using fits_small(1) [OF assms(3)] assms(2) t(6)
    by (simp add: ss_on_target_def andThen_def skip_def ss_send_msg [where m = "MData sid b prot", simplified])
qed

lemma near_gets:
  assumes "near_side SessionProtocol.Connected i sid prot p" "raw prot" "length b \<le> 8192"
  shows "app_on_message ll v4 ue (channel_msg (MData sid b prot)) p = Inr (p, [ApSession i (CsTcp (EvSend b))])"
  using assms(1)
proof (rule near_sideE)
  fix c q assume c: "sv_heap p i = Some c" "cs_tcp c" "near_stream p i sid q" "wf_manager (manager (ap_mux p))"
  have "p2p_data ll v4 b (length b) prot (app_world c p) = Inr (app_world c p, [CsTcp (EvSend b)])"
    using c(2) assms(2) by (auto simp: p2p_data_def raw_def sock_send_n_def sock_send_run app_world_def)
  note run = run_session_same [OF c(1), where h = "p2p_data ll v4 b (length b) prot", OF this]
  have "abs_sessions (ap_mux p) sid = Some \<lparr>on_data = Some i, on_synack = Some i, on_close = Some i,
      on_data_ctrl = None, sess_stream_id = sid\<rparr>"
    using c(3) by (simp add: near_stream_def abs_sessions_def find_session_def)
  then show ?thesis
    using near_receives [OF c(4) fits_small(1) [OF assms(3)]] assms(2) run
    by (auto simp: andThen_def emit_def skip_def elim: rawE)
qed

subsection \<open>The pipe\<close>

text \<open>Runs of a system that follows an abstract one step by step.\<close>

fun arun :: "('e \<Rightarrow> 'a \<Rightarrow> 'a \<times> 'o list) \<Rightarrow> 'e list \<Rightarrow> 'a \<Rightarrow> 'a \<times> 'o list" where
  "arun astep [] a = (a, [])"
| "arun astep (e # es) a =
     (fst (arun astep es (fst (astep e a))), snd (astep e a) @ snd (arun astep es (fst (astep e a))))"

locale simulation =
  fixes step :: "'e \<Rightarrow> ('s, 'o) handler"
    and astep :: "'e \<Rightarrow> 'a \<Rightarrow> 'a \<times> 'o list"
    and rel :: "'s \<Rightarrow> 'a \<Rightarrow> bool"
    and allowed :: "'e \<Rightarrow> bool"
  assumes simulates: "rel s a \<Longrightarrow> allowed e \<Longrightarrow> \<exists>s'. step e s = Inr (s', snd (astep e a)) \<and> rel s' (fst (astep e a))"
begin

lemma runs:
  "rel s a \<Longrightarrow> \<forall>e\<in>set es. allowed e \<Longrightarrow>
     \<exists>s'. for_each step es s = Inr (s', snd (arun astep es a)) \<and> rel s' (fst (arun astep es a))"
proof (induction es arbitrary: s a)
  case (Cons e es)
  from simulates [OF Cons.prems(1), of e] Cons.prems(2) obtain s1 where
    1: "step e s = Inr (s1, snd (astep e a))" "rel s1 (fst (astep e a))" by auto
  from Cons.IH [OF 1(2)] Cons.prems(2) obtain s2 where
    "for_each step es s1 = Inr (s2, snd (arun astep es (fst (astep e a))))"
    "rel s2 (fst (arun astep es (fst (astep e a))))" by auto
  with 1 show ?case by (auto simp: andThen_def)
qed (simp add: skip_def)

end

text \<open>The abstract tunnel: one queue of segments in each direction.\<close>

record pipe =
  to_target :: "bytes list"
  to_app :: "bytes list"

fun pipe_step :: "u32 \<Rightarrow> nat \<Rightarrow> pair_event \<Rightarrow> pipe \<Rightarrow> pipe \<times> pair_action list" where
  "pipe_step i a (AppReads j d n) q = (q\<lparr>to_target := to_target q @ [take n d]\<rparr>, [])"
| "pipe_step i a (Target b (TevData d n)) q = (q\<lparr>to_app := to_app q @ [take n d]\<rparr>, [])"
| "pipe_step i a DeliverUp q = (case to_target q of [] \<Rightarrow> (q, [])
     | b # bs \<Rightarrow> (q\<lparr>to_target := bs\<rparr>, [Far (SsSock a (SiTcp (EvSend b)))]))"
| "pipe_step i a DeliverDown q = (case to_app q of [] \<Rightarrow> (q, [])
     | b # bs \<Rightarrow> (q\<lparr>to_app := bs\<rparr>, [Near (ApSession i (CsTcp (EvSend b)))]))"
| "pipe_step i a _ q = (q, [])"

text \<open>Reads of the two sockets (8192 bytes at most, of a buffer that may hold more) and deliveries.\<close>

fun pipe_event :: "u32 \<Rightarrow> nat \<Rightarrow> pair_event \<Rightarrow> bool" where
  "pipe_event i a (AppReads j d n) = (j = i \<and> n \<le> length d \<and> n \<le> 8192)"
| "pipe_event i a (Target b (TevData d n)) = (b = a \<and> n \<le> length d \<and> n \<le> 8192)"
| "pipe_event i a DeliverUp = True"
| "pipe_event i a DeliverDown = True"
| "pipe_event i a _ = False"

definition data_msgs :: "u32 \<Rightarrow> protocol \<Rightarrow> bytes list \<Rightarrow> bytes list" where
  "data_msgs sid prot bs = map (\<lambda>b. channel_msg (MData sid b prot)) bs"

definition carries :: "u32 \<Rightarrow> nat \<Rightarrow> u32 \<Rightarrow> protocol \<Rightarrow> ('c, 's) pair \<Rightarrow> pipe \<Rightarrow> bool" where
  "carries i a sid prot x q \<longleftrightarrow> raw prot \<and> near_side SessionProtocol.Connected i sid prot (near x) \<and>
     far_side a sid prot (far x) \<and>
     up x = data_msgs sid prot (to_target q) \<and> down x = data_msgs sid prot (to_app q) \<and>
     (\<forall>b\<in>set (to_target q) \<union> set (to_app q). length b \<le> 8192)"

lemma carries_step:
  assumes "carries i a sid prot x q" "pipe_event i a e"
  shows "\<exists>x'. pair_step L e x = Inr (x', snd (pipe_step i a e q)) \<and> carries i a sid prot x' (fst (pipe_step i a e q))"
proof -
  from assms(1) have x: "raw prot" "near_side SessionProtocol.Connected i sid prot (near x)"
    "far_side a sid prot (far x)" "up x = data_msgs sid prot (to_target q)" "down x = data_msgs sid prot (to_app q)"
    "\<forall>b\<in>set (to_target q) \<union> set (to_app q). length b \<le> 8192" by (simp_all add: carries_def)
  show ?thesis
  proof (cases "(i, a, e)" rule: pipe_event.cases)
    case (1 i' a' j d n)
    with assms(2) have n: "j = i" "n \<le> length d" "n \<le> 8192" by auto
    then have "length (take n d) = n" "length (take n d) \<le> 8192" by simp_all
    with near_reads [OF x(2,1) this(2), of "lb_near L" "drop n d"] 1 n x show ?thesis
      by (auto simp: at_near_def andThen_def modify_def skip_def carries_def data_msgs_def)
  next
    case (2 i' a' b d n)
    with assms(2) have n: "b = a" "n \<le> length d" "n \<le> 8192" by auto
    then have "length (take n d) = n" "length (take n d) \<le> 8192" by simp_all
    moreover have "wf_protocol prot" using x(1) by (auto elim: rawE)
    ultimately show ?thesis
      using far_reads [OF x(3), of "take n d" "drop n d"] 2 n x
      by (auto simp: at_far_def andThen_def modify_def skip_def carries_def data_msgs_def)
  next
    case 3
    show ?thesis
    proof (cases "to_target q")
      case Nil
      with 3 x show ?thesis by (simp add: skip_def carries_def data_msgs_def)
    next
      case (Cons b bs)
      with x(6) have "length b \<le> 8192" by simp
      from far_gets [OF x(3,1) this, of "lb_far L" "lb_garbage L"] Cons 3 x show ?thesis
        by (auto simp: at_far_def andThen_def emit_def skip_def carries_def data_msgs_def)
    qed
  next
    case 4
    show ?thesis
    proof (cases "to_app q")
      case Nil
      with 4 x show ?thesis by (simp add: skip_def carries_def data_msgs_def)
    next
      case (Cons b bs)
      with x(6) have "length b \<le> 8192" by simp
      from near_gets [OF x(2,1) this, of "lb_near L" "lb_v4 L" "lb_udp L"] Cons 4 x show ?thesis
        by (auto simp: at_near_def andThen_def emit_def skip_def carries_def data_msgs_def)
    qed
  qed (use assms(2) in simp_all)
qed

interpretation tunnel_pipe: simulation "pair_step L" "pipe_step i a" "carries i a sid prot" "pipe_event i a"
  for L i a sid prot
  by unfold_locales (rule carries_step)

text \<open>What goes in and what comes out, as segments in order.\<close>

fun app_segments :: "pair_event list \<Rightarrow> bytes list" where
  "app_segments [] = []"
| "app_segments (AppReads i d n # es) = take n d # app_segments es"
| "app_segments (e # es) = app_segments es"

fun target_segments :: "pair_event list \<Rightarrow> bytes list" where
  "target_segments [] = []"
| "target_segments (Target a (TevData d n) # es) = take n d # target_segments es"
| "target_segments (e # es) = target_segments es"

fun sent_to_target :: "nat \<Rightarrow> pair_action list \<Rightarrow> bytes list" where
  "sent_to_target a [] = []"
| "sent_to_target a (Far (SsSock b (SiTcp (EvSend d))) # acts) = (if b = a then [d] else []) @ sent_to_target a acts"
| "sent_to_target a (x # acts) = sent_to_target a acts"

fun sent_to_app :: "u32 \<Rightarrow> pair_action list \<Rightarrow> bytes list" where
  "sent_to_app i [] = []"
| "sent_to_app i (Near (ApSession j (CsTcp (EvSend d))) # acts) = (if j = i then [d] else []) @ sent_to_app i acts"
| "sent_to_app i (x # acts) = sent_to_app i acts"

lemma pipe_conserves:
  "\<forall>e\<in>set es. pipe_event i a e \<Longrightarrow>
     sent_to_target a (snd (arun (pipe_step i a) es q)) @ to_target (fst (arun (pipe_step i a) es q)) =
       to_target q @ app_segments es \<and>
     sent_to_app i (snd (arun (pipe_step i a) es q)) @ to_app (fst (arun (pipe_step i a) es q)) =
       to_app q @ target_segments es"
proof (induction es arbitrary: q)
  case (Cons e es)
  note IH = Cons.IH [of "fst (pipe_step i a e q)"]
  from Cons.prems have "pipe_event i a e" by simp
  then show ?case
    using IH Cons.prems
    by (cases "(i, a, e)" rule: pipe_event.cases) (auto split: list.splits)
qed simp

subsection \<open>Opening a tunnel\<close>

lemma run_session_run:
  assumes "sv_heap p i = Some c" "h (app_world c p) = Inr (w, acts)"
  shows "run_session i h p = for_each (app_route i) acts
    (p\<lparr>ap_mux := mux w, ap_draws := draws w, sv_heap := (sv_heap p)(i \<mapsto> cs w)\<rparr>)"
  using assms by (simp add: run_session_def)

text \<open>A session of the client at a phase before it has a stream.\<close>

definition near_fresh :: "phase \<Rightarrow> u32 \<Rightarrow> protocol \<Rightarrow> 'c app \<Rightarrow> bool" where
  "near_fresh ph i prot p \<longleftrightarrow> near_up p \<and> send_func_set (ap_mux p) \<and> wf_manager (manager (ap_mux p)) \<and>
     (\<exists>c. sv_heap p i = Some c \<and> cs_tcp c \<and> cs_phase c = ph \<and> cs_protocol c = prot \<and> cs_session_id c = i \<and>
        \<not> is_p2p_closed c \<and> \<not> cs_is_closed c \<and> cs_on_close c)"

lemma near_greets:
  assumes "near_fresh WaitGreetingVersion i prot p"
  shows "\<exists>p'. run_session i (process_data ll ([5, 1, m] @ stale) 3) p =
      Inr (p', [ApSession i (CsTcp (EvSend [0x05, 0x00]))]) \<and>
    near_fresh WaitSocksTCP i Socks5Connect p' \<and> ap_mux p' = ap_mux p \<and> ap_draws p' = ap_draws p"
proof -
  from assms obtain c where c: "sv_heap p i = Some c" "cs_tcp c" "cs_phase c = WaitGreetingVersion"
    "cs_session_id c = i" "\<not> is_p2p_closed c" "\<not> cs_is_closed c" "cs_on_close c" by (auto simp: near_fresh_def)
  let ?w = "app_world c p"
  have w: "cs_phase (cs ?w) = WaitGreetingVersion" "cs_tcp (cs ?w)" using c by (simp_all add: app_world_def)
  have "process_data ll ([5, 1, m] @ stale) 3 ?w =
      Inr (cs_upd (\<lambda>s. s\<lparr>cs_phase := WaitSocksTCP, cs_protocol := Socks5Connect\<rparr>) ?w, [CsTcp (EvSend [0x05, 0x00])])"
    by (rule process_socks [OF greeting_loop [OF w refl]]) (simp_all add: w)
  from run_session_run [OF c(1), where h = "process_data ll ([5, 1, m] @ stale) 3", OF this] assms c
  show ?thesis by (auto simp: near_fresh_def near_up_def app_world_def emit_def andThen_def skip_def)
qed

lemma near_requests:
  assumes "near_fresh WaitSocksTCP i Socks5Connect p" "wf_addr addr"
    and "gen_stream_id (manager (ap_mux p)) (ap_draws p) = Some (sid, ds)"
  shows "\<exists>p'. run_session i (process_data ll (socks_request 1 addr port @ stale) (length (socks_request 1 addr port))) p =
      Inr (p', [ApCtl (Link (DcSend (channel_msg (MSyn sid (addr_text addr) port Socks5Connect))))]) \<and>
    near_side Connecting i sid Socks5Connect p'"
proof -
  from assms(1) obtain c where c: "sv_heap p i = Some c" "cs_tcp c" "cs_phase c = WaitSocksTCP"
    "cs_protocol c = Socks5Connect" "cs_session_id c = i" "near_up p" "send_func_set (ap_mux p)"
    "wf_manager (manager (ap_mux p))" "\<not> is_p2p_closed c" "\<not> cs_is_closed c" "cs_on_close c"
    by (auto simp: near_fresh_def)
  let ?w = "app_world c p" and ?r = "socks_request 1 addr port"
  have w: "cs_phase (cs ?w) = WaitSocksTCP \<or> cs_phase (cs ?w) = WaitSocksUDP"
    "gen_stream_id (manager (mux ?w)) (draws ?w) = Some (sid, ds)" "send_func_set (mux ?w)"
    using c assms(3) by (simp_all add: app_world_def)
  have "2 < length ?r" by (cases addr) (simp_all add: socks_request_def)
  note rr = request_run [where stale = stale, OF w(1) this assms(2) refl w(2,3)]
  obtain w' where w': "consume_loop (?r @ stale) (length ?r) 0 ?w = Inr (True, w', [CsToPeer (peer_conn_id (mux ?w))
       (make_frame sid SYN (cs_protocol (cs ?w)) (encode_syn_payload (addr_text addr) port))])"
    "cs w' = (cs ?w)\<lparr>cs_target_host := addr_text addr, cs_target_port := port,
       cs_sess := Some (next_ptr (manager (mux ?w))), cs_phase := Connecting\<rparr>"
    "store (manager (mux w')) (next_ptr (manager (mux ?w))) =
       Some \<lparr>on_data = Some (cs_session_id (cs ?w)), on_synack = Some (cs_session_id (cs ?w)),
         on_close = Some (cs_session_id (cs ?w)), on_data_ctrl = None, sess_stream_id = sid\<rparr>"
    "sessions (manager (mux w')) = (sessions (manager (mux ?w)))(sid \<mapsto> next_ptr (manager (mux ?w)))"
    "send_func_set (mux w')" "wf_manager (manager (mux w'))"
    by (rule rr) (simp_all add: app_world_def c(8))
  have "process_data ll (?r @ stale) (length ?r) ?w = Inr (w', [CsToPeer (peer_conn_id (mux ?w))
      (msg_frame (MSyn sid (addr_text addr) port Socks5Connect))])"
    using process_socks [OF w'(1)] w'(2) c(3,4) by (simp add: app_world_def)
  note run = run_session_run [OF c(1), where h = "process_data ll (?r @ stale) (length ?r)", OF this]
  have "fits (MSyn sid (addr_text addr) port Socks5Connect)"
    using addr_text_short [OF assms(2)] by (intro fits_small) simp_all
  note send = app_send_msg [OF this]
  let ?p = "p\<lparr>ap_mux := mux w', ap_draws := draws w', sv_heap := (sv_heap p)(i \<mapsto> cs w')\<rparr>"
  have up: "near_up ?p" using c(6) by (simp add: near_up_def)
  have "near_side Connecting i sid Socks5Connect ?p"
    using c w'(2-6) up by (simp add: near_session_def near_stream_def app_world_def)
  with run send [OF up] show ?thesis by (auto simp: andThen_def skip_def simp del: msg_frame.simps)
qed

lemma far_opens:
  assumes "ss_inv s" "far_up s" "send_func_set (ss_mux s)" "on_syn_set (ss_mux s)" "served prot" "length host < 256"
  shows "\<exists>s' ob. ss_on_message ll g (channel_msg (MSyn sid host port prot)) s =
      Inr (s', [SsSock (ss_next s) (first_call prot host port)]) \<and> target_of ll prot = Some ob \<and>
    far_object (si_class ob) False (ss_next s) sid prot s'"
proof -
  have p: "wf_protocol prot" using assms(5) by (auto simp: served_def)
  have wf: "wf_manager (manager (ss_mux s))" using assms(1) by (simp add: ss_inv_def)
  have cls: "si_class (bind_all ob) = si_class ob \<and> \<not> si_p2p_closed (bind_all ob)" if "target_of ll prot = Some ob" for ob
    using that by (auto simp: target_of_def SessionInterface_new_def HttpSession_new_def bind_all_def
        bind_send_sync_def bind_send_finish_def bind_send_data_def bind_close_func_def split: protocol.splits)
  from ss_on_syn_served [OF assms(1,5), of ll sid host port] obtain s' where s':
    "ss_on_syn ll sid host port prot s = Inr (s', [SsSock (ss_next s) (first_call prot host port)])" "ss_inv s'"
    "abs_sessions (ss_mux s') sid = Some (bound_session (ss_next s) sid)" "ss_controller s' = ss_controller s"
    "send_func_set (ss_mux s') = send_func_set (ss_mux s)"
    "\<exists>t ob. ss_heap s' (ss_next s) = Some t \<and> tn_protocol t = prot \<and> tn_ok t \<and> tn_held t \<and> tn_stream_id t = sid \<and>
      tn_obj t = Some (bind_all ob) \<and> target_of ll prot = Some ob" by blast
  then obtain ob where "target_of ll prot = Some ob" "far_object (si_class ob) False (ss_next s) sid prot s'"
    using assms(2,3) cls by (auto simp: far_object_def far_up_def)
  moreover have "ss_on_message ll g (channel_msg (MSyn sid host port prot)) s =
      Inr (s', [SsSock (ss_next s) (first_call prot host port)])"
    using far_receives [OF wf fits_small(4) [OF assms(6) p]] s'(1) assms(4) by simp
  ultimately show ?thesis by blast
qed

lemma far_opens_raw:
  assumes "ss_inv s" "far_up s" "send_func_set (ss_mux s)" "on_syn_set (ss_mux s)" "raw prot" "length host < 256"
  shows "\<exists>s'. ss_on_message ll g (channel_msg (MSyn sid host port prot)) s =
      Inr (s', [SsSock (ss_next s) (SiTcp (EvConnect host port))]) \<and> far_side (ss_next s) sid prot s'"
proof -
  have "served prot" using assms(5) by (auto elim: rawE)
  from far_opens [OF assms(1-4) this assms(6), of ll g sid port] obtain s' ob where
    s': "ss_on_message ll g (channel_msg (MSyn sid host port prot)) s =
        Inr (s', [SsSock (ss_next s) (first_call prot host port)])" "target_of ll prot = Some ob"
      "far_object (si_class ob) False (ss_next s) sid prot s'" by blast
  moreover have "si_class ob = TcpSession" "first_call prot host port = SiTcp (EvConnect host port)"
    using s'(2) assms(5) by (auto simp: raw_def target_of_def SessionInterface_new_def first_call_def)
  ultimately show ?thesis by auto
qed

lemma far_connected:
  assumes "far_object cls False a sid prot s" "wf_protocol prot"
  shows "ss_on_target a (TevConnected ok) s = Inr (s, [SsCtl (Link (DcSend (channel_msg (MSynack sid ok prot))))])"
  using assms(1)
proof (rule far_sideE)
  fix t ob assume t: "ss_heap s a = Some t" "tn_stream_id t = sid" "tn_protocol t = prot" "tn_obj t = Some ob"
    "si_send_synack ob" "far_up s" "send_func_set (ss_mux s)"
  let ?w = "\<lparr>tun = t, tun_mux = ss_mux s\<rparr>"
  have "tn_upd (\<lambda>t. t\<lparr>tn_obj := Some ob\<rparr>) ?w = ?w" using t(4) by (simp add: tn_upd_def)
  then have "tn_on_target (TevConnected ok) ?w =
      Inr (?w, [TnToPeer (peer_conn_id (ss_mux s)) (msg_frame (MSynack sid ok prot))])"
    using t by (simp add: tn_on_target_def on_obj_def call_bound_def send_synack_def mux_send_def
        tn_peer_def emit_def andThen_def skip_def)
  note run = run_tunnel_same [OF t(1), where h = "tn_on_target (TevConnected ok)", OF this]
  from ss_send_msg [OF fits_small(2) [OF assms(2)] t(6)] run show ?thesis
    by (simp add: ss_on_target_def andThen_def skip_def del: msg_frame.simps)
qed

definition connect_reply :: "bool \<Rightarrow> protocol \<Rightarrow> bytes" where
  "connect_reply ok prot =
     (if prot = Socks5Connect then [0x05, if ok then 0x00 else 0x05, 0x00, 0x01, 0, 0, 0, 0, 0, 0]
      else bytes_of_string (if ok then http_ok_reply else http_fail_reply))"

lemma near_connected:
  assumes "near_side Connecting i sid prot p" "raw prot"
  shows "\<exists>p'. app_on_message ll v4 ue (channel_msg (MSynack sid ok prot)) p =
      Inr (p', ApSession i (CsTcp (EvSend (connect_reply ok prot))) # (if ok then [] else [ApSession i (CsTcp EvClose)])) \<and>
    near_side (if ok then SessionProtocol.Connected else SessionProtocol.Closed) i sid prot p'"
  using assms(1)
proof (rule near_sideE)
  fix c q assume c: "sv_heap p i = Some c" "cs_tcp c" "cs_protocol c = prot" "near_stream p i sid q"
    "wf_manager (manager (ap_mux p))"
  let ?ph = "if ok then SessionProtocol.Connected else SessionProtocol.Closed"
  let ?acts = "CsTcp (EvSend (connect_reply ok prot)) # (if ok then [] else [CsTcp EvClose])"
  have "p2p_synack ue ok prot (app_world c p) = Inr (cs_upd (\<lambda>s. s\<lparr>cs_phase := ?ph\<rparr>) (app_world c p), ?acts)"
    using c(2) assms(2) by (auto simp: p2p_synack_def synack_reply_def raw_def send_socks_reply_def
        https_connected_def connect_reply_def sock_send_run on_socket_def emit_def andThen_def set_phase_run app_world_def)
  note run = run_session_run [OF c(1), where h = "p2p_synack ue ok prot", OF this]
  have wf: "wf_protocol prot" using assms(2) by (auto elim: rawE)
  have "abs_sessions (ap_mux p) sid = Some \<lparr>on_data = Some i, on_synack = Some i, on_close = Some i,
      on_data_ctrl = None, sess_stream_id = sid\<rparr>"
    using c(4) by (simp add: near_stream_def abs_sessions_def find_session_def)
  then have "app_on_message ll v4 ue (channel_msg (MSynack sid ok prot)) p = run_session i (p2p_synack ue ok prot) p"
    using near_receives [OF c(5) fits_small(2) [OF wf]] by simp
  also have "\<dots> = Inr (p\<lparr>sv_heap := (sv_heap p)(i \<mapsto> c\<lparr>cs_phase := ?ph\<rparr>)\<rparr>, map (ApSession i) ?acts)"
    unfolding run by (simp add: app_world_def emit_def andThen_def skip_def)
  finally show ?thesis
    using assms(1) c(1) by (auto simp: near_session_def near_stream_def near_up_def)
qed

text \<open>From the SYN on, whatever the request was.\<close>

lemma syn_opens:
  assumes "near_side Connecting i sid prot (near x)" "raw prot" "length host < 256"
    and "ss_reach (lb_far L) (far x)" "far_up (far x)" "send_func_set (ss_mux (far x))" "on_syn_set (ss_mux (far x))"
    and "up x = [channel_msg (MSyn sid host port prot)]" "down x = []"
  shows "\<exists>x'. for_each (pair_step L) [DeliverUp, Target (ss_next (far x)) (TevConnected ok), DeliverDown] x =
    Inr (x', [Far (SsSock (ss_next (far x)) (SiTcp (EvConnect host port))),
      Near (ApSession i (CsTcp (EvSend (connect_reply ok prot))))] @
      (if ok then [] else [Near (ApSession i (CsTcp EvClose))])) \<and>
    (ok \<longrightarrow> carries i (ss_next (far x)) sid prot x' \<lparr>to_target = [], to_app = []\<rparr>)"
proof -
  let ?a = "ss_next (far x)"
  from far_opens_raw [OF ss_reach_inv [OF assms(4)] assms(5-7,2,3), of "lb_far L"]
  obtain s1 where s1: "ss_on_message (lb_far L) (lb_garbage L) (channel_msg (MSyn sid host port prot)) (far x) =
      Inr (s1, [SsSock ?a (SiTcp (EvConnect host port))])" "far_side ?a sid prot s1" by blast
  have "wf_protocol prot" using assms(2) by (auto elim: rawE)
  note s2 = far_connected [OF s1(2) this, of ok]
  from near_connected [OF assms(1,2), of "lb_near L" "lb_v4 L" "lb_udp L" ok] obtain p3 where
    p3: "app_on_message (lb_near L) (lb_v4 L) (lb_udp L) (channel_msg (MSynack sid ok prot)) (near x) =
        Inr (p3, ApSession i (CsTcp (EvSend (connect_reply ok prot))) #
          (if ok then [] else [ApSession i (CsTcp EvClose)]))"
      "near_side (if ok then SessionProtocol.Connected else SessionProtocol.Closed) i sid prot p3" by blast
  have "for_each (pair_step L) [DeliverUp, Target ?a (TevConnected ok), DeliverDown] x =
    Inr (x\<lparr>near := p3, far := s1, up := [], down := []\<rparr>,
      [Far (SsSock ?a (SiTcp (EvConnect host port))), Near (ApSession i (CsTcp (EvSend (connect_reply ok prot))))] @
      (if ok then [] else [Near (ApSession i (CsTcp EvClose))]))"
    using s1(1) s2 p3(1) assms(8,9)
    by (simp add: at_near_def at_far_def andThen_def emit_def modify_def skip_def)
  then show ?thesis
    using assms(2) p3(2) s1(2) by (auto simp: carries_def data_msgs_def)
qed

text \<open>The whole exchange, for SOCKS5.\<close>

lemma socks_opens:
  assumes "near_fresh WaitGreetingVersion i prot (near x)" "wf_addr addr"
    and "gen_stream_id (manager (ap_mux (near x))) (ap_draws (near x)) = Some (sid, ds)"
    and "ss_reach (lb_far L) (far x)" "far_up (far x)" "send_func_set (ss_mux (far x))" "on_syn_set (ss_mux (far x))"
    and "up x = []" "down x = []"
  shows "\<exists>x'. for_each (pair_step L) [AppReads i ([5, 1, m] @ stale1) 3,
      AppReads i (socks_request 1 addr port @ stale2) (length (socks_request 1 addr port)),
      DeliverUp, Target (ss_next (far x)) (TevConnected ok), DeliverDown] x =
    Inr (x', [Near (ApSession i (CsTcp (EvSend [5, 0]))),
      Far (SsSock (ss_next (far x)) (SiTcp (EvConnect (addr_text addr) port))),
      Near (ApSession i (CsTcp (EvSend [5, if ok then 0 else 5, 0, 1, 0, 0, 0, 0, 0, 0])))] @
      (if ok then [] else [Near (ApSession i (CsTcp EvClose))])) \<and>
    (ok \<longrightarrow> carries i (ss_next (far x)) sid Socks5Connect x' \<lparr>to_target = [], to_app = []\<rparr>)"
proof -
  have raw: "raw Socks5Connect" by (simp add: raw_def)
  let ?a = "ss_next (far x)"
  from near_greets [OF assms(1), of "lb_near L" m stale1] obtain p1 where
    p1: "run_session i (process_data (lb_near L) ([5, 1, m] @ stale1) 3) (near x) =
        Inr (p1, [ApSession i (CsTcp (EvSend [0x05, 0x00]))])" "near_fresh WaitSocksTCP i Socks5Connect p1"
      "ap_mux p1 = ap_mux (near x)" "ap_draws p1 = ap_draws (near x)" by blast
  with near_requests [OF p1(2) assms(2), of sid ds "lb_near L" port stale2] assms(3) obtain p2 where
    p2: "run_session i (process_data (lb_near L) (socks_request 1 addr port @ stale2)
          (length (socks_request 1 addr port))) p1 =
        Inr (p2, [ApCtl (Link (DcSend (channel_msg (MSyn sid (addr_text addr) port Socks5Connect))))])"
      "near_side Connecting i sid Socks5Connect p2" by auto
  let ?x = "x\<lparr>near := p2, up := [channel_msg (MSyn sid (addr_text addr) port Socks5Connect)]\<rparr>"
  have "near_side Connecting i sid Socks5Connect (near ?x)" using p2(2) by simp
  from syn_opens [OF this raw addr_text_short [OF assms(2)], of L port ok] assms(4-9) obtain x' where
    x': "for_each (pair_step L) [DeliverUp, Target ?a (TevConnected ok), DeliverDown] ?x =
    Inr (x', [Far (SsSock ?a (SiTcp (EvConnect (addr_text addr) port))),
      Near (ApSession i (CsTcp (EvSend (connect_reply ok Socks5Connect))))] @
      (if ok then [] else [Near (ApSession i (CsTcp EvClose))]))"
    "ok \<longrightarrow> carries i ?a sid Socks5Connect x' \<lparr>to_target = [], to_app = []\<rparr>" by auto
  have "pair_step L (AppReads i ([5, 1, m] @ stale1) 3) x =
      Inr (x\<lparr>near := p1\<rparr>, [Near (ApSession i (CsTcp (EvSend [5, 0])))])"
    using p1(1) by (simp add: at_near_def andThen_def emit_def skip_def)
  moreover have "pair_step L (AppReads i (socks_request 1 addr port @ stale2) (length (socks_request 1 addr port)))
      (x\<lparr>near := p1\<rparr>) = Inr (?x, [])"
    using p2(1) assms(8) by (simp add: at_near_def andThen_def modify_def skip_def)
  ultimately show ?thesis
    using x' by (simp add: andThen_def connect_reply_def del: pair_step.simps)
qed

subsection \<open>Closing a tunnel\<close>

lemma near_closes:
  assumes "near_session fin ph i sid prot p" "raw prot"
  shows "\<exists>p'. run_session i on_tcp_close p =
      Inr (p', if fin then [] else [ApCtl (Link (DcSend (channel_msg (MFin sid prot))))]) \<and>
    i \<notin> set (sv_sessions p') \<and> ap_mux p' = ap_mux p \<and>
    (\<exists>c q. sv_heap p' i = Some c \<and> \<not> cs_tcp c \<and> cs_sess c = Some q) \<and>
    (\<forall>c. sv_heap p' i = Some c \<longrightarrow> stream_id (app_world c p') = Inr sid)"
  using assms(1)
proof (rule near_sideE)
  fix c q assume c: "sv_heap p i = Some c" "cs_protocol c = prot" "cs_session_id c = i" "cs_sess c = Some q"
    "near_up p" "send_func_set (ap_mux p)" "stream_id (app_world c p) = Inr sid" "is_p2p_closed c = fin"
    "\<not> cs_is_closed c" "cs_on_close c"
  let ?w = "app_world c p"
  let ?c = "c\<lparr>cs_is_closed := True, cs_tcp := False\<rparr>"
  let ?fin = "if fin then [] else [CsToPeer (peer_conn_id (ap_mux p)) (msg_frame (MFin sid prot))]"
  have "on_tcp_close ?w = Inr (cs_upd (\<lambda>_. ?c) ?w, ?fin @ [CsClosed i])"
    using c by (simp add: on_tcp_close_def close_session_def andThen_def emit_def modify_def app_world_def
        send_fin_def mux_send_def peer_frame_def cs_upd_def)
  note run = run_session_run [OF c(1), where h = on_tcp_close, OF this]
  let ?p = "p\<lparr>sv_heap := (sv_heap p)(i \<mapsto> ?c)\<rparr>"
  have up: "near_up ?p" using c(5) by (simp add: near_up_def)
  have "wf_protocol prot" using assms(2) by (auto elim: rawE)
  note send = app_send_msg [OF fits_small(3) [OF this] up]
  have "for_each (app_route i) (?fin @ [CsClosed i]) ?p =
      Inr (?p\<lparr>sv_sessions := removeAll i (sv_sessions p)\<rparr>,
        if fin then [] else [ApCtl (Link (DcSend (channel_msg (MFin sid prot))))])"
    using send by (simp add: andThen_def skip_def modify_def del: msg_frame.simps)
  then show ?thesis
    unfolding run using c(4,7) by (simp add: app_world_def cs_upd_def stream_id_def)
qed

lemma near_gets_fin:
  assumes "near_side ph i sid prot p" "raw prot"
  shows "\<exists>p'. app_on_message ll v4 ue (channel_msg (MFin sid prot)) p = Inr (p', [ApSession i (CsTcp EvClose)]) \<and>
    near_session True ph i sid prot p'"
  using assms(1)
proof (rule near_sideE)
  fix c q assume c: "sv_heap p i = Some c" "cs_tcp c" "near_stream p i sid q" "wf_manager (manager (ap_mux p))"
  have "p2p_close prot (app_world c p) =
      Inr (cs_upd (\<lambda>s. s\<lparr>is_p2p_closed := True\<rparr>) (app_world c p), [CsTcp EvClose])"
    using c(2) by (simp add: p2p_close_def cs_close_def on_socket_def emit_def andThen_def modify_def app_world_def)
  note run = run_session_run [OF c(1), where h = "p2p_close prot", OF this]
  have wf: "wf_protocol prot" using assms(2) by (auto elim: rawE)
  have "abs_sessions (ap_mux p) sid = Some \<lparr>on_data = Some i, on_synack = Some i, on_close = Some i,
      on_data_ctrl = None, sess_stream_id = sid\<rparr>"
    using c(3) by (simp add: near_stream_def abs_sessions_def find_session_def)
  then have "app_on_message ll v4 ue (channel_msg (MFin sid prot)) p = run_session i (p2p_close prot) p"
    using near_receives [OF c(4) fits_small(3) [OF wf]] by simp
  also have "\<dots> = Inr (p\<lparr>sv_heap := (sv_heap p)(i \<mapsto> c\<lparr>is_p2p_closed := True\<rparr>)\<rparr>, [ApSession i (CsTcp EvClose)])"
    unfolding run by (simp add: app_world_def emit_def andThen_def skip_def)
  finally show ?thesis
    using assms(1) c(1) by (auto simp: near_session_def near_stream_def near_up_def)
qed

lemma far_gets_fin:
  assumes "far_side a sid prot s" "raw prot"
  shows "\<exists>s'. ss_on_message ll g (channel_msg (MFin sid prot)) s = Inr (s', [SsSock a (SiTcp EvClose)]) \<and>
    far_tunnel True a sid prot s'"
  using assms(1)
proof (rule far_sideE)
  fix t ob assume t: "ss_heap s a = Some t" "tn_held t" "tn_obj t = Some ob" "si_class ob = TcpSession"
    "si_socket ob" "wf_manager (manager (ss_mux s))" "abs_sessions (ss_mux s) sid = Some (bound_session a sid)"
    "tn_ok t" "ss_inv s"
  let ?w = "\<lparr>tun = t, tun_mux = ss_mux s\<rparr>" and ?t = "t\<lparr>tn_obj := Some (ob\<lparr>si_p2p_closed := True\<rparr>)\<rparr>"
  have run: "tn_close ?w = Inr (tn_upd (\<lambda>_. ?t) ?w, [TnSock (SiTcp EvClose)])"
    using t by (simp add: tn_close_def through_def on_obj_def si_stop_def si_close_def si_sock_def andThen_def
        modify_def emit_def skip_def tn_upd_def)
  let ?s = "s\<lparr>ss_heap := (ss_heap s)(a \<mapsto> ?t)\<rparr>"
  have "run_tunnel a tn_close s = Inr (?s, [SsSock a (SiTcp EvClose)])"
    using t(1) run by (simp add: run_tunnel_def emit_def andThen_def skip_def tn_upd_def)
  moreover from run_tunnel_quiet [where h = tn_close, OF t(9,1)] tn_close_quiet [of ?w] t(2,8)
  obtain t' acts where "run_tunnel a tn_close s = Inr (s\<lparr>ss_heap := (ss_heap s)(a \<mapsto> t')\<rparr>, acts)"
    "ss_inv (s\<lparr>ss_heap := (ss_heap s)(a \<mapsto> t')\<rparr>)" by auto
  ultimately have inv: "ss_inv ?s" by simp
  have "far_tunnel True a sid prot ?s"
    using assms(1) t inv by (auto simp: far_object_def far_up_def)
  moreover have "wf_protocol prot" using assms(2) by (auto elim: rawE)
  ultimately show ?thesis
    using far_receives [OF t(6) fits_small(3)] t(7) \<open>run_tunnel a tn_close s = Inr (?s, _)\<close>
    by (simp add: bound_session_def)
qed

lemma far_closes:
  assumes "far_tunnel fin a sid prot s" "raw prot"
  shows "\<exists>s'. ss_on_target a TevClosed s =
      Inr (s', if fin then [] else [SsCtl (Link (DcSend (channel_msg (MFin sid prot))))]) \<and> ss_inv s' \<and>
    abs_sessions (ss_mux s') sid = None \<and> map_of (tunnel_sessions s') sid = None \<and> \<not> live s' a sid"
  using assms(1)
proof (rule far_sideE)
  fix t ob assume t: "ss_heap s a = Some t" "tn_stream_id t = sid" "tn_held t" "tn_protocol t = prot"
    "tn_obj t = Some ob" "far_up s" "send_func_set (ss_mux s)" "tn_ok t" "ss_inv s" "si_p2p_closed ob = fin"
  let ?w = "\<lparr>tun = t, tun_mux = ss_mux s\<rparr>"
  let ?fin = "if fin then [] else [TnToPeer (peer_conn_id (ss_mux s)) (msg_frame (MFin sid prot))]"
  have "\<exists>w'. tn_on_target TevClosed ?w = Inr (w', ?fin @ [TnErase sid])"
  proof -
    from t(8) have ob: "si_send_finish ob" "si_close_func ob" "\<not> si_closed ob" "\<not> tn_is_closed t" "tn_close_func t"
      using t(3,5) by (auto simp: tn_ok_def)
    have "on_target TevClosed ob = Inr (ob\<lparr>si_closed := True, si_socket := False\<rparr>,
        (if fin then [] else [SiFinish]) @ [SiClosed])"
      using ob t(10) by (simp add: closeSession_def andThen_def guarded_def call_bound_def modify_def emit_def skip_def)
    then show ?thesis
      using ob t by (simp add: tn_on_target_def on_obj_def andThen_def emit_def tn_on_closed_run skip_def
          send_fin_def mux_send_def tn_peer_def del: on_target.simps)
  qed
  then obtain w' where w': "tn_on_target TevClosed ?w = Inr (w', ?fin @ [TnErase sid])" by blast
  let ?s = "s\<lparr>ss_heap := (ss_heap s)(a \<mapsto> tun w'), ss_mux := tun_mux w'\<rparr>"
  have up: "far_up ?s" using t(6) by (simp add: far_up_def)
  have "wf_protocol prot" using assms(2) by (auto elim: rawE)
  note send = ss_send_msg [OF fits_small(3) [OF this] up]
  have acts: "\<exists>s'. ss_on_target a TevClosed s =
      Inr (s', if fin then [] else [SsCtl (Link (DcSend (channel_msg (MFin sid prot))))])"
    using w' t(1) send by (simp add: ss_on_target_def run_tunnel_def andThen_def modify_def skip_def del: msg_frame.simps)
  have "tn_ended ?w (tn_on_target TevClosed ?w)" by (rule tn_on_closed_ended) (simp_all add: t)
  from run_tunnel_ended [where h = "tn_on_target TevClosed", OF t(9,1) this] acts t(2)
  show ?thesis by (auto simp: ss_on_target_def)
qed

subsection \<open>A pair to look at\<close>

text \<open>
  Both links are up; the client has accepted one connection, its session number 1, and will draw 77 as
  its first stream id; the server's client is number 7.
\<close>

definition link_open :: "controller \<Rightarrow> controller" where
  "link_open c = c\<lparr>ct_p2p := (ct_p2p c)\<lparr>p2_dc := Some True\<rparr>\<rparr>"

definition demo_near :: "unit app" where
  "demo_near = (NetworkRtcApp_new 1 [77])\<lparr>ap_controller := link_open Controller_new, sv_ids := 1,
     sv_sessions := [1], sv_heap := [1 \<mapsto> cs_set_on_close True (Socks5Session_new idle_llhttp 1)]\<rparr>"

definition demo_pair :: "(unit, unit) pair" where
  "demo_pair = \<lparr>near = demo_near,
     far = (fresh_client 7 ''pw'')\<lparr>ss_controller := link_open Controller_new\<rparr>, up = [], down = []\<rparr>"

definition demo_libs :: "(unit, unit) libs" where
  "demo_libs = \<lparr>lb_near = idle_llhttp, lb_far = idle_llhttp, lb_v4 = (\<lambda>_. None), lb_udp = plain_udp_env,
     lb_garbage = 0\<rparr>"

lemma demo_facts:
  "near_fresh WaitGreetingVersion 1 Unknown (near demo_pair)"
  "gen_stream_id (manager (ap_mux (near demo_pair))) (ap_draws (near demo_pair)) = Some (77, [])"
  "ss_reach ll (far demo_pair)" "far_up (far demo_pair)" "send_func_set (ss_mux (far demo_pair))"
  "on_syn_set (ss_mux (far demo_pair))" "up demo_pair = []" "down demo_pair = []" "ss_next (far demo_pair) = 0"
  by (simp_all add: demo_pair_def demo_near_def near_fresh_def near_up_def far_up_def link_open_def
      NetworkRtcApp_new_def set_send_func_def SessionMux_new_def wf_manager_new cs_set_on_close_def
      Socks5Session_new_def fresh_client_fields ss_reach.link fresh_client_reach)
    (simp add: SessionManager_new_def)

lemma demo_open: "\<exists>x :: (unit, unit) pair. carries 1 0 77 Socks5Connect x \<lparr>to_target = [], to_app = []\<rparr>"
proof -
  have "wf_addr (AddrDomain ''a.b'')" by simp
  from socks_opens [OF demo_facts(1) this demo_facts(2-8), of demo_libs 0 "[]" 80 "[]" True]
  show ?thesis by (auto simp: demo_facts(9))
qed

end
