(* ===== verification/HttpTunnel.thy ===== *)
theory HttpTunnel
  imports EndToEnd
begin

text \<open>
  HTTP through the two programs: a CONNECT opens a tunnel like a SOCKS5 request does, and a plain request
  is kept until the target is connected and then reaches it rewritten.
\<close>

subsection \<open>The head of a request\<close>

text \<open>What llhttp reports for the head of a request, cut in any way.\<close>

definition request_head :: "string list \<Rightarrow> (string list \<times> string list) list \<Rightarrow> ll_info \<Rightarrow> ll_event list" where
  "request_head ls fvs info =
     (LlMessageBegin # line_events Request ls) @ concat (map header_events fvs) @ [LlHeadersComplete info]"

abbreviation request_of :: "string list \<Rightarrow> (string list \<times> string list) list \<Rightarrow> ll_info \<Rightarrow> http_message" where
  "request_of ls fvs info \<equiv> described Request info (concat ls) (map whole_header fvs)"

lemma request_of_fields [simp]:
  "m_method (described Request info line hs) = ll_method info" "target (described Request info line hs) = line"
  by (simp_all add: described_def connection_fields_def request_fields_def Let_def split: prod.splits option.splits)

definition request_parser :: "'l llhttp \<Rightarrow> 'l http_parser" where
  "request_parser ll = set_on_error (set_on_headers_complete (HttpParser_new ll Request))"

lemma request_parser_fields [simp]:
  "hp_lib (request_parser ll) = ll_init ll Request" "hp_type (request_parser ll) = Request"
  "cb_headers_complete (request_parser ll)" "\<not> cb_body (request_parser ll)"
  "\<not> cb_message_complete (request_parser ll)" "\<not> cb_paused_upgrade (request_parser ll)"
  "\<not> had_error (request_parser ll)"
  by (simp_all add: request_parser_def set_on_error_def set_on_headers_complete_def HttpParser_new_def hp_init_def)

lemma new_request_parser: "http_request_parser (Socks5Session_new ll i) = request_parser ll"
  by (simp add: Socks5Session_new_def request_parser_def)

lemma new_response_parser: "http_response_parser (Socks5Session_new ll i) =
    set_on_message_complete (set_on_error (set_on_body (set_on_headers_complete (HttpParser_new ll Response))))"
  by (simp add: Socks5Session_new_def)

text \<open>After the head: the body and the end of the message, for which the client's parser has no callback.\<close>

fun body_event :: "ll_event \<Rightarrow> bool" where
  "body_event (LlBody d) = True"
| "body_event LlMessageComplete = True"
| "body_event _ = False"

lemma on_body_events:
  "\<not> cb_message_complete p \<Longrightarrow> \<not> cb_body p \<Longrightarrow> \<forall>e\<in>set es. body_event e \<Longrightarrow> \<exists>p'. on_events es p = ([], p')"
proof (induction es arbitrary: p)
  case (Cons e es)
  obtain u1 p1 where e: "on_event e p = (u1, p1)" by (cases "on_event e p")
  with Cons.prems have "u1 = []"
    by (cases e) (simp_all add: on_body_cb_def on_message_complete_cb_def Let_def)
  moreover from on_event_callbacks [OF e] Cons.prems have "\<not> cb_message_complete p1" "\<not> cb_body p1" by simp_all
  ultimately show ?case using Cons.IH [of p1] Cons.prems(3) e by auto
qed simp

text \<open>The parser of a new session makes one call for the head, and none after it.\<close>

lemma feed_head:
  assumes "ll_execute ll (ll_init ll Request) data = (request_head ls fvs info @ rest, err, l)"
    and "\<forall>e\<in>set rest. body_event e" "\<forall>code why. err \<noteq> LlError code why"
    and "\<forall>fv\<in>set fvs. fst fv \<noteq> [] \<and> snd fv \<noteq> []"
  obtains ok p1 p2 where "feed ll data (request_parser ll) = (ok, [(UpHeadersComplete (request_of ls fvs info), p1)], p2)"
proof -
  have ty: "hp_type (request_parser ll) = Request" "Request \<noteq> TypeUnknown" by simp_all
  from head_assembled [OF ty assms(4) refl refl, of ls info] obtain p1 where
    p1: "on_events (request_head ls fvs info) (request_parser ll) = ([(UpHeadersComplete (request_of ls fvs info), p1)], p1)"
    by (simp add: request_head_def) blast
  from on_events_callbacks [OF p1] have cbs: "\<not> cb_message_complete p1" "\<not> cb_body p1" "\<not> cb_paused_upgrade p1"
    by simp_all
  from on_body_events [OF cbs(1,2) assms(2)] obtain p2 where p2: "on_events rest p1 = ([], p2)" by blast
  from on_events_callbacks [OF p2] cbs(3) have quiet: "\<not> cb_paused_upgrade p2" by simp
  have ev: "on_events (request_head ls fvs info @ rest) (request_parser ll) =
      ([(UpHeadersComplete (request_of ls fvs info), p1)], p2)"
    by (simp add: on_events_append p1 p2)
  show ?thesis
  proof (cases err)
    case (LlPausedUpgrade pos)
    with quiet that show ?thesis by (cases pos) (simp_all add: feed_def assms(1) ev Let_def)
  next
    case (LlError code why)
    with assms(3) show ?thesis by simp
  qed (use that in \<open>simp add: feed_def assms(1) ev\<close>)
qed

text \<open>The host and the port the request is for.\<close>

definition destination :: "http_message \<Rightarrow> (string \<times> u16) cpp" where
  "destination msg = split_host_port (if m_method msg = ''CONNECT'' then target msg else get_header msg ''Host'')"

abbreviation http_protocol :: "http_message \<Rightarrow> protocol" where
  "http_protocol msg \<equiv> if m_method msg = ''CONNECT'' then HttpsConnect else HttpPlain"

lemma is_digit_dec: "c \<in> set (dec_string n) \<Longrightarrow> is_digit c \<and> \<not> is_space c \<and> c \<noteq> CHR ''-'' \<and> c \<noteq> CHR ''+''"
  using set_dec_string [of n] by (auto simp: is_digit_def is_space_def)

lemma stoi_dec:
  assumes "n < 2 ^ 31"
  shows "stoi (dec_string n) = Inr (int n)"
proof -
  have "hd (dec_string n) \<in> set (dec_string n)" by simp
  then have h: "\<not> is_space (hd (dec_string n))" "hd (dec_string n) \<noteq> CHR ''-''" "hd (dec_string n) \<noteq> CHR ''+''"
    using is_digit_dec by blast+
  have blank: "dropWhile is_space (dec_string n) = dec_string n" using h(1) by (cases "dec_string n") simp_all
  have digits: "takeWhile is_digit (dec_string n) = dec_string n" by (simp add: takeWhile_eq_all_conv is_digit_dec)
  show ?thesis using assms h(2,3) by (simp add: stoi_def blank digits)
qed

lemma split_host_port_text:
  assumes "CHR '':'' \<notin> set host"
  shows "split_host_port (host @ '':'' @ dec_string (unat (port :: u16))) = Inr (host, port)"
proof -
  have "unat port < 2 ^ 31" by (rule less_trans [OF unsigned_less]) simp
  then show ?thesis
    using assms by (simp add: split_host_port_def str_find_def find_char_append stoi_dec word_of_int_uint flip: uint_nat)
qed


subsection \<open>The client asks for a connection\<close>

lemma http_loop:
  assumes "cs_phase (cs w) = WaitGreetingVersion" "b \<noteq> []" "hd b \<noteq> 0x05"
  shows "consume_loop (b @ stale) (length b) 0 w =
    Inr (True, cs_upd (\<lambda>s. s\<lparr>cs_phase := WaitHttpRequestHeaders\<rparr>) w, [])"
proof -
  let ?w1 = "cs_upd (\<lambda>s. s\<lparr>cs_phase := WaitHttpRequestHeaders\<rparr>) w"
  have "rd (b @ stale) 0 = Inr (hd b)" using assms(2) by (cases b) (simp_all add: rd_def)
  then have "handle_greeting_version (b @ stale) (length b) w = Inr (2, ?w1, [])"
    using assms(3) by (simp add: handle_greeting_version_def returns_def set_phase_run)
  moreover have "consume_loop (b @ stale) (length b) (0 + 2) ?w1 = Inr (True, ?w1, [])"
    by (rule loop_stop) (simp add: leaves_loop_def)
  ultimately show ?thesis
    using loop_step [where h = "handle_greeting_version (b @ stale) (length b)" and d = "b @ stale"
        and len = "length b" and consumed = 0 and w = w] assms by simp
qed

lemma client_requests:
  assumes "cs_phase (cs w) = WaitGreetingVersion" "http_request_parser (cs w) = request_parser ll"
    and "b \<noteq> []" "hd b \<noteq> 0x05"
    and "ll_execute ll (ll_init ll Request) (string_of_bytes b) = (request_head ls fvs info @ rest, err, l)"
    and "\<forall>e\<in>set rest. body_event e" "\<forall>code why. err \<noteq> LlError code why"
    and "\<forall>fv\<in>set fvs. fst fv \<noteq> [] \<and> snd fv \<noteq> []"
    and "destination (request_of ls fvs info) = Inr (host, port)" "host \<noteq> []"
    and "gen_stream_id (manager (mux w)) (draws w) = Some (sid, ds)" "send_func_set (mux w)"
  obtains w' where "process_data ll (b @ stale) (length b) w = Inr (w', [CsToPeer (peer_conn_id (mux w))
      (msg_frame (MSyn sid host port (http_protocol (request_of ls fvs info))))])"
    "cs w' = (cs w)\<lparr>cs_sess := Some (next_ptr (manager (mux w))), cs_phase := Connecting,
       cs_protocol := http_protocol (request_of ls fvs info), cs_target_host := host, cs_target_port := port,
       http_request_parser := http_request_parser (cs w'), pending_buf := pending_buf (cs w) @ [b]\<rparr>"
    "store (manager (mux w')) (next_ptr (manager (mux w))) =
       Some \<lparr>on_data = Some (cs_session_id (cs w)), on_synack = Some (cs_session_id (cs w)),
         on_close = Some (cs_session_id (cs w)), on_data_ctrl = None, sess_stream_id = sid\<rparr>"
    "sessions (manager (mux w')) = (sessions (manager (mux w)))(sid \<mapsto> next_ptr (manager (mux w)))"
    "send_func_set (mux w')" "wf_manager (manager (mux w)) \<Longrightarrow> wf_manager (manager (mux w'))"
proof -
  let ?msg = "request_of ls fvs info"
  from feed_head [OF assms(5-8)] obtain ok p1 p2 where
    fed: "feed ll (string_of_bytes b) (request_parser ll) = (ok, [(UpHeadersComplete ?msg, p1)], p2)" .
  let ?w1 = "cs_upd (\<lambda>s. s\<lparr>cs_phase := WaitHttpRequestHeaders\<rparr>) w"
  let ?w4 = "cs_upd (\<lambda>s. s\<lparr>cs_protocol := http_protocol ?msg\<rparr>)
      (cs_upd (\<lambda>s. s\<lparr>cs_target_host := host, cs_target_port := port\<rparr>)
        (cs_upd (\<lambda>s. s\<lparr>http_request_parser := p2\<rparr>) ?w1))"
  have g: "gen_stream_id (manager (mux ?w4)) (draws ?w4) = Some (sid, ds)" "send_func_set (mux ?w4)"
    using assms(11,12) by simp_all
  note rc = request_connects [OF g]
  obtain w5 where w5: "request_remote_connect ?w4 = Inr (w5, [CsToPeer (peer_conn_id (mux ?w4))
       (make_frame sid SYN (cs_protocol (cs ?w4)) (encode_syn_payload (cs_target_host (cs ?w4)) (cs_target_port (cs ?w4))))])"
    "cs w5 = (cs ?w4)\<lparr>cs_sess := Some (next_ptr (manager (mux ?w4))), cs_phase := Connecting\<rparr>"
    "store (manager (mux w5)) (next_ptr (manager (mux ?w4))) =
       Some \<lparr>on_data = Some (cs_session_id (cs ?w4)), on_synack = Some (cs_session_id (cs ?w4)),
         on_close = Some (cs_session_id (cs ?w4)), on_data_ctrl = None, sess_stream_id = sid\<rparr>"
    "sessions (manager (mux w5)) = (sessions (manager (mux ?w4)))(sid \<mapsto> next_ptr (manager (mux ?w4)))"
    "send_func_set (mux w5)" "wf_manager (manager (mux ?w4)) \<Longrightarrow> wf_manager (manager (mux w5))"
    by (rule rc) blast
  let ?out = "[CsToPeer (peer_conn_id (mux w)) (msg_frame (MSyn sid host port (http_protocol ?msg)))]"
  have "on_request_headers ?msg (cs_upd (\<lambda>s. s\<lparr>http_request_parser := p2\<rparr>) ?w1) = Inr (w5, ?out)"
    using w5(1) assms(9,10) by (simp add: on_request_headers_def destination_def andThen_def modify_def)
  then have feed: "feed_request ll (string_of_bytes b) ?w1 = Inr (w5, ?out)"
    using assms(2) by (simp add: feed_request_def fed andThen_def skip_def)
  let ?w' = "cs_upd (\<lambda>s. s\<lparr>pending_buf := pending_buf s @ [b]\<rparr>) w5"
  have "process_data ll (b @ stale) (length b) w = Inr (?w', ?out)"
    using assms(1) http_loop [OF assms(1,3,4), of stale] feed
    by (simp add: process_data_def consume_pending_def rd_range_def andThen_def modify_def)
  then show ?thesis using w5(2-6) by (intro that [of ?w']) simp_all
qed


text \<open>A session as the server of local connections has just made it.\<close>

definition near_new :: "'c llhttp \<Rightarrow> u32 \<Rightarrow> 'c app \<Rightarrow> bool" where
  "near_new ll i p \<longleftrightarrow> near_up p \<and> send_func_set (ap_mux p) \<and> wf_manager (manager (ap_mux p)) \<and>
     sv_heap p i = Some (cs_set_on_close True (Socks5Session_new ll i))"

lemma near_http_requests:
  assumes "near_new ll i p" "b \<noteq> []" "hd b \<noteq> 0x05"
    and "ll_execute ll (ll_init ll Request) (string_of_bytes b) = (request_head ls fvs info @ rest, err, l)"
    and "\<forall>e\<in>set rest. body_event e" "\<forall>code why. err \<noteq> LlError code why"
    and "\<forall>fv\<in>set fvs. fst fv \<noteq> [] \<and> snd fv \<noteq> []"
    and "destination (request_of ls fvs info) = Inr (host, port)" "host \<noteq> []" "length host < 256"
    and "gen_stream_id (manager (ap_mux p)) (ap_draws p) = Some (sid, ds)"
  shows "\<exists>p' c. run_session i (process_data ll (b @ stale) (length b)) p =
      Inr (p', [ApCtl (Link (DcSend (channel_msg (MSyn sid host port (http_protocol (request_of ls fvs info))))))]) \<and>
    near_side Connecting i sid (http_protocol (request_of ls fvs info)) p' \<and> sv_heap p' i = Some c \<and>
    pending_buf c = [b] \<and> http_response_parser c = http_response_parser (Socks5Session_new ll i)"
proof -
  let ?c = "cs_set_on_close True (Socks5Session_new ll i)" and ?prot = "http_protocol (request_of ls fvs info)"
  from assms(1) have c: "sv_heap p i = Some ?c" "near_up p" "send_func_set (ap_mux p)" "wf_manager (manager (ap_mux p))"
    by (simp_all add: near_new_def)
  let ?w = "app_world ?c p"
  have w: "cs_phase (cs ?w) = WaitGreetingVersion" "http_request_parser (cs ?w) = request_parser ll"
    by (simp_all add: app_world_def cs_set_on_close_def Socks5Session_new_def request_parser_def)
  have g: "gen_stream_id (manager (mux ?w)) (draws ?w) = Some (sid, ds)" "send_func_set (mux ?w)"
    using assms(11) c(3) by (simp_all add: app_world_def)
  note cr = client_requests [OF w assms(2-9) g, where stale = stale]
  obtain w' where w': "process_data ll (b @ stale) (length b) ?w = Inr (w', [CsToPeer (peer_conn_id (mux ?w))
      (msg_frame (MSyn sid host port ?prot))])"
    "cs w' = (cs ?w)\<lparr>cs_sess := Some (next_ptr (manager (mux ?w))), cs_phase := Connecting,
       cs_protocol := ?prot, cs_target_host := host, cs_target_port := port,
       http_request_parser := http_request_parser (cs w'), pending_buf := pending_buf (cs ?w) @ [b]\<rparr>"
    "store (manager (mux w')) (next_ptr (manager (mux ?w))) =
       Some \<lparr>on_data = Some (cs_session_id (cs ?w)), on_synack = Some (cs_session_id (cs ?w)),
         on_close = Some (cs_session_id (cs ?w)), on_data_ctrl = None, sess_stream_id = sid\<rparr>"
    "sessions (manager (mux w')) = (sessions (manager (mux ?w)))(sid \<mapsto> next_ptr (manager (mux ?w)))"
    "send_func_set (mux w')" "wf_manager (manager (mux w'))"
    by (rule cr) (use c(4) in \<open>simp add: app_world_def\<close>)
  note run = run_session_run [OF c(1), where h = "process_data ll (b @ stale) (length b)", OF w'(1)]
  have "wf_protocol ?prot" by simp
  note send = app_send_msg [OF fits_small(4) [OF assms(10) this]]
  let ?p = "p\<lparr>ap_mux := mux w', ap_draws := draws w', sv_heap := (sv_heap p)(i \<mapsto> cs w')\<rparr>"
  have up: "near_up ?p" using c(2) by (simp add: near_up_def)
  have fields: "cs_tcp (cs w')" "cs_phase (cs w') = Connecting" "cs_protocol (cs w') = ?prot" "cs_session_id (cs w') = i"
    "cs_sess (cs w') = Some (next_ptr (manager (ap_mux p)))" "\<not> is_p2p_closed (cs w')" "\<not> cs_is_closed (cs w')"
    "cs_on_close (cs w')" "pending_buf (cs w') = [b]"
    "http_response_parser (cs w') = http_response_parser (Socks5Session_new ll i)"
    by (subst w'(2), simp add: app_world_def cs_set_on_close_def Socks5Session_new_def)+
  have "near_side Connecting i sid ?prot ?p"
    using fields(1-8) up w'(3-6) by (simp add: near_session_def near_stream_def app_world_def cs_set_on_close_def Socks5Session_new_def)
  moreover have "run_session i (process_data ll (b @ stale) (length b)) p =
      Inr (?p, [ApCtl (Link (DcSend (channel_msg (MSyn sid host port ?prot))))])"
    using run send [OF up] by (simp add: andThen_def skip_def del: msg_frame.simps)
  ultimately show ?thesis using fields(9,10) by (intro exI [of _ ?p] exI [of _ "cs w'"]) simp
qed

lemma connect_opens:
  assumes "near_new (lb_near L) i (near x)" "b \<noteq> []" "hd b \<noteq> 0x05"
    and "ll_execute (lb_near L) (ll_init (lb_near L) Request) (string_of_bytes b) = (request_head ls fvs info @ rest, err, l)"
    and "\<forall>e\<in>set rest. body_event e" "\<forall>code why. err \<noteq> LlError code why"
    and "\<forall>fv\<in>set fvs. fst fv \<noteq> [] \<and> snd fv \<noteq> []" "ll_method info = ''CONNECT''"
    and "concat ls = host @ '':'' @ dec_string (unat port)" "CHR '':'' \<notin> set host" "host \<noteq> []" "length host < 256"
    and "gen_stream_id (manager (ap_mux (near x))) (ap_draws (near x)) = Some (sid, ds)"
    and "ss_reach (lb_far L) (far x)" "far_up (far x)" "send_func_set (ss_mux (far x))" "on_syn_set (ss_mux (far x))"
    and "up x = []" "down x = []"
  shows "\<exists>x'. for_each (pair_step L) [AppReads i (b @ stale) (length b),
      DeliverUp, Target (ss_next (far x)) (TevConnected ok), DeliverDown] x =
    Inr (x', [Far (SsSock (ss_next (far x)) (SiTcp (EvConnect host port))),
      Near (ApSession i (CsTcp (EvSend (bytes_of_string (if ok then http_ok_reply else http_fail_reply)))))] @
      (if ok then [] else [Near (ApSession i (CsTcp EvClose))])) \<and>
    (ok \<longrightarrow> carries i (ss_next (far x)) sid HttpsConnect x' \<lparr>to_target = [], to_app = []\<rparr>)"
proof -
  let ?msg = "request_of ls fvs info" and ?a = "ss_next (far x)"
  have raw: "raw HttpsConnect" by (simp add: raw_def)
  have dest: "destination ?msg = Inr (host, port)"
    using split_host_port_text [OF assms(10), of port] assms(8,9) by (simp add: destination_def)
  from near_http_requests [OF assms(1-7) dest assms(11-13), of stale] assms(8) obtain p2 where
    p2: "run_session i (process_data (lb_near L) (b @ stale) (length b)) (near x) =
        Inr (p2, [ApCtl (Link (DcSend (channel_msg (MSyn sid host port HttpsConnect))))])"
      "near_side Connecting i sid HttpsConnect p2" by auto
  let ?x = "x\<lparr>near := p2, up := [channel_msg (MSyn sid host port HttpsConnect)]\<rparr>"
  have "near_side Connecting i sid HttpsConnect (near ?x)" using p2(2) by simp
  from syn_opens [OF this raw assms(12), of L port ok] assms(14-19) obtain x' where
    x': "for_each (pair_step L) [DeliverUp, Target ?a (TevConnected ok), DeliverDown] ?x =
    Inr (x', [Far (SsSock ?a (SiTcp (EvConnect host port))),
      Near (ApSession i (CsTcp (EvSend (connect_reply ok HttpsConnect))))] @
      (if ok then [] else [Near (ApSession i (CsTcp EvClose))]))"
    "ok \<longrightarrow> carries i ?a sid HttpsConnect x' \<lparr>to_target = [], to_app = []\<rparr>" by auto
  have "pair_step L (AppReads i (b @ stale) (length b)) x = Inr (?x, [])"
    using p2(1) assms(18) by (simp add: at_near_def andThen_def modify_def skip_def)
  then show ?thesis
    using x' by (simp add: andThen_def connect_reply_def del: pair_step.simps)
qed


subsection \<open>A plain request\<close>

text \<open>The client's parsers and the server's object only change their parser.\<close>

lemma p2p_data_same:
  "p2p_data ll v4 d n HttpPlain w = Inr (w', acts) \<Longrightarrow> \<exists>q. w' = cs_upd (\<lambda>s. s\<lparr>http_response_parser := q\<rparr>) w"
  by (auto simp: p2p_data_def feed_response_def cbind_eq_Inr case_prod_beta dest!: response_upcalls_same)

lemma revP2pData_same:
  assumes "http_live ob" "revP2pData ll g (bytes_of_string seg) (length seg) ob = Inr (ob', acts)"
  shows "\<exists>q. ob' = ob\<lparr>si_class := HttpSession q\<rparr>"
  using assms(2) unfolding revP2pData_http [OF assms(1)] request_relay.feed_all_def
  by (auto split: prod.splits dest!: http_upcalls_quiet)

lemma reports_sends: "for_each tn_report (map (\<lambda>b. SiTcp (EvSend (f b))) bs) w = Inr (w, map (\<lambda>b. TnSock (SiTcp (EvSend (f b)))) bs)"
  by (induction bs) (simp_all add: skip_def andThen_def emit_def)

lemma routes_sends:
  "for_each (ss_route a) (map (\<lambda>b. TnSock (SiTcp (EvSend (f b)))) bs) s = Inr (s, map (\<lambda>b. SsSock a (SiTcp (EvSend (f b)))) bs)"
  by (induction bs) (simp_all add: skip_def andThen_def emit_def)

lemma app_routes_sends:
  "for_each (app_route i) (map (\<lambda>b. CsTcp (EvSend (f b))) bs) p = Inr (p, map (\<lambda>b. ApSession i (CsTcp (EvSend (f b)))) bs)"
  by (induction bs) (simp_all add: skip_def andThen_def emit_def)

lemma from_near_sends:
  "for_each from_near (map (\<lambda>b. ApSession i (CsTcp (EvSend (f b)))) bs) x = Inr (x, map (\<lambda>b. Near (ApSession i (CsTcp (EvSend (f b))))) bs)"
  by (induction bs) (simp_all add: skip_def andThen_def emit_def)

lemma from_far_sends:
  "for_each from_far (map (\<lambda>b. SsSock a (SiTcp (EvSend (f b)))) bs) x = Inr (x, map (\<lambda>b. Far (SsSock a (SiTcp (EvSend (f b))))) bs)"
  by (induction bs) (simp_all add: skip_def andThen_def emit_def)

lemma for_each_then:
  "for_each f xs s = Inr (s1, a1) \<Longrightarrow> for_each f ys s1 = Inr (s2, a2) \<Longrightarrow> for_each f (xs @ ys) s = Inr (s2, a1 @ a2)"
  by (simp add: for_each_append andThen_def)

text \<open>The server's object rewrites the request for the target.\<close>

lemma far_gets_request:
  assumes "far_object (si_class (HttpSession_new ll)) False a sid HttpPlain s" "length b \<le> 8192"
    and "ll_execute ll (ll_init ll Request) (string_of_bytes b) = (message_events Request ls fvs info parts, LlOk, l)"
    and "\<forall>fv\<in>set fvs. fst fv \<noteq> [] \<and> snd fv \<noteq> []"
  shows "\<exists>s' q bufs. ss_on_message ll g (channel_msg (MData sid b HttpPlain)) s =
      Inr (s', map (\<lambda>b. SsSock a (SiTcp (EvSend (bytes_of_string b)))) bufs) \<and>
    concat bufs = origin_head (request_of ls fvs info) @ relayed_body (flag_chunked info) parts \<and>
    far_object (HttpSession q) False a sid HttpPlain s'"
  using assms(1)
proof (rule far_sideE)
  fix t ob assume t: "ss_heap s a = Some t" "tn_held t" "tn_obj t = Some ob"
    "si_class ob = si_class (HttpSession_new ll)" "si_socket ob" "wf_manager (manager (ss_mux s))"
    "abs_sessions (ss_mux s) sid = Some (bound_session a sid)" "tn_ok t" "ss_inv s"
  have live: "http_live ob" and par: "relay_parser Request (request_parser_of ob)"
      "hp_lib (request_parser_of ob) = ll_init ll Request"
    using t(4,5)
    by (simp_all add: relay_parser_def HttpParser_new_def hp_init_def HttpSession_new_def
        SessionInterface_new_def request_parser_of_def http_live_def
        set_on_message_complete_def set_on_error_def set_on_body_def set_on_headers_complete_def)
  have "ll_run ll (hp_lib (request_parser_of ob)) [string_of_bytes b] = Some (message_events Request ls fvs info parts, l)"
    using assms(3) par(2) by simp
  from request_relay.message_relayed [OF live refl par(1) assms(4) this] obtain ob1 bufs where
    "request_relay.feed_all ll (string_of_bytes b) ob = Inr (ob1, map (\<lambda>b. SiTcp (EvSend (bytes_of_string b))) bufs)"
    and out: "concat bufs = origin_head (request_of ls fvs info) @ relayed_body (flag_chunked info) parts"
    by (auto simp: andThen_Inr skip_def)
  then have rv: "revP2pData ll g b (length b) ob = Inr (ob1, map (\<lambda>b. SiTcp (EvSend (bytes_of_string b))) bufs)"
    using revP2pData_http [OF live, of ll g "string_of_bytes b"] by simp
  from revP2pData_same [OF live, of ll g "string_of_bytes b"] rv obtain q where q: "ob1 = ob\<lparr>si_class := HttpSession q\<rparr>"
    by auto
  let ?w = "\<lparr>tun = t, tun_mux = ss_mux s\<rparr>" and ?t = "t\<lparr>tn_obj := Some ob1\<rparr>"
  have run: "p2p_revData ll g b (length b) HttpPlain ?w =
      Inr (tn_upd (\<lambda>_. ?t) ?w, map (\<lambda>b. TnSock (SiTcp (EvSend (bytes_of_string b)))) bufs)"
    using t(2,3) rv reports_sends [of bytes_of_string bufs]
    by (simp add: p2p_revData_def through_def on_obj_def tn_upd_def)
  let ?s = "s\<lparr>ss_heap := (ss_heap s)(a \<mapsto> ?t)\<rparr>"
  have rt: "run_tunnel a (p2p_revData ll g b (length b) HttpPlain) s =
      Inr (?s, map (\<lambda>b. SsSock a (SiTcp (EvSend (bytes_of_string b)))) bufs)"
    using t(1) run routes_sends [of a bytes_of_string bufs] by (simp add: run_tunnel_def tn_upd_def)
  moreover from run_tunnel_quiet [where h = "p2p_revData ll g b (length b) HttpPlain", OF t(9,1)]
    p2p_revData_quiet [of ?w "length b" b] t(2,8)
  obtain t' acts where "run_tunnel a (p2p_revData ll g b (length b) HttpPlain) s =
      Inr (s\<lparr>ss_heap := (ss_heap s)(a \<mapsto> t')\<rparr>, acts)" "ss_inv (s\<lparr>ss_heap := (ss_heap s)(a \<mapsto> t')\<rparr>)" by auto
  ultimately have inv: "ss_inv ?s" by simp
  have "far_object (HttpSession q) False a sid HttpPlain ?s"
    using assms(1) t inv q by (auto simp: far_object_def far_up_def)
  moreover have "ss_on_message ll g (channel_msg (MData sid b HttpPlain)) s =
      Inr (?s, map (\<lambda>b. SsSock a (SiTcp (EvSend (bytes_of_string b)))) bufs)"
    using far_receives [OF t(6) fits_small(1) [OF assms(2)], of HttpPlain] t(7) rt by (simp add: bound_session_def)
  ultimately show ?thesis using out by blast
qed


text \<open>When the target is connected the client sends what it has kept.\<close>

lemma near_flushes:
  assumes "near_side Connecting i sid HttpPlain p" "sv_heap p i = Some c" "pending_buf c = [b]" "length b \<le> 8192"
  shows "\<exists>p' c'. app_on_message ll v4 ue (channel_msg (MSynack sid True HttpPlain)) p =
      Inr (p', [ApCtl (Link (DcSend (channel_msg (MData sid b HttpPlain))))]) \<and>
    near_side SessionProtocol.Connected i sid HttpPlain p' \<and> sv_heap p' i = Some c' \<and>
    http_response_parser c' = http_response_parser c"
  using assms(1)
proof (rule near_sideE)
  fix c0 q assume c0: "sv_heap p i = Some c0" "cs_tcp c0" "cs_protocol c0 = HttpPlain" "near_stream p i sid q"
    "near_up p" "send_func_set (ap_mux p)" "wf_manager (manager (ap_mux p))" "stream_id (app_world c0 p) = Inr sid"
  with assms(2) have [simp]: "c0 = c" by simp
  let ?w = "app_world c p" and ?c = "c\<lparr>pending_buf := [], cs_phase := SessionProtocol.Connected\<rparr>"
  have "peer_data b (length b) ?w = Inr (?w, [CsToPeer (peer_conn_id (ap_mux p)) (msg_frame (MData sid b HttpPlain))])"
    using peer_data_run [of ?w sid b "[]"] c0(3,6,8) by (simp add: app_world_def)
  then have "p2p_synack ue True HttpPlain ?w = Inr (cs_upd (\<lambda>_. ?c) ?w,
      [CsToPeer (peer_conn_id (ap_mux p)) (msg_frame (MData sid b HttpPlain))])"
    using assms(3) by (simp add: p2p_synack_def synack_reply_def http_connected_def andThen_def skip_def modify_def
        set_phase_run app_world_def cs_upd_def)
  note run = run_session_run [OF c0(1), where h = "p2p_synack ue True HttpPlain", unfolded \<open>c0 = c\<close>, OF this]
  let ?p = "p\<lparr>sv_heap := (sv_heap p)(i \<mapsto> ?c)\<rparr>"
  have up: "near_up ?p" using c0(5) by (simp add: near_up_def)
  have "run_session i (p2p_synack ue True HttpPlain) p =
      Inr (?p, [ApCtl (Link (DcSend (channel_msg (MData sid b HttpPlain))))])"
    using run app_send_msg [OF fits_small(1) [OF assms(4)] up, of HttpPlain]
    by (simp add: app_world_def andThen_def skip_def del: msg_frame.simps)
  moreover have "abs_sessions (ap_mux p) sid = Some \<lparr>on_data = Some i, on_synack = Some i, on_close = Some i,
      on_data_ctrl = None, sess_stream_id = sid\<rparr>"
    using c0(4) by (simp add: near_stream_def abs_sessions_def find_session_def)
  ultimately have "app_on_message ll v4 ue (channel_msg (MSynack sid True HttpPlain)) p =
      Inr (?p, [ApCtl (Link (DcSend (channel_msg (MData sid b HttpPlain))))])"
    using near_receives [OF c0(7) fits_small(2), of HttpPlain] by simp
  moreover have "near_side SessionProtocol.Connected i sid HttpPlain ?p"
    using assms(1,2) up by (auto simp: near_session_def near_stream_def)
  ultimately show ?thesis by (intro exI [of _ ?p] exI [of _ ?c]) simp
qed

text \<open>A segment of the response, and then all of them.\<close>

lemma near_gets_response:
  assumes "near_side SessionProtocol.Connected i sid HttpPlain p" "sv_heap p i = Some c" "length r \<le> 8192"
    and "p2p_data ll v4 r (length r) HttpPlain (app_world c p) = Inr (w', map (\<lambda>b. CsTcp (EvSend (bytes_of_string b))) bufs)"
  shows "\<exists>p'. app_on_message ll v4 ue (channel_msg (MData sid r HttpPlain)) p =
      Inr (p', map (\<lambda>b. ApSession i (CsTcp (EvSend (bytes_of_string b)))) bufs) \<and>
    near_side SessionProtocol.Connected i sid HttpPlain p' \<and> sv_heap p' i = Some (cs w') \<and> app_world (cs w') p' = w'"
  using assms(1)
proof (rule near_sideE)
  fix c0 q assume c0: "sv_heap p i = Some c0" "near_stream p i sid q" "wf_manager (manager (ap_mux p))"
  from p2p_data_same [OF assms(4)] obtain hp where w': "w' = cs_upd (\<lambda>s. s\<lparr>http_response_parser := hp\<rparr>) (app_world c p)"
    by blast
  let ?p = "p\<lparr>sv_heap := (sv_heap p)(i \<mapsto> cs w')\<rparr>"
  have "run_session i (p2p_data ll v4 r (length r) HttpPlain) p =
      Inr (?p, map (\<lambda>b. ApSession i (CsTcp (EvSend (bytes_of_string b)))) bufs)"
    using run_session_run [OF assms(2), where h = "p2p_data ll v4 r (length r) HttpPlain", OF assms(4)]
      app_routes_sends [of i bytes_of_string bufs] by (simp add: w' app_world_def)
  moreover have "abs_sessions (ap_mux p) sid = Some \<lparr>on_data = Some i, on_synack = Some i, on_close = Some i,
      on_data_ctrl = None, sess_stream_id = sid\<rparr>"
    using c0(2) by (simp add: near_stream_def abs_sessions_def find_session_def)
  ultimately have "app_on_message ll v4 ue (channel_msg (MData sid r HttpPlain)) p =
      Inr (?p, map (\<lambda>b. ApSession i (CsTcp (EvSend (bytes_of_string b)))) bufs)"
    using near_receives [OF c0(3) fits_small(1) [OF assms(3)], of HttpPlain] by simp
  moreover have "near_side SessionProtocol.Connected i sid HttpPlain ?p"
    using assms(1,2) by (auto simp: near_session_def near_stream_def near_up_def w' app_world_def)
  moreover have "app_world (cs w') ?p = w'" by (simp add: w' app_world_def cs_upd_def)
  ultimately show ?thesis by auto
qed

definition response_steps :: "nat \<Rightarrow> string list \<Rightarrow> pair_event list" where
  "response_steps a rs = concat (map (\<lambda>r. [Target a (TevData (bytes_of_string r) (length r)), DeliverDown]) rs)"

lemma response_delivered:
  assumes "near_side SessionProtocol.Connected i sid HttpPlain (near x)" "sv_heap (near x) i = Some c"
    and "far_object cls False a sid HttpPlain (far x)" "down x = []" "\<forall>r\<in>set rs. length r \<le> 8192"
    and "for_each (\<lambda>r. p2p_data (lb_near L) (lb_v4 L) (bytes_of_string r) (length r) HttpPlain) rs (app_world c (near x)) =
      Inr (w', map (\<lambda>b. CsTcp (EvSend (bytes_of_string b))) bufs)"
  shows "\<exists>x'. for_each (pair_step L) (response_steps a rs) x =
    Inr (x', map (\<lambda>b. Near (ApSession i (CsTcp (EvSend (bytes_of_string b))))) bufs)"
  using assms
proof (induction rs arbitrary: x c bufs)
  case (Cons r rs)
  let ?f = "\<lambda>r. p2p_data (lb_near L) (lb_v4 L) (bytes_of_string r) (length r) HttpPlain"
  from Cons.prems(6) obtain w1 b1 b2 where
    r1: "?f r (app_world c (near x)) = Inr (w1, map (\<lambda>b. CsTcp (EvSend (bytes_of_string b))) b1)"
    and r2: "for_each ?f rs w1 = Inr (w', map (\<lambda>b. CsTcp (EvSend (bytes_of_string b))) b2)" "bufs = b1 @ b2"
    by (auto simp: andThen_Inr map_eq_append_conv)
  have len: "length (bytes_of_string r) \<le> 8192" "length (bytes_of_string r) = length r"
    using Cons.prems(5) by (simp_all add: bytes_of_string_def)
  from near_gets_response [OF Cons.prems(1,2) len(1), of "lb_near L" "lb_v4 L" w1 b1 "lb_udp L"] r1 len(2) obtain p' where
    p': "app_on_message (lb_near L) (lb_v4 L) (lb_udp L) (channel_msg (MData sid (bytes_of_string r) HttpPlain)) (near x) =
        Inr (p', map (\<lambda>b. ApSession i (CsTcp (EvSend (bytes_of_string b)))) b1)"
      "near_side SessionProtocol.Connected i sid HttpPlain p'" "sv_heap p' i = Some (cs w1)" "app_world (cs w1) p' = w1"
    by auto
  let ?x = "x\<lparr>near := p'\<rparr>"
  have "for_each (pair_step L) [Target a (TevData (bytes_of_string r) (length r)), DeliverDown] x =
      Inr (?x, map (\<lambda>b. Near (ApSession i (CsTcp (EvSend (bytes_of_string b))))) b1)"
    using far_reads [OF Cons.prems(3) _ len(1), of "[]"] p'(1) Cons.prems(4) len(2)
    by (simp add: from_near_sends at_near_def at_far_def andThen_def modify_def skip_def)
  moreover from Cons.IH [of ?x "cs w1" b2] Cons.prems(3-5) p'(2-4) r2(1) obtain x' where
    "for_each (pair_step L) (response_steps a rs) ?x =
      Inr (x', map (\<lambda>b. Near (ApSession i (CsTcp (EvSend (bytes_of_string b))))) b2)" by auto
  moreover have "response_steps a (r # rs) =
      [Target a (TevData (bytes_of_string r) (length r)), DeliverDown] @ response_steps a rs"
    by (simp add: response_steps_def)
  ultimately show ?case unfolding r2(2) map_append using for_each_then by metis
qed (simp add: response_steps_def skip_def)

text \<open>A response, from the target's socket to the application's.\<close>

lemma target_answers:
  assumes "near_side SessionProtocol.Connected i sid HttpPlain (near x)" "sv_heap (near x) i = Some c"
    and "far_object (HttpSession q) False a sid HttpPlain (far x)" "down x = []"
    and "http_response_parser c = http_response_parser (Socks5Session_new (lb_near L) i)"
    and "ll_run (lb_near L) (ll_init (lb_near L) Response) rs = Some (message_events Response rls rfvs rinfo rparts, l3)"
    and "\<forall>fv\<in>set rfvs. fst fv \<noteq> [] \<and> snd fv \<noteq> []" "\<forall>r\<in>set rs. length r \<le> 8192"
  shows "\<exists>x' resps. for_each (pair_step L) (response_steps a rs) x =
      Inr (x', map (\<lambda>b. Near (ApSession i (CsTcp (EvSend (bytes_of_string b))))) resps) \<and>
    concat resps = serialize_headers_only False None (described Response rinfo (concat rls) (map whole_header rfvs)) @
      relayed_body (flag_chunked rinfo) rparts"
proof -
  let ?p = "http_response_parser c" and ?w = "app_world c (near x)"
  have p: "relay_parser Response ?p" "hp_lib ?p = ll_init (lb_near L) Response"
    unfolding assms(5) by (simp_all add: relay_parser_def Socks5Session_new_def HttpParser_new_def hp_init_def
      set_on_message_complete_def set_on_error_def set_on_body_def set_on_headers_complete_def)
  have fa: "(\<lambda>seg. p2p_data (lb_near L) (lb_v4 L) (bytes_of_string seg) (length seg) HttpPlain) =
      response_relay.feed_all (lb_near L)"
    by (rule ext, rule ext) (simp add: p2p_data_def rd_range_def feed_response_relay)
  have "cs_tcp (cs ?w)" "http_response_parser (cs ?w) = ?p"
    using assms(1,2) by (auto simp: near_session_def app_world_def)
  moreover have "ll_run (lb_near L) (hp_lib ?p) rs = Some (message_events Response rls rfvs rinfo rparts, l3)"
    using assms(6) p(2) by simp
  note response_relay.message_relayed [OF _ _ p(1) assms(7) this]
  ultimately obtain w' resps where
    r: "for_each (\<lambda>r. p2p_data (lb_near L) (lb_v4 L) (bytes_of_string r) (length r) HttpPlain) rs ?w =
      Inr (w', map (\<lambda>b. CsTcp (EvSend (bytes_of_string b))) resps)"
    "concat resps = serialize_headers_only False None (described Response rinfo (concat rls) (map whole_header rfvs)) @
      relayed_body (flag_chunked rinfo) rparts" unfolding fa by blast
  from response_delivered [OF assms(1-4,8) r(1)] r(2) show ?thesis by blast
qed

text \<open>A request and its response, from socket to socket.\<close>

lemma http_exchanged:
  fixes ls :: "string list" and info :: ll_info and fvs :: "(string list \<times> string list) list"
  assumes "near_new (lb_near L) i (near x)" "b \<noteq> []" "hd b \<noteq> 0x05" "length b \<le> 8192"
    and "ll_execute (lb_near L) (ll_init (lb_near L) Request) (string_of_bytes b) =
      (message_events Request ls fvs info parts, LlOk, l1)"
    and "ll_execute (lb_far L) (ll_init (lb_far L) Request) (string_of_bytes b) =
      (message_events Request ls fvs info parts, LlOk, l2)"
    and "\<forall>fv\<in>set fvs. fst fv \<noteq> [] \<and> snd fv \<noteq> []" "ll_method info \<noteq> ''CONNECT''"
    and "destination (request_of ls fvs info) = Inr (host, port)" "host \<noteq> []" "length host < 256"
    and "gen_stream_id (manager (ap_mux (near x))) (ap_draws (near x)) = Some (sid, ds)"
    and "ss_reach (lb_far L) (far x)" "far_up (far x)" "send_func_set (ss_mux (far x))" "on_syn_set (ss_mux (far x))"
    and "up x = []" "down x = []"
    and "ll_run (lb_near L) (ll_init (lb_near L) Response) rs = Some (message_events Response rls rfvs rinfo rparts, l3)"
    and "\<forall>fv\<in>set rfvs. fst fv \<noteq> [] \<and> snd fv \<noteq> []" "\<forall>r\<in>set rs. length r \<le> 8192"
  shows "\<exists>x' reqs resps. for_each (pair_step L) ([AppReads i (b @ stale) (length b), DeliverUp,
      Target (ss_next (far x)) (TevConnected True), DeliverDown, DeliverUp] @ response_steps (ss_next (far x)) rs) x =
    Inr (x', [Far (SsSock (ss_next (far x)) (SiTcp (EvConnect host port)))] @
      map (\<lambda>b. Far (SsSock (ss_next (far x)) (SiTcp (EvSend (bytes_of_string b))))) reqs @
      map (\<lambda>b. Near (ApSession i (CsTcp (EvSend (bytes_of_string b))))) resps) \<and>
    concat reqs = origin_head (request_of ls fvs info) @ relayed_body (flag_chunked info) parts \<and>
    concat resps = serialize_headers_only False None (described Response rinfo (concat rls) (map whole_header rfvs)) @
      relayed_body (flag_chunked rinfo) rparts"
proof -
  let ?a = "ss_next (far x)" and ?msg = "request_of ls fvs info"
  have "message_events Request ls fvs info parts = request_head ls fvs info @ map LlBody parts @ [LlMessageComplete]"
    by (simp add: message_events_def request_head_def)
  with assms(5) have ex: "ll_execute (lb_near L) (ll_init (lb_near L) Request) (string_of_bytes b) =
      (request_head ls fvs info @ map LlBody parts @ [LlMessageComplete], LlOk, l1)" by simp
  have rest: "\<forall>e\<in>set (map LlBody parts @ [LlMessageComplete]). body_event e" "\<forall>code why. LlOk \<noteq> LlError code why"
    by auto
  from near_http_requests [OF assms(1-3) ex rest assms(7,9-12), of stale] assms(8) obtain p1 c1 where
    p1: "run_session i (process_data (lb_near L) (b @ stale) (length b)) (near x) =
        Inr (p1, [ApCtl (Link (DcSend (channel_msg (MSyn sid host port HttpPlain))))])"
      "near_side Connecting i sid HttpPlain p1" "sv_heap p1 i = Some c1" "pending_buf c1 = [b]"
      "http_response_parser c1 = http_response_parser (Socks5Session_new (lb_near L) i)" by auto
  have served: "served HttpPlain" by (simp add: served_def)
  from far_opens [OF ss_reach_inv [OF assms(13)] assms(14-16) served assms(11), of "lb_far L" "lb_garbage L" sid port]
  obtain s1 ob where s1: "ss_on_message (lb_far L) (lb_garbage L) (channel_msg (MSyn sid host port HttpPlain)) (far x) =
      Inr (s1, [SsSock ?a (SiTcp (EvConnect host port))])" "far_object (si_class (HttpSession_new (lb_far L))) False ?a sid HttpPlain s1"
    by (auto simp: first_call_def target_of_def)
  have wf: "wf_protocol HttpPlain" by simp
  note s2 = far_connected [OF s1(2) wf, of True]
  from near_flushes [OF p1(2-4) assms(4), of "lb_near L" "lb_v4 L" "lb_udp L"] p1(5) obtain p2 c2 where
    p2: "app_on_message (lb_near L) (lb_v4 L) (lb_udp L) (channel_msg (MSynack sid True HttpPlain)) p1 =
        Inr (p2, [ApCtl (Link (DcSend (channel_msg (MData sid b HttpPlain))))])"
      "near_side SessionProtocol.Connected i sid HttpPlain p2" "sv_heap p2 i = Some c2"
      "http_response_parser c2 = http_response_parser (Socks5Session_new (lb_near L) i)" by auto
  from far_gets_request [OF s1(2) assms(4,6,7), of "lb_garbage L"] obtain s3 q reqs where
    s3: "ss_on_message (lb_far L) (lb_garbage L) (channel_msg (MData sid b HttpPlain)) s1 =
        Inr (s3, map (\<lambda>b. SsSock ?a (SiTcp (EvSend (bytes_of_string b)))) reqs)"
      "concat reqs = origin_head ?msg @ relayed_body (flag_chunked info) parts"
      "far_object (HttpSession q) False ?a sid HttpPlain s3" by blast
  let ?x = "x\<lparr>near := p2, far := s3, up := [], down := []\<rparr>"
  have opened: "for_each (pair_step L) [AppReads i (b @ stale) (length b), DeliverUp, Target ?a (TevConnected True), DeliverDown, DeliverUp] x =
      Inr (?x, [Far (SsSock ?a (SiTcp (EvConnect host port)))] @ map (\<lambda>b. Far (SsSock ?a (SiTcp (EvSend (bytes_of_string b))))) reqs)"
    using p1(1) s1(1) s2 p2(1) s3(1) assms(17,18)
    by (simp add: at_near_def at_far_def andThen_def emit_def modify_def skip_def from_far_sends)
  have "near_side SessionProtocol.Connected i sid HttpPlain (near ?x)" "sv_heap (near ?x) i = Some c2"
      "far_object (HttpSession q) False ?a sid HttpPlain (far ?x)" "down ?x = []"
    using p2(2,3) s3(3) by simp_all
  from target_answers [OF this p2(4) assms(19-21)] obtain x' resps where
    answered: "for_each (pair_step L) (response_steps ?a rs) ?x =
      Inr (x', map (\<lambda>b. Near (ApSession i (CsTcp (EvSend (bytes_of_string b))))) resps)"
    and out: "concat resps = serialize_headers_only False None (described Response rinfo (concat rls) (map whole_header rfvs)) @
      relayed_body (flag_chunked rinfo) rparts" by blast
  from for_each_then [OF opened answered] s3(2) out show ?thesis unfolding append_assoc by blast
qed


subsection \<open>A library for the witnesses\<close>

text \<open>It reports what a script says for a segment.\<close>

definition scripted_llhttp :: "(string \<times> ll_event list) list \<Rightarrow> unit llhttp" where
  "scripted_llhttp script = \<lparr>ll_init = \<lambda>_. (),
     ll_execute = \<lambda>l d. (case map_of script d of None \<Rightarrow> [] | Some es \<Rightarrow> es, LlOk, l), ll_resume = \<lambda>l. l\<rparr>"

definition demo_info :: "string \<Rightarrow> ll_info" where
  "demo_info m = \<lparr>http_major = 1, http_minor = 1, ll_method = m, ll_status = 200, flag_chunked = False,
     flag_keep_alive = False, flag_close = False, flag_content_length = True, ll_content_length = 3,
     ll_upgrade = False, should_keep_alive = True\<rparr>"

definition demo_http :: "(unit, unit) libs" where
  "demo_http = demo_libs\<lparr>
     lb_near := scripted_llhttp
       [(''C'', request_head [''a.b:443''] [] (demo_info ''CONNECT'')),
        (''G'', message_events Request [''http://'', ''h/p''] [([''Host''], [''h''])] (demo_info ''GET'') [''abc'']),
        (''R'', message_events Response [''OK''] [([''A''], [''1''])] (demo_info ''GET'') [''xyz''])],
     lb_far := scripted_llhttp
       [(''G'', message_events Request [''http://'', ''h/p''] [([''Host''], [''h''])] (demo_info ''GET'') [''abc''])]\<rparr>"

lemma demo_http_new: "near_new (lb_near demo_http) 1 (near demo_pair)"
  by (simp add: near_new_def demo_pair_def demo_near_def near_up_def link_open_def NetworkRtcApp_new_def
      set_send_func_def SessionMux_new_def wf_manager_new demo_http_def scripted_llhttp_def idle_llhttp_def
      Socks5Session_new_def HttpParser_new_def hp_init_def)

end
