(* ===== verification/ClientSafety.thy ===== *)
theory ClientSafety
  imports ClientTyping
begin

text \<open>
  What a client's session survives: which events its handlers bear without undefined behaviour, and how
  they change the multiplexer all sessions share. With \<open>ClientTyping\<close> this is what \<open>ClientProgram\<close> needs
  of a session.
\<close>

subsection \<open>Sessions without a socket\<close>

text \<open>
  \<open>linked\<close> is \<open>sess_ok\<close> without the socket, which a session loses when its connection is closed. \<open>sane\<close>:
  a handler does not run into undefined behaviour and keeps that.
\<close>

definition linked :: "'l client_world \<Rightarrow> bool" where
  "linked w \<longleftrightarrow> (\<forall>q. cs_sess (cs w) = Some q \<longrightarrow> store (manager (mux w)) q \<noteq> None) \<and>
     (cs_phase (cs w) = SessionProtocol.Connected \<longrightarrow> cs_sess (cs w) \<noteq> None)"

fun sane :: "('l client_world \<times> cs_action list) cpp \<Rightarrow> bool" where
  "sane (Inl e) = no_ub e"
| "sane (Inr (w, acts)) = linked w"

lemma sess_ok_linked: "sess_ok w \<longleftrightarrow> cs_tcp (cs w) \<and> linked w"
  by (simp add: sess_ok_def linked_def)

lemma fine_sane: "fine r \<Longrightarrow> sane r"
  by (cases r rule: sane.cases) (simp_all add: sess_ok_linked)

lemma sane_andThen: "sane (m w) \<Longrightarrow> (\<And>w'. linked w' \<Longrightarrow> sane (k w')) \<Longrightarrow> sane (andThen m k w)"
proof (cases "m w")
  case (Inr r)
  obtain w1 a1 where r: "r = (w1, a1)" by (cases r)
  assume "sane (m w)" "\<And>w'. linked w' \<Longrightarrow> sane (k w')"
  with Inr r have "sane (k w1)" by simp
  with Inr r show ?thesis by (cases "k w1") (auto simp: andThen_def)
qed (simp add: andThen_def)

lemma linked_stream: "linked w \<Longrightarrow> cs_sess (cs w) \<noteq> None \<Longrightarrow> \<exists>sid. stream_id w = Inr sid"
  by (auto simp: linked_def stream_id_def split: option.splits)

lemma linked_upd:
  "linked w \<Longrightarrow> cs_sess (f (cs w)) = cs_sess (cs w) \<Longrightarrow> cs_phase (f (cs w)) = cs_phase (cs w) \<Longrightarrow> linked (cs_upd f w)"
  by (simp add: linked_def)

lemma fine_cbind: "(\<And>e. m = Inl e \<Longrightarrow> no_ub e) \<Longrightarrow> (\<And>x. m = Inr x \<Longrightarrow> fine (f x)) \<Longrightarrow> fine (cbind m f)"
  by (cases m) simp_all

lemma fine_skip: "sess_ok w \<Longrightarrow> fine (skip w)"
  by (simp add: skip_def)

lemma fine_emit: "sess_ok w \<Longrightarrow> fine (emit acts w)"
  by (simp add: emit_def)

subsection \<open>The handlers of frames\<close>

lemma fine_feed_response: "sess_ok w \<Longrightarrow> fine (feed_response ll data w)"
proof -
  have up: "sess_ok w \<Longrightarrow> fine (for_each on_response_upcall ups w)" for ups and w :: "'a client_world"
  proof (induction ups arbitrary: w)
    case (Cons u ups)
    have "fine (on_response_upcall u w)"
      using Cons.prems
      by (cases u rule: on_response_upcall.cases) (simp_all add: guarded_def fine_send fine_socket fine_skip)
    with Cons.IH show ?case by (simp add: fine_andThen)
  qed (simp add: fine_skip)
  assume "sess_ok w"
  then show ?thesis by (auto simp: feed_response_def sess_ok_def intro!: up split: prod.splits)
qed

text \<open>The protocols whose data goes to the application's connection.\<close>

definition to_socket :: "protocol \<Rightarrow> bool" where
  "to_socket prot \<longleftrightarrow> prot = Socks5Connect \<or> prot = HttpPlain \<or> prot = HttpsConnect"

definition udp_live :: "'l client_session \<Rightarrow> bool" where
  "udp_live c \<longleftrightarrow> (case cs_udp c of None \<Rightarrow> False | Some u \<Rightarrow> cu_socket u)"

text \<open>A datagram in the receive buffer that \<open>send_domain\<close> does not read past.\<close>

definition datagram_ok :: "bytes \<Rightarrow> nat \<Rightarrow> bool" where
  "datagram_ok d n \<longleftrightarrow> length d = 65536 \<and> n \<le> 65536 \<and> (d ! 3 = 3 \<longrightarrow> n \<noteq> 7 + unat (d ! 4))"

text \<open>
  What may happen to a session: its socket's data callback runs while there is a socket, and a receive buffer
  has the size it has.
\<close>

fun cs_possible :: "'l client_session \<Rightarrow> cs_event \<Rightarrow> bool" where
  "cs_possible c (CevRead d n) = (cs_tcp c \<and> length d = 8192 \<and> n \<le> 8192)"
| "cs_possible c (CevUdp (UdpGot host port d n)) = (length d = 65536 \<and> n \<le> 65536)"
| "cs_possible c _ = True"

text \<open>
  A stray frame: the socket or the UDP session it is for is gone, or the socket an answer's reply is written to.
\<close>

fun cs_stray :: "'l client_session \<Rightarrow> cs_event \<Rightarrow> bool" where
  "cs_stray c (CevPeerData d n prot) =
     ((to_socket prot \<and> \<not> cs_tcp c) \<or> (prot = UdpAssociate \<and> \<not> udp_live c))"
| "cs_stray c (CevSynack ok prot) =
     (\<not> cs_tcp c \<or> (prot = UdpAssociate \<and> cs_udp c \<noteq> None \<and> \<not> udp_live c))"
| "cs_stray c _ = False"

text \<open>A bare datagram: a SOCKS5 UDP request for a domain name that ends where its data should begin.\<close>

fun cs_bare :: "'l client_session \<Rightarrow> cs_event \<Rightarrow> bool" where
  "cs_bare c (CevUdp (UdpGot host port d n)) =
     (case cs_udp c of None \<Rightarrow> False
      | Some u \<Rightarrow> (client_known u \<longrightarrow> host = remote_ip u) \<and> d ! 3 = 3 \<and> n = 7 + unat (d ! 4))"
| "cs_bare c _ = False"

text \<open>
  What a session can bear. The socket's data callback runs while there is a socket. A frame for the
  socket finds it, one for the UDP session finds that; an answer finds the socket the reply is written to.
\<close>

fun cs_ready :: "'l client_session \<Rightarrow> cs_event \<Rightarrow> bool" where
  "cs_ready c (CevRead d n) = (cs_tcp c \<and> length d = 8192 \<and> n \<le> 8192)"
| "cs_ready c (CevPeerData d n prot) =
     ((to_socket prot \<longrightarrow> cs_tcp c) \<and> (prot = UdpAssociate \<longrightarrow> udp_live c))"
| "cs_ready c (CevSynack ok prot) =
     (cs_tcp c \<and> (prot = UdpAssociate \<longrightarrow> cs_udp c = None \<or> udp_live c))"
| "cs_ready c (CevUdp (UdpGot host port d n)) =
     (length d = 65536 \<and> n \<le> 65536 \<and> \<not> cs_bare c (CevUdp (UdpGot host port d n)))"
| "cs_ready c _ = True"

lemma cs_ready_iff: "cs_ready c e \<longleftrightarrow> cs_possible c e \<and> \<not> cs_stray c e \<and> \<not> cs_bare c e"
proof (cases e)
  case (CevUdp r)
  then show ?thesis by (cases r) auto
qed auto

text \<open>What the multiplexer sees to: an answer is for a session that asked, a payload has its length.\<close>

fun cs_called :: "'l client_session \<Rightarrow> cs_event \<Rightarrow> bool" where
  "cs_called c (CevPeerData d n prot) = (n \<le> length d)"
| "cs_called c (CevSynack ok prot) = (cs_sess c \<noteq> None)"
| "cs_called c _ = True"

lemma cs_called_bears: "cs_called (cs w) e \<Longrightarrow> cs_bears w e"
  by (cases e) simp_all

lemma cu_revP2pData_errors:
  assumes "cu_revP2pData v4 d n u = Inl e" "n \<le> length d" "cu_socket u"
  shows "no_ub e"
proof -
  from decode_udp_payload_safe [OF assms(2)] obtain r where r: "decode_udp_payload d n = Inr r" by (rule safeE)
  show ?thesis
  proof (cases r)
    case (Some t)
    obtain host port data where t: "t = (host, port, data)" by (cases t)
    from assms(1,3) show ?thesis
      by (cases "v4 host") (auto simp: cu_revP2pData_def r Some t no_ub_def)
  qed (use assms(1) in \<open>simp add: cu_revP2pData_def r\<close>)
qed

lemma sane_p2p_data:
  assumes "linked w" "cs_ready (cs w) (CevPeerData d n prot)" "n \<le> length d"
  shows "sane (p2p_data ll v4 d n prot w)"
proof -
  have range: "rd_range d 0 n = Inr (take n d)" using assms(3) by (simp add: rd_range_def)
  have tcp: "sess_ok w" if "to_socket prot" using that assms by (simp add: sess_ok_linked)
  show ?thesis
  proof (cases prot)
    case UdpAssociate
    with assms(2) obtain u where u: "cs_udp (cs w) = Some u" "cu_socket u"
      by (auto simp: udp_live_def split: option.splits)
    show ?thesis
    proof (cases "cu_revP2pData v4 d n u")
      case (Inl e)
      with cu_revP2pData_errors [OF Inl assms(3) u(2)] u show ?thesis by (simp add: p2p_data_def UdpAssociate)
    qed (use assms u in \<open>simp add: p2p_data_def UdpAssociate emit_def\<close>)
  qed (use assms tcp in \<open>auto simp: p2p_data_def to_socket_def range sock_send_n_def skip_def
      intro!: fine_sane fine_send fine_feed_response\<close>)
qed

lemma peer_data_returns:
  assumes "linked w" "cs_sess (cs w) \<noteq> None" "n \<le> length d"
  obtains acts where "peer_data d n w = Inr (w, acts)"
proof -
  from linked_stream [OF assms(1,2)] obtain sid where "stream_id w = Inr sid" by blast
  with assms(3) that show ?thesis by (simp add: peer_data_def send_data_def rd_range_def emit_def)
qed

lemma fine_pending:
  "sess_ok w \<Longrightarrow> cs_sess (cs w) \<noteq> None \<Longrightarrow> fine (for_each (\<lambda>b. peer_data b (length b)) bs w)"
proof (induction bs arbitrary: w)
  case (Cons b bs)
  from Cons.prems peer_data_returns [of w "length b" b] obtain acts where
    r: "peer_data b (length b) w = Inr (w, acts)" by (auto simp: sess_ok_linked)
  from Cons.IH [OF Cons.prems] show ?case
    by (cases "for_each (\<lambda>b. peer_data b (length b)) bs w") (auto simp: andThen_def r)
qed (simp add: fine_skip)

lemma fine_udp_reply: "sess_ok w \<Longrightarrow> fine (send_udp_reply v4 host port w)"
  by (cases "v4 host") (simp_all add: send_udp_reply_def no_ub_def fine_send)

lemma fine_udp_connected:
  assumes "sess_ok w" "cs_udp (cs w) = None \<or> udp_live (cs w)"
  shows "fine (udp_connected ue ok w)"
proof -
  let ?reply = "\<lambda>w1. case cs_udp (cs w1) of None \<Rightarrow> Inl NullDeref
      | Some u \<Rightarrow> cbind (cu_getLocalPort (ue_port_at_reply ue) u) (\<lambda>port.
          send_udp_reply (ue_v4 ue) (ue_local_ip ue) port w1)"
  have reply: "fine (?reply w)" if "sess_ok w" "cs_udp (cs w) = Some u" "cu_socket u" for u and w :: "'a client_world"
    using that by (auto simp: cu_getLocalPort_def no_ub_def split: option.splits intro!: fine_cbind fine_udp_reply)
  let ?u = "UdpSession_new (cs_session_id (cs w)) (ue_garbage ue)"
  show ?thesis
  proof (cases "cs_udp (cs w) = None")
    case True
    let ?w = "cs_upd (\<lambda>s. s\<lparr>cs_udp := Some ?u\<rparr>) w"
    have ok: "sess_ok ?w" using assms(1) by (simp add: sess_ok_def)
    from reply [OF ok] have "fine (?reply ?w)" by (simp add: UdpSession_new_def)
    then have "fine (andThen (emit (map CsUdp acts)) ?reply ?w)" for acts
      by (cases "?reply ?w") (auto simp: andThen_def emit_def)
    moreover have "cu_start (ue_debug ue) (ue_port_at_start ue) ?u = Inr (st, u, acts) \<Longrightarrow> st \<and> u = ?u" for st u acts
      by (auto simp: cu_start_def cbind_eq_Inr split: if_splits)
    moreover have "cu_start (ue_debug ue) (ue_port_at_start ue) ?u = Inl e \<Longrightarrow> no_ub e" for e
      by (auto simp: cu_start_def cu_getLocalPort_def UdpSession_new_def no_ub_def cbind_eq_Inl split: if_splits option.splits)
    ultimately have "fine (cbind (cu_start (ue_debug ue) (ue_port_at_start ue) ?u) (\<lambda>(started, u, acts).
        andThen (emit (map CsUdp acts)) (if started then ?reply else send_socks_reply 0x01)
          (cs_upd (\<lambda>s. s\<lparr>cs_udp := Some u\<rparr>) w)))"
      by (cases "cu_start (ue_debug ue) (ue_port_at_start ue) ?u") (fastforce split: prod.splits)+
    with True assms(1) show ?thesis
      by (simp add: udp_connected_def Let_def send_socks_reply_def fine_send)
  next
    case False
    with assms(2) obtain u where u: "cs_udp (cs w) = Some u" "cu_socket u"
      by (auto simp: udp_live_def split: option.splits)
    from reply [OF assms(1) this] u assms(1) show ?thesis
      by (simp add: udp_connected_def Let_def send_socks_reply_def fine_send)
  qed
qed

lemma sane_synack:
  assumes "linked w" "cs_sess (cs w) \<noteq> None" "cs_ready (cs w) (CevSynack ok prot)"
  shows "sane (p2p_synack ue ok prot w)"
proof -
  from assms have live: "sess_ok w" by (simp add: sess_ok_linked)
  have http: "fine (http_connected ok w)"
    using live assms(2)
    by (auto simp: http_connected_def fine_send modify_def sess_ok_def intro!: fine_andThen fine_pending)
  have reply: "fine (synack_reply ue ok prot w)"
    using assms(3) live http
    by (cases prot) (simp_all add: synack_reply_def https_connected_def send_socks_reply_def fine_send fine_skip
        fine_udp_connected)
  let ?fin = "if \<not> ok then andThen (set_phase SessionProtocol.Closed) (on_socket EvClose) else set_phase SessionProtocol.Connected"
  have fin: "fine (?fin w1)" if "sess_ok w1" "cs_sess (cs w1) \<noteq> None" for w1 :: "'a client_world"
    using that by (auto simp: set_phase_run sess_ok_def andThen_def on_socket_def emit_def)
  show ?thesis
  proof (cases "synack_reply ue ok prot w")
    case (Inl e)
    with reply show ?thesis by (simp add: p2p_synack_def andThen_def)
  next
    case (Inr r)
    obtain w1 a1 where r: "r = (w1, a1)" by (cases r)
    from keeps_sess_synack Inr r have "cs_sess (cs w1) = cs_sess (cs w)" unfolding keeps_sess_def by blast
    with reply Inr r assms(2) have "fine (?fin w1)" by (intro fin) simp_all
    then have "fine (p2p_synack ue ok prot w)"
      by (cases "?fin w1") (auto simp: p2p_synack_def andThen_def Inr r)
    then show ?thesis by (rule fine_sane)
  qed
qed

subsection \<open>Closing\<close>

lemma sane_closing:
  assumes "linked w"
  shows "sane (cs_close w)" "sane (p2p_close prot w)" "sane (on_tcp_close w)" "sane (cs_destroy w)"
proof -
  have close: "sane (cs_close w)" if "linked w" for w :: "'a client_world"
    using that by (auto simp: cs_close_def on_socket_def emit_def skip_def)
  show "sane (cs_close w)" by (rule close [OF assms])
  show "sane (p2p_close prot w)"
    unfolding p2p_close_def using assms by (auto simp: modify_def linked_upd intro!: sane_andThen close)
  show "sane (on_tcp_close w)"
  proof -
    have "sane (close_session w)"
    proof (cases "cs_sess (cs w) = None")
      case True
      with assms show ?thesis
        by (simp add: close_session_def emit_def andThen_def modify_def linked_upd)
    next
      case False
      with linked_stream [OF assms] obtain sid where "stream_id w = Inr sid" by blast
      with assms show ?thesis
        by (simp add: close_session_def emit_def andThen_def modify_def linked_upd)
    qed
    then show ?thesis
      unfolding on_tcp_close_def by (auto simp: modify_def linked_upd intro!: sane_andThen)
  qed
  show "sane (cs_destroy w)"
  proof (cases "cs_sess (cs w) = None")
    case True
    with assms show ?thesis by (simp add: cs_destroy_def emit_def andThen_def skip_def)
  next
    case False
    then obtain q where q: "cs_sess (cs w) = Some q" by blast
    from False linked_stream [OF assms] obtain sid where "stream_id w = Inr sid" by blast
    with assms q show ?thesis
      by (simp add: cs_destroy_def emit_def andThen_def modify_def linked_def SessionMux_remove_session_def
          remove_session_def)
  qed
qed

subsection \<open>Datagrams\<close>

lemma send_p2p_data_no_error:
  assumes "datagram_ok d n"
  shows "\<exists>acts. send_p2p_data x d n u = Inr acts"
proof -
  from assms have d: "length d = 65536" "n \<le> 65536" by (simp_all add: datagram_ok_def)
  have rds: "rd d k = Inr (d ! k)" if "k < 65536" for k using that d by (simp add: rd_def)
  have "\<exists>acts. send_ipv4 x d n u = Inr acts"
  proof (cases "n < 10")
    case False
    with d encode_udp_payload_ok [of "n - 10" "drop 10 d"] show ?thesis
      by (auto simp: send_ipv4_def rd_range_def Let_def send_data_all cbind_eq_Inr)
  qed (simp add: send_ipv4_def)
  moreover have "\<exists>acts. send_domain x d n u = Inr acts" if atyp: "d ! 3 = 3"
  proof -
    let ?len = "unat (d ! 4)"
    have len: "?len < 256" using unsigned_less [of "d ! 4"] by simp
    show ?thesis
    proof (cases "n < 5 \<or> 5 + ?len + 2 > n")
      case False
      with assms atyp have n: "8 + ?len \<le> n" by (auto simp: datagram_ok_def)
      then have "size_sub n (8 + ?len) \<le> length (drop (8 + ?len) d)" using d by (simp add: size_sub_def)
      from encode_udp_payload_ok [OF this] False d len show ?thesis
        by (fastforce simp: send_domain_def rds rd_range_def Let_def send_data_all cbind_eq_Inr)
    qed (auto simp: send_domain_def rds Let_def)
  qed
  ultimately show ?thesis by (simp add: send_p2p_data_def rds)
qed

lemma sane_udp:
  assumes "linked w" "cs_ready (cs w) (CevUdp r)"
  shows "sane (cs_on_udp r w)"
proof (cases "cs_udp (cs w)")
  case (Some u)
  have "\<exists>u1 acts. cu_handle r (mux w) u = Inr (u1, acts)"
  proof (cases r)
    case (UdpGot host port d n)
    with assms(2) Some have "client_known u \<and> host \<noteq> remote_ip u \<or> datagram_ok d n"
      by (auto simp: datagram_ok_def)
    with UdpGot send_p2p_data_no_error [of d n "mux w"] show ?thesis
      by (auto simp: cu_on_data_def Let_def cbind_eq_Inr)
  qed simp_all
  with assms(1) Some show ?thesis by (auto simp: cs_on_udp_def emit_def linked_upd)
qed (use assms in \<open>simp add: cs_on_udp_def skip_def\<close>)

text \<open>A bare datagram is read past the receive buffer: the length of its data wraps to \<open>2 ^ 64 - 1\<close>.\<close>

lemma bare_out_of_bounds:
  assumes "cs_possible (cs w) e" "cs_bare (cs w) e"
  shows "cs_handle ll v4 ue e w = Inl OutOfBounds"
proof -
  from assms(2) obtain host port d n u where e: "e = CevUdp (UdpGot host port d n)" "cs_udp (cs w) = Some u"
    "client_known u \<longrightarrow> host = remote_ip u" "d ! 3 = 3" "n = 7 + unat (d ! 4)"
    by (cases "(cs w, e)" rule: cs_bare.cases) (auto split: option.splits)
  with assms(1) have d: "length d = 65536" by simp
  let ?len = "unat (d ! 4)"
  have len: "?len < 256" using unsigned_less [of "d ! 4"] by simp
  have rds: "rd d k = Inr (d ! k)" if "k < 65536" for k using that d by (simp add: rd_def)
  have big: "size_sub (7 + ?len) (8 + ?len) = 2 ^ 64 - 1" by (simp add: size_sub_def)
  have "rd_range (drop (8 + ?len) d) 0 (2 ^ 64 - 1) = Inl OutOfBounds" using d by (simp add: rd_range_def)
  then have enc: "encode_udp_payload h p (drop (8 + ?len) d) (2 ^ 64 - 1) = Inl OutOfBounds" for h p
    by (simp add: encode_udp_payload_def)
  have "send_domain (mux w) d n v = Inl OutOfBounds" for v
    using e(5) len d enc by (simp add: send_domain_def rds rd_range_def Let_def big)
  then have "send_p2p_data (mux w) d n v = Inl OutOfBounds" for v
    by (simp add: send_p2p_data_def rds e(4))
  then have "cu_handle (UdpGot host port d n) (mux w) u = Inl OutOfBounds"
    using e(3) by (auto simp: cu_on_data_def Let_def)
  then show ?thesis by (simp add: e(1,2) cs_on_udp_def)
qed

text \<open>Every event a session can bear.\<close>

lemma sane_handle:
  assumes "linked w" "cs_ready (cs w) e" "cs_called (cs w) e"
  shows "sane (cs_handle ll v4 ue e w)"
  using assms sane_closing [OF assms(1)]
  by (cases e) (auto simp: sess_ok_linked intro: fine_sane [OF fine_process_data] sane_p2p_data sane_synack sane_udp)

subsection \<open>What a session does to the multiplexer\<close>

text \<open>
  Session objects are only added, with callbacks of the session that asks for them, and from then on the
  session holds one. \<open>kept\<close> says so of a handler's outcome.
\<close>

definition evolves :: "'l client_world \<Rightarrow> 'l client_world \<Rightarrow> bool" where
  "evolves w w' \<longleftrightarrow> cs_session_id (cs w') = cs_session_id (cs w) \<and>
     (cs_sess (cs w) \<noteq> None \<longrightarrow> cs_sess (cs w') \<noteq> None) \<and>
     (wf_manager (manager (mux w)) \<longrightarrow> wf_manager (manager (mux w')) \<and>
       (\<forall>q s. store (manager (mux w)) q = Some s \<longrightarrow> store (manager (mux w')) q = Some s) \<and>
       (\<forall>q s. store (manager (mux w')) q = Some s \<longrightarrow> store (manager (mux w)) q = Some s \<or>
          on_synack s = Some (cs_session_id (cs w)) \<and> cs_sess (cs w') \<noteq> None))"

definition kept :: "'l client_world \<Rightarrow> ('l client_world \<times> cs_action list) cpp \<Rightarrow> bool" where
  "kept w r \<longleftrightarrow> (\<forall>w' acts. r = Inr (w', acts) \<longrightarrow> evolves w w')"

lemma evolves_refl [simp]: "evolves w w"
  by (simp add: evolves_def)

lemma evolves_trans: "evolves w w1 \<Longrightarrow> evolves w1 w2 \<Longrightarrow> evolves w w2"
  unfolding evolves_def by metis

lemma evolves_upd:
  "cs_session_id (f (cs w)) = cs_session_id (cs w) \<Longrightarrow> cs_sess (f (cs w)) = cs_sess (cs w) \<Longrightarrow> evolves w (cs_upd f w)"
  by (simp add: evolves_def)

lemma kept_simps [simp]:
  "kept w (Inl e)" "kept w (Inr (w', acts)) = evolves w w'"
  by (simp_all add: kept_def)

lemma kept_from: "evolves w w1 \<Longrightarrow> kept w1 r \<Longrightarrow> kept w r"
  unfolding kept_def by (blast intro: evolves_trans)

lemma kept_andThen: "kept w (m w) \<Longrightarrow> (\<And>w'. kept w' (k w')) \<Longrightarrow> kept w (andThen m k w)"
  unfolding kept_def andThen_Inr by (blast intro: evolves_trans)

lemma kept_cbind: "(\<And>x. kept w (f x)) \<Longrightarrow> kept w (cbind m f)"
  by (cases m) simp_all

lemma kept_for_each: "(\<And>x w. kept w (f x w)) \<Longrightarrow> kept w (for_each f xs w)"
  by (induction xs arbitrary: w) (auto simp: skip_def intro!: kept_andThen)

lemma kept_upd:
  "(\<And>s. cs_session_id (f s) = cs_session_id s) \<Longrightarrow> (\<And>s. cs_sess (f s) = cs_sess s) \<Longrightarrow> kept w (modify (cs_upd f) w)"
  by (simp add: modify_def evolves_upd)

lemma kept_calls [simp]:
  "kept w (skip w)" "kept w (emit acts w)" "kept w (on_socket e w)" "kept w (sock_send b w)"
  "kept w (sock_send_n d n w)" "kept w (peer_data d n w)" "kept w (send_socks_reply c w)"
  "kept w (set_phase ph w)" "kept w (cs_close w)"
  by (auto simp: skip_def emit_def on_socket_def sock_send_def sock_send_n_def peer_data_def send_socks_reply_def
      set_phase_run cs_close_def intro!: kept_cbind evolves_upd)

lemma kept_request: "kept w (request_remote_connect w)"
proof (cases "SessionMux_create_session (mux w) (draws w)")
  case (Some r)
  obtain q x1 ds where r: "r = (q, x1, ds)" by (cases r)
  let ?m = "manager (mux w)" and ?me = "cs_session_id (cs w)"
  let ?x = "x1\<lparr>manager := update_session q (set_on_close ?me)
      (update_session q (set_on_synack ?me) (update_session q (set_on_data ?me) (manager x1)))\<rparr>"
  let ?w = "(cs_upd (\<lambda>s. s\<lparr>cs_sess := Some q\<rparr>) w)\<lparr>mux := ?x, draws := ds\<rparr>"
  from Some r obtain sid where q: "q = next_ptr ?m" "manager x1 = snd (create_session_at ?m sid)"
    by (auto simp: SessionMux_create_session_def create_session_def create_session_at_def Let_def split: option.splits)
  have store: "store (manager ?x) = (store ?m)(q \<mapsto> \<lparr>on_data = Some ?me, on_synack = Some ?me, on_close = Some ?me,
      on_data_ctrl = None, sess_stream_id = sid\<rparr>)"
    by (simp add: q update_session_def create_session_at_def Let_def Session_new_def set_on_data_def
        set_on_synack_def set_on_close_def)
  have "wf_manager (manager ?x)" if "wf_manager ?m"
  proof -
    have "wf_manager (manager x1)"
      using wf_create_session_at [OF that] by (simp add: q(2) create_session_at_def Let_def)
    then show ?thesis
      by simp (intro wf_update_session; simp add: set_on_data_def set_on_synack_def set_on_close_def)
  qed
  moreover have "store ?m q = None" if "wf_manager ?m" using wf_manager_fresh [OF that] by (simp add: q)
  ultimately have "evolves w ?w" using store by (auto simp: evolves_def)
  moreover have "kept ?w (cbind (stream_id ?w) (\<lambda>sid.
             andThen
               (emit (peer_frame (send_syn ?x sid (cs_target_host (cs ?w)) (cs_target_port (cs ?w))
                 (cs_protocol (cs ?w)))))
               (modify (cs_upd (\<lambda>s. s\<lparr>cs_phase := Connecting\<rparr>))) ?w))"
    by (intro kept_cbind kept_andThen kept_upd) simp_all
  ultimately show ?thesis
    unfolding request_remote_connect_def Some r option.case prod.case Let_def by (rule kept_from)
qed (simp add: request_remote_connect_def)

lemma kept_set: "(\<And>s. cs_session_id (f s) = cs_session_id s) \<Longrightarrow> (\<And>s. cs_sess (f s) = cs_sess s) \<Longrightarrow>
    (\<And>w. kept w (k w)) \<Longrightarrow> kept w (andThen (modify (cs_upd f)) k w)"
  by (intro kept_andThen kept_upd)

lemma kept_request_headers: "kept w (on_request_headers msg w)"
proof (cases "split_host_port (if m_method msg = ''CONNECT'' then target msg else get_header msg ''Host'')")
  case (Inr hp)
  obtain host port where hp: "hp = (host, port)" by (cases hp)
  let ?w = "cs_upd (\<lambda>s. s\<lparr>cs_target_host := host, cs_target_port := port\<rparr>) w"
  have "evolves w ?w" by (intro evolves_upd) simp_all
  moreover have "kept ?w (andThen (modify (cs_upd (\<lambda>s. s\<lparr>cs_protocol := prot\<rparr>))) request_remote_connect ?w)" for prot
    by (intro kept_set kept_request) simp_all
  ultimately have "kept w (andThen (modify (cs_upd (\<lambda>s. s\<lparr>cs_protocol := prot\<rparr>))) request_remote_connect ?w)"
      "kept w (on_socket EvClose ?w)" for prot
    by (auto intro: kept_from)
  then show ?thesis by (cases "host = []") (simp_all add: on_request_headers_def Inr hp Let_def)
qed (simp add: on_request_headers_def)

lemma kept_feeds: "kept w (feed_request ll data w)" "kept w (feed_response ll data w)"
proof -
  have req: "kept w (on_request_upcall u w)" for u and w :: "'a client_world"
    by (cases u rule: on_request_upcall.cases) (simp_all add: kept_request_headers)
  have resp: "kept w (on_response_upcall u w)" for u and w :: "'a client_world"
    by (cases u rule: on_response_upcall.cases) (simp_all add: guarded_def)
  show "kept w (feed_request ll data w)"
  proof (cases "feed ll data (http_request_parser (cs w))")
    case (fields a ups p)
    have "evolves w (cs_upd (\<lambda>s. s\<lparr>http_request_parser := p\<rparr>) w)" by (intro evolves_upd) simp_all
    with kept_for_each [of on_request_upcall, OF req] show ?thesis
      by (auto simp: feed_request_def fields intro: kept_from)
  qed
  show "kept w (feed_response ll data w)"
  proof (cases "feed ll data (http_response_parser (cs w))")
    case (fields a ups p)
    have "evolves w (cs_upd (\<lambda>s. s\<lparr>http_response_parser := p\<rparr>) w)" by (intro evolves_upd) simp_all
    with kept_for_each [of on_response_upcall, OF resp] show ?thesis
      by (auto simp: feed_response_def fields intro: kept_from)
  qed
qed

text \<open>The loop over a read.\<close>

definition kept_step :: "'l client_world \<Rightarrow> (nat \<times> 'l client_world \<times> cs_action list) cpp \<Rightarrow> bool" where
  "kept_step w r \<longleftrightarrow> (\<forall>n w' acts. r = Inr (n, w', acts) \<longrightarrow> evolves w w')"

lemma kept_returns: "kept w (m w) \<Longrightarrow> kept_step w (returns k m w)"
  by (auto simp: kept_def kept_step_def returns_eq_Inr)

lemma kept_step_cbind: "(\<And>x. kept_step w (f x)) \<Longrightarrow> kept_step w (cbind m f)"
  by (cases m) (simp_all add: kept_step_def)

lemma kept_step_if: "kept_step w a \<Longrightarrow> kept_step w b \<Longrightarrow> kept_step w (if c then a else b)"
  by simp

lemma kept_if: "kept w (m w) \<Longrightarrow> kept w (k w) \<Longrightarrow> kept w ((if c then m else k) w)"
  by simp

lemma kept_socks_step: "socks_step ph d len = Some h \<Longrightarrow> kept_step w (h w)"
  by (cases ph)
    (auto simp: handle_greeting_version_def handle_socks_methods_def handle_socks_tcp_udp_def
      handle_socks_ipv4_def handle_socks_domain_def Let_def
      intro!: kept_step_cbind kept_returns kept_andThen kept_upd kept_request)

lemma kept_loop:
  "consume_loop d len consumed w = Inr (go, w', acts) \<Longrightarrow> evolves w w'"
proof (induction d len consumed w arbitrary: go w' acts rule: consume_loop.induct)
  case (1 d len consumed w)
  show ?case
  proof (cases "leaves_loop (cs_phase (cs w)) \<or> len \<le> consumed")
    case True
    with "1.prems" show ?thesis by (simp add: loop_stop)
  next
    case False
    show ?thesis
    proof (cases "socks_step (cs_phase (cs w)) d len :: 'a socks_handler option")
      case None
      with False "1.prems" show ?thesis by (subst (asm) consume_loop.simps) simp
    next
      case (Some h)
      with False "1.prems" obtain n w1 a1 where h: "h w = Inr (n, w1, a1)"
        by (subst (asm) consume_loop.simps) (auto simp: cbind_eq_Inr)
      with kept_socks_step [OF Some, of w] have e: "evolves w w1" by (simp add: kept_step_def)
      show ?thesis
      proof (cases "cs_phase (cs w1) = SessionProtocol.Closed")
        case True
        with False Some h "1.prems" have "w' = w1"
          by (subst (asm) consume_loop.simps) (auto simp: cbind_eq_Inr on_socket_def emit_def split: if_splits)
        with e show ?thesis by simp
      next
        case open1: False
        with False Some h "1.prems" obtain a2 where "consume_loop d len (consumed + n) w1 = Inr (go, w', a2)"
          by (subst (asm) consume_loop.simps) (auto simp: cbind_eq_Inr)
        from "1.IH" [OF False Some h refl refl open1 this] e show ?thesis by (blast intro: evolves_trans)
      qed
    qed
  qed
qed

lemma kept_process_data: "kept w (process_data ll d n w)"
proof -
  have "kept w (consume_pending ll d n w)"
  proof (cases "consume_loop d n 0 w")
    case (Inr r)
    obtain go w1 a1 where r: "r = (go, w1, a1)" by (cases r)
    from kept_loop [OF Inr [unfolded r]] have e: "evolves w w1" .
    have "kept w1 (andThen (feed_request ll s) (modify (cs_upd (\<lambda>c. c\<lparr>pending_buf := pending_buf c @ [b]\<rparr>))) w1)" for s b
      by (intro kept_andThen kept_feeds kept_upd) simp_all
    note fed = kept_from [OF e this, unfolded kept_def]
    show ?thesis
      using e fed by (auto simp: consume_pending_def Inr r kept_def cbind_eq_Inr split: if_splits)
  qed (simp add: consume_pending_def)
  then show ?thesis by (auto simp: process_data_def split: protocol.splits)
qed

lemma kept_udp_connected: "kept w (udp_connected ue ok w)"
proof -
  have reply: "kept w (case cs_udp (cs w) of None \<Rightarrow> Inl NullDeref
      | Some u \<Rightarrow> cbind (cu_getLocalPort (ue_port_at_reply ue) u) (\<lambda>port.
          send_udp_reply (ue_v4 ue) (ue_local_ip ue) port w))" for w :: "'a client_world"
    by (auto simp: send_udp_reply_def intro!: kept_cbind split: option.splits)
  have "kept w (andThen m k (cs_upd (\<lambda>s. s\<lparr>cs_udp := Some u\<rparr>) w))"
    if "\<And>w. kept w (m w)" "\<And>w. kept w (k w)" for u m k
    by (rule kept_from [OF evolves_upd kept_andThen]) (simp_all add: that)
  note start = this [where m = "emit (map CsUdp acts)" for acts]
  show ?thesis
    by (auto simp: udp_connected_def Let_def reply intro!: kept_cbind start split: prod.splits)
qed

lemma kept_synack: "kept w (p2p_synack ue ok prot w)"
proof -
  have "kept w (http_connected ok w)" for w :: "'a client_world"
    by (auto simp: http_connected_def intro!: kept_andThen kept_for_each kept_upd)
  then have "kept w (synack_reply ue ok prot w)" for w :: "'a client_world"
    by (cases prot) (simp_all add: synack_reply_def https_connected_def kept_udp_connected)
  then show ?thesis unfolding p2p_synack_def by (auto intro!: kept_andThen)
qed

lemma kept_destroy: "kept w (cs_destroy w)"
proof -
  have "kept w (modify (\<lambda>w2. w2\<lparr>mux := SessionMux_remove_session sid (mux w2)\<rparr>) w)" for sid and w :: "'a client_world"
    by (auto simp: modify_def evolves_def SessionMux_remove_session_def wf_remove_session)
      (simp_all add: remove_session_def)
  then show ?thesis unfolding cs_destroy_def by (auto intro!: kept_andThen kept_cbind)
qed

lemma kept_handle: "kept w (cs_handle ll v4 ue e w)"
proof (cases e)
  case (CevPeerData d n prot)
  then show ?thesis
    by (auto simp: p2p_data_def intro!: kept_cbind kept_feeds split: protocol.splits option.splits)
next
  case (CevFin prot)
  then show ?thesis by (auto simp: p2p_close_def intro!: kept_set)
next
  case CevTcpClosed
  have "kept w (close_session w)" for w :: "'a client_world"
    by (auto simp: close_session_def intro!: kept_cbind kept_andThen kept_upd)
  then show ?thesis unfolding CevTcpClosed cs_handle.simps on_tcp_close_def by (intro kept_andThen kept_upd) simp_all
next
  case (CevUdp r)
  have "kept w (emit acts (cs_upd (\<lambda>s. s\<lparr>cs_udp := u\<rparr>) w))" for acts u
    by (simp add: emit_def evolves_upd)
  with CevUdp show ?thesis by (auto simp: cs_on_udp_def intro!: kept_cbind split: option.splits prod.splits)
qed (simp_all add: kept_process_data kept_synack)

subsection \<open>What an event leaves behind that did not fail\<close>

text \<open>A stray frame may do no harm: then the session still holds what it held.\<close>

lemma linked_evolves:
  assumes "linked w" "evolves w w'" "wf_manager (manager (mux w))" "cs_sess (cs w') = cs_sess (cs w)"
    and "cs_phase (cs w') = SessionProtocol.Connected \<Longrightarrow> cs_sess (cs w') \<noteq> None"
  shows "linked w'"
  using assms unfolding linked_def evolves_def by (metis option.exhaust)

lemma p2p_data_link:
  assumes "p2p_data ll v4 d n prot w = Inr (w', a)"
  shows "cs_sess (cs w') = cs_sess (cs w) \<and> cs_phase (cs w') = cs_phase (cs w)"
proof (cases prot)
  case HttpPlain
  with assms obtain b where "feed_response ll (string_of_bytes b) w = Inr (w', a)"
    by (auto simp: p2p_data_def cbind_eq_Inr)
  then show ?thesis
    by (cases "feed ll (string_of_bytes b) (http_response_parser (cs w))")
      (auto simp: feed_response_def dest!: response_upcalls_same)
qed (use assms in \<open>auto simp: p2p_data_def sock_send_n_def sock_send_def on_socket_def emit_def skip_def cbind_eq_Inr
      split: option.splits if_splits\<close>)

lemma keeps_p2p_synack: "keeps_sess (p2p_synack ue ok prot :: 'l cs_handler)"
proof -
  have phase: "keeps_sess (set_phase ph :: 'l cs_handler)" for ph
    unfolding set_phase_def by (intro keeps_sess_simps) simp
  have "keeps_sess (on_socket ev :: 'l cs_handler)" for ev
    by (auto simp: keeps_sess_def on_socket_def emit_def split: if_splits)
  with phase show ?thesis
    unfolding p2p_synack_def by (cases ok) (auto intro!: keeps_sess_andThen keeps_sess_synack)
qed

lemma linked_handle:
  assumes "linked w" "wf_manager (manager (mux w))" "cs_possible (cs w) e" "cs_called (cs w) e"
    and "cs_handle ll v4 ue e w = Inr (w', acts)"
  shows "linked w'"
proof (cases "cs_ready (cs w) e")
  case True
  from sane_handle [OF assms(1) True assms(4), of ll v4 ue] assms(5) show ?thesis by simp
next
  case False
  with assms(3) have "cs_stray (cs w) e \<or> cs_bare (cs w) e" by (simp add: cs_ready_iff)
  with bare_out_of_bounds [OF assms(3), of ll v4 ue] assms(5) have stray: "cs_stray (cs w) e" by auto
  from kept_handle assms(5) have ev: "evolves w w'" by (metis kept_simps(2))
  from stray show ?thesis
  proof (cases "(cs w, e)" rule: cs_stray.cases)
    case (1 c d n prot)
    with assms(5) have "p2p_data ll v4 d n prot w = Inr (w', acts)" by simp
    from p2p_data_link [OF this] have "cs_sess (cs w') = cs_sess (cs w)" "cs_phase (cs w') = cs_phase (cs w)" by simp_all
    with linked_evolves [OF assms(1) ev assms(2)] assms(1) show ?thesis by (simp add: linked_def)
  next
    case (2 c ok prot)
    with assms(4) have "cs_sess (cs w) \<noteq> None" by simp
    moreover from this ev have "cs_sess (cs w') \<noteq> None" by (simp add: evolves_def)
    moreover have "cs_sess (cs w') = cs_sess (cs w)"
      using keeps_p2p_synack [of ue ok prot] 2 assms(5) unfolding keeps_sess_def by auto
    ultimately show ?thesis using linked_evolves [OF assms(1) ev assms(2)] by simp
  qed simp_all
qed

end
