(* ===== verification/ClientProgram.thy ===== *)
theory ClientProgram
  imports ClientSafety NetworkRtcApp
begin

text \<open>
  The client program as a state machine: everything that happens to \<open>NetworkRtcApp\<close> and \<open>SocksServer\<close>, the
  states that can be reached, and what holds of them.
\<close>

subsection \<open>Events\<close>

record 'l client_env =
  ce_llhttp :: "'l llhttp"
  ce_parse :: "string \<Rightarrow> json option"
  ce_dump :: "json \<Rightarrow> string"
  ce_v4 :: "string \<Rightarrow> bytes option"
  ce_udp :: udp_env

text \<open>
  The user starts and stops the program, the acceptor hands over a connection, a session's sockets report
  (\<open>AevSession\<close>), the last pointer to a session goes away, and the link reports.
\<close>

datatype app_event =
    AevStart client_config
  | AevStop "u32 list"
  | AevAccept accept_result
  | AevSession u32 cs_event
  | AevRelease u32
  | AevLink bool "u32 list" ctl_event

fun app_handle :: "'l client_env \<Rightarrow> app_event \<Rightarrow> 'l app_handler" where
  "app_handle E (AevStart config) = app_start config"
| "app_handle E (AevStop order) = app_stop order"
| "app_handle E (AevAccept r) = on_accept (ce_llhttp E) r"
| "app_handle E (AevSession i e) = run_session i (cs_handle (ce_llhttp E) (ce_v4 E) (ce_udp E) e)"
| "app_handle E (AevRelease i) = destroy_session i"
| "app_handle E (AevLink bound order e) =
     app_ctl_event (ce_llhttp E) (ce_parse E) (ce_dump E) (ce_v4 E) (ce_udp E) bound order e"

text \<open>A callback of the multiplexer is an event of the session behind it.\<close>

fun upcall_event :: "u32 upcall \<Rightarrow> (u32 \<times> cs_event) option" where
  "upcall_event (CallData i d n prot) = Some (i, CevPeerData d n prot)"
| "upcall_event (CallSynack i ok prot) = Some (i, CevSynack ok prot)"
| "upcall_event (CallClose i prot) = Some (i, CevFin prot)"
| "upcall_event _ = None"

lemma app_upcall_event:
  "app_upcall ll v4 ue c = (case upcall_event c of None \<Rightarrow> skip | Some (i, e) \<Rightarrow> run_session i (cs_handle ll v4 ue e))"
  by (cases c) simp_all

subsection \<open>What the program can bear\<close>

definition session_ready :: "'l app \<Rightarrow> u32 \<Rightarrow> cs_event \<Rightarrow> bool" where
  "session_ready p i e = (case sv_heap p i of None \<Rightarrow> True | Some c \<Rightarrow> cs_ready c e)"

definition message_ready :: "'l app \<Rightarrow> bytes \<Rightarrow> bool" where
  "message_ready p d =
     (case unpackMessage d (length d) of
        Inr (Some (payload, n)) \<Rightarrow> (case on_p2p_data (ap_mux p) payload (unat n) of
            Inr (Some c) \<Rightarrow> (case upcall_event c of None \<Rightarrow> True | Some (i, e) \<Rightarrow> session_ready p i e)
          | _ \<Rightarrow> True)
      | _ \<Rightarrow> True)"

fun socket_event :: "cs_event \<Rightarrow> bool" where
  "socket_event (CevRead d n) = True"
| "socket_event CevTcpClosed = True"
| "socket_event (CevUdp r) = True"
| "socket_event _ = False"

text \<open>
  What may happen: a session's socket reports while there is one, the library creates the peer connection it is
  asked for, and no more than 65536 connections have been accepted, so that a new one has a number of its own.
\<close>

fun app_possible :: "'l app \<Rightarrow> app_event \<Rightarrow> bool" where
  "app_possible p (AevAccept r) = (sv_ids p < 65536)"
| "app_possible p (AevSession i e) =
     (socket_event e \<and> (case sv_heap p i of None \<Rightarrow> True | Some c \<Rightarrow> cs_possible c e))"
| "app_possible p (AevLink bound order (CevText t pc_ok dc_ok)) = pc_ok"
| "app_possible p _ = True"

text \<open>The two events the program may not survive: a frame that does not find its socket, and a bare datagram.\<close>

fun stray_frame :: "'l app \<Rightarrow> app_event \<Rightarrow> bool" where
  "stray_frame p (AevLink bound order (CevData d)) = (\<not> message_ready p d)"
| "stray_frame p _ = False"

fun bare_datagram :: "'l app \<Rightarrow> app_event \<Rightarrow> bool" where
  "bare_datagram p (AevSession i e) = (\<exists>c. sv_heap p i = Some c \<and> cs_bare c e)"
| "bare_datagram p _ = False"

text \<open>
  A frame finds the socket it is for (\<open>cs_ready\<close>), the library creates the peer connection it is asked for,
  and no more than 65536 connections have been accepted, so that a new one has a number of its own.
\<close>

fun app_bears :: "'l app \<Rightarrow> app_event \<Rightarrow> bool" where
  "app_bears p (AevAccept r) = (sv_ids p < 65536)"
| "app_bears p (AevSession i e) = (socket_event e \<and> session_ready p i e)"
| "app_bears p (AevLink bound order (CevData d)) = message_ready p d"
| "app_bears p (AevLink bound order (CevText t pc_ok dc_ok)) = pc_ok"
| "app_bears p _ = True"

lemma app_bears_iff: "app_bears p e \<longleftrightarrow> app_possible p e \<and> \<not> stray_frame p e \<and> \<not> bare_datagram p e"
proof (cases "(p, e)" rule: app_possible.cases)
  case (2 q i ev)
  have "socket_event ev \<Longrightarrow> \<not> cs_stray c ev" for c :: "'a client_session" by (cases ev) simp_all
  with 2 show ?thesis by (auto simp: session_ready_def cs_ready_iff split: option.splits)
qed (auto simp: message_ready_def)

text \<open>Between two events the controller may have changed its own state in any way.\<close>

inductive app_reach :: "'l client_env \<Rightarrow> 'l app \<Rightarrow> bool" for E where
  fresh: "app_reach E (NetworkRtcApp_new peer ds)"
| closable: "app_reach E p \<Longrightarrow> app_reach E (app_onClose p)"
| link: "app_reach E p \<Longrightarrow> app_reach E (p\<lparr>ap_controller := c\<rparr>)"
| step: "app_reach E p \<Longrightarrow> app_possible p e \<Longrightarrow> app_handle E e p = Inr (p', acts) \<Longrightarrow> app_reach E p'"

subsection \<open>Invariant\<close>

text \<open>
  Every session has its own number, is typed and linked; an object of the multiplexer answers to a session
  that holds one; numbers up to the last one given out are in use.
\<close>

definition answers_ok :: "'l app \<Rightarrow> bool" where
  "answers_ok p \<longleftrightarrow> (\<forall>q s i. store (manager (ap_mux p)) q = Some s \<longrightarrow> on_synack s = Some i \<longrightarrow>
     i \<le> sv_ids p \<and> (\<forall>c. sv_heap p i = Some c \<longrightarrow> cs_sess c \<noteq> None))"

definition sessions_ok :: "'l app \<Rightarrow> bool" where
  "sessions_ok p \<longleftrightarrow> (\<forall>i c. sv_heap p i = Some c \<longrightarrow>
     i \<le> sv_ids p \<and> cs_session_id c = i \<and> typed c \<and> linked (app_world c p))"

definition app_inv :: "'l app \<Rightarrow> bool" where
  "app_inv p \<longleftrightarrow> wf_manager (manager (ap_mux p)) \<and> sessions_ok p \<and> answers_ok p \<and>
     (\<forall>i\<in>set (sv_sessions p). sv_heap p i \<noteq> None)"

definition messages_ok :: "app_action list \<Rightarrow> bool" where
  "messages_ok acts \<longleftrightarrow> (\<forall>d. ApCtl (Link (DcSend d)) \<in> set acts \<longrightarrow> ok_message d)"

fun app_safe :: "('l app \<times> app_action list) cpp \<Rightarrow> bool" where
  "app_safe (Inl e) = no_ub e"
| "app_safe (Inr (p, acts)) = (app_inv p \<and> messages_ok acts)"

text \<open>The part that holds of what an event leaves behind, whether or not the program might have failed.\<close>

fun app_kept :: "('l app \<times> app_action list) cpp \<Rightarrow> bool" where
  "app_kept (Inl e) = True"
| "app_kept (Inr (p, acts)) = (app_inv p \<and> messages_ok acts)"

lemma app_safe_kept: "app_safe r \<Longrightarrow> app_kept r"
  by (cases r rule: app_safe.cases) simp_all

lemma messages_ok_simps [simp]:
  "messages_ok []" "messages_ok (a @ b) \<longleftrightarrow> messages_ok a \<and> messages_ok b"
  "messages_ok [ApSession i x]" "messages_ok [ApAccept]" "messages_ok [ApClosed]" "messages_ok [ApStopListening]"
  "messages_ok [ApListen n]"
  by (auto simp: messages_ok_def)

lemma app_safe_andThen:
  "app_safe (m p) \<Longrightarrow> (\<And>p'. app_inv p' \<Longrightarrow> app_safe (k p')) \<Longrightarrow> app_safe (andThen m k p)"
proof (cases "m p")
  case (Inr r)
  obtain p1 a1 where r: "r = (p1, a1)" by (cases r)
  assume "app_safe (m p)" "\<And>p'. app_inv p' \<Longrightarrow> app_safe (k p')"
  with Inr r have "app_inv p1" "messages_ok a1" "app_safe (k p1)" by auto
  with Inr r show ?thesis by (cases "k p1") (auto simp: andThen_def)
qed (simp add: andThen_def)

lemma app_safe_for_each:
  "(\<And>x p. x \<in> set xs \<Longrightarrow> app_inv p \<Longrightarrow> app_safe (f x p)) \<Longrightarrow> app_inv p \<Longrightarrow> app_safe (for_each f xs p)"
  by (induction xs arbitrary: p) (auto simp: skip_def intro!: app_safe_andThen)

lemma app_safe_simps [simp]:
  "app_safe (skip p) = app_inv p" "app_safe (emit acts p) = (app_inv p \<and> messages_ok acts)"
  by (simp_all add: skip_def emit_def)

lemma app_inv_controls:
  "app_inv (p\<lparr>ap_controller := c\<rparr>) = app_inv p" "app_inv (p\<lparr>ap_config := g\<rparr>) = app_inv p"
  "app_inv (p\<lparr>sv_open := b\<rparr>) = app_inv p" "app_inv (p\<lparr>sv_port := n\<rparr>) = app_inv p"
  "app_inv (p\<lparr>ap_close_cb := b\<rparr>) = app_inv p"
  by (simp_all add: app_inv_def sessions_ok_def answers_ok_def app_world_def)

lemma app_inv_forget: "app_inv p \<Longrightarrow> set is \<subseteq> set (sv_sessions p) \<Longrightarrow> app_inv (p\<lparr>sv_sessions := is\<rparr>)"
  by (auto simp: app_inv_def sessions_ok_def answers_ok_def app_world_def)

lemma app_inv_new: "app_inv (NetworkRtcApp_new peer ds)"
  by (simp add: app_inv_def sessions_ok_def answers_ok_def NetworkRtcApp_new_def set_send_func_def SessionMux_new_def
      wf_manager_new) (simp add: SessionManager_new_def)

subsection \<open>Running a session\<close>

lemma app_send_safe:
  assumes "app_inv p" "frame_ok f"
  shows "app_safe (app_send f p)"
proof (cases "packMessage f (length f)")
  case (Inl e)
  then show ?thesis using assms(1) by (auto simp: app_send_def packMessage_def split: if_splits)
next
  case (Inr d)
  from says_ok_message [of "[CsToPeer 0 f]" 0 f d] assms(2) Inr have "ok_message d" by (auto simp: says_ok_def)
  then show ?thesis
    using assms(1) Inr by (auto simp: app_send_def ctl_send_def P2PClient_send_def messages_ok_def)
qed

lemma app_routes_safe:
  assumes "app_inv p" "says_ok acts"
  shows "app_safe (for_each (app_route i) acts p)"
proof (rule app_safe_for_each [OF _ assms(1)])
  fix x and p :: "'a app" assume x: "x \<in> set acts" and p: "app_inv p"
  show "app_safe (app_route i x p)"
  proof (cases "(i, x)" rule: app_route.cases)
    case (3 i' j)
    with p show ?thesis by (auto simp: modify_def intro: app_inv_forget)
  qed (use x p assms(2) in \<open>auto simp: says_ok_def intro: app_send_safe\<close>)
qed

lemma run_session_inv:
  assumes inv: "app_inv p" and c: "sv_heap p i = Some c" and h: "h (app_world c p) = Inr (w, acts)"
    and w: "linked w" "typed (cs w)" "says_ok acts" "evolves (app_world c p) w"
  shows "app_safe (run_session i h p)"
proof -
  let ?p = "p\<lparr>ap_mux := mux w, ap_draws := draws w, sv_heap := (sv_heap p)(i \<mapsto> cs w)\<rparr>"
  let ?m = "manager (ap_mux p)" and ?m' = "manager (mux w)"
  from inv c have i: "i \<le> sv_ids p" "cs_session_id c = i" by (auto simp: app_inv_def sessions_ok_def)
  have wf: "wf_manager ?m" using inv by (simp add: app_inv_def)
  from w(4) i(2) wf have e: "cs_session_id (cs w) = i" "cs_sess c \<noteq> None \<Longrightarrow> cs_sess (cs w) \<noteq> None" "wf_manager ?m'"
    "\<And>q s. store ?m q = Some s \<Longrightarrow> store ?m' q = Some s"
    "\<And>q s. store ?m' q = Some s \<Longrightarrow> store ?m q = Some s \<or> on_synack s = Some i \<and> cs_sess (cs w) \<noteq> None"
    by (auto simp: evolves_def app_world_def)
  have "sessions_ok ?p"
  proof (unfold sessions_ok_def, intro allI impI)
    fix j b assume b: "sv_heap ?p j = Some b"
    show "j \<le> sv_ids ?p \<and> cs_session_id b = j \<and> typed b \<and> linked (app_world b ?p)"
    proof (cases "j = i")
      case True
      with b i(1) e(1) w(1,2) show ?thesis by (simp add: app_world_def linked_def)
    next
      case False
      with b inv have "j \<le> sv_ids p" "cs_session_id b = j" "typed b" "linked (app_world b p)"
        by (auto simp: app_inv_def sessions_ok_def)
      then show ?thesis using e(4) by (fastforce simp: app_world_def linked_def)
    qed
  qed
  moreover have "answers_ok ?p"
    unfolding answers_ok_def
  proof (intro allI impI)
    fix q s j assume s: "store (manager (ap_mux ?p)) q = Some s" "on_synack s = Some j"
    then have "store ?m q = Some s \<or> j = i \<and> cs_sess (cs w) \<noteq> None" using e(5) by fastforce
    moreover have "j \<le> sv_ids p \<and> (\<forall>b. sv_heap p j = Some b \<longrightarrow> cs_sess b \<noteq> None)" if "store ?m q = Some s"
      using inv s(2) that by (simp add: app_inv_def answers_ok_def)
    ultimately show "j \<le> sv_ids ?p \<and> (\<forall>b. sv_heap ?p j = Some b \<longrightarrow> cs_sess b \<noteq> None)"
      using c i(1) e(2) by (cases "j = i") auto
  qed
  ultimately have "app_inv ?p" using inv e(3) by (auto simp: app_inv_def)
  from app_routes_safe [OF this w(3), of i] c h show ?thesis by (simp add: run_session_def)
qed

lemma run_session_safe:
  assumes inv: "app_inv p"
    and h: "\<And>c. sv_heap p i = Some c \<Longrightarrow> typed c \<Longrightarrow> linked (app_world c p) \<Longrightarrow>
      sane (h (app_world c p)) \<and> proper (h (app_world c p)) \<and> kept (app_world c p) (h (app_world c p))"
  shows "app_safe (run_session i h p)"
proof (cases "sv_heap p i")
  case (Some c)
  from inv Some have "typed c" "linked (app_world c p)" by (auto simp: app_inv_def sessions_ok_def)
  note ok = h [OF Some this]
  show ?thesis
  proof (cases "h (app_world c p)" rule: sane.cases)
    case (1 e)
    with ok Some show ?thesis by (simp add: run_session_def)
  next
    case (2 w acts)
    with ok run_session_inv [where h = h, OF inv Some 2] show ?thesis by simp
  qed
qed (simp add: run_session_def inv)

lemma run_event_safe:
  assumes "app_inv p" "session_ready p i e"
    and "\<And>c. sv_heap p i = Some c \<Longrightarrow> cs_called c e"
  shows "app_safe (run_session i (cs_handle ll v4 ue e) p)"
proof (rule run_session_safe [OF assms(1)])
  fix c assume c: "sv_heap p i = Some c" "typed c" "linked (app_world c p)"
  then have "cs_ready (cs (app_world c p)) e" "cs_called (cs (app_world c p)) e" "typed (cs (app_world c p))"
    using assms(2,3) by (simp_all add: app_world_def session_ready_def)
  with c(3) show "sane (cs_handle ll v4 ue e (app_world c p)) \<and> proper (cs_handle ll v4 ue e (app_world c p)) \<and>
      kept (app_world c p) (cs_handle ll v4 ue e (app_world c p))"
    by (simp add: sane_handle proper_handle cs_called_bears kept_handle)
qed

text \<open>An event that may happen leaves the invariant, if the session survives it.\<close>

lemma run_event_kept:
  assumes "app_inv p"
    and "\<And>c. sv_heap p i = Some c \<Longrightarrow> cs_possible c e \<and> cs_called c e"
  shows "app_kept (run_session i (cs_handle ll v4 ue e) p)"
proof (cases "sv_heap p i")
  case (Some c)
  let ?w = "app_world c p"
  from assms(1) Some have c: "typed (cs ?w)" "linked ?w" "wf_manager (manager (mux ?w))"
    by (auto simp: app_inv_def sessions_ok_def app_world_def)
  have e: "cs_possible (cs ?w) e" "cs_called (cs ?w) e" using assms(2) [OF Some] by (simp_all add: app_world_def)
  show ?thesis
  proof (cases "cs_handle ll v4 ue e ?w" rule: sane.cases)
    case (1 er)
    then show ?thesis using Some by (simp add: run_session_def)
  next
    case (2 w acts)
    from linked_handle [OF c(2,3) e 2] have "linked w" .
    moreover have "typed (cs w)" "says_ok acts"
      using proper_handle [OF c(1) cs_called_bears [OF e(2)], of ll v4 ue] 2 by simp_all
    moreover have "evolves ?w w" using kept_handle [of ?w ll v4 ue e] 2 by simp
    ultimately show ?thesis by (rule app_safe_kept [OF run_session_inv [where h = "cs_handle ll v4 ue e", OF assms(1) Some 2]])
  qed
qed (simp add: run_session_def skip_def assms(1))

subsection \<open>The program's handlers\<close>

lemma socket_event_called: "socket_event e \<Longrightarrow> cs_called c e"
  by (cases e) simp_all

lemma stop_session_safe:
  assumes "app_inv p"
  shows "app_safe (stop_session i p)"
proof -
  let ?h = "andThen (modify (cs_upd (cs_set_on_close False))) cs_close"
  have "sane (?h w) \<and> proper (?h w) \<and> kept w (?h w)" if "typed (cs w)" "linked w" for w :: "'a client_world"
  proof -
    let ?w = "cs_upd (cs_set_on_close False) w"
    have w: "linked ?w" "typed (cs ?w)" using that by (simp_all add: linked_upd cs_set_on_close_def typed_def)
    have "proper (cs_close ?w)" using w(2) by (simp add: cs_close_def)
    moreover have "kept w (?h w)" by (intro kept_set) (simp_all add: cs_set_on_close_def)
    ultimately show ?thesis using sane_closing(1) [OF w(1)] by (simp add: handler_steps)
  qed
  then show ?thesis
    using assms by (auto simp: stop_session_def app_world_def intro!: run_session_safe)
qed

lemma socks_stop_safe: "app_inv p \<Longrightarrow> app_safe (socks_stop order p)"
  unfolding socks_stop_def
  by (rule app_safe_andThen)
    (auto simp: modify_def app_inv_controls intro!: app_safe_andThen app_safe_for_each stop_session_safe)

lemma on_state_safe: "app_inv p \<Longrightarrow> app_safe (app_on_state bound order st p)"
  by (cases st)
    (auto simp: app_on_state_def socks_start_def Let_def no_ub_def messages_ok_def app_inv_controls
      intro!: app_safe_andThen socks_stop_safe)

lemma message_event:
  assumes "on_p2p_data x payload n = Inr (Some c)" "upcall_event c = Some (i, e)" "n \<le> length payload"
  shows "(\<exists>d m prot. e = CevPeerData d m prot \<and> m \<le> length d) \<or> (\<exists>prot. e = CevFin prot) \<or>
    (\<exists>ok prot q s. e = CevSynack ok prot \<and> store (manager x) q = Some s \<and> on_synack s = Some i)"
proof -
  from on_p2p_data_upcall [OF assms(1)] obtain h where "upcall_of_session x h (drop 6 payload) (n - 6) c" by blast
  moreover have "\<exists>q. store (manager x) q = Some s" if "abs_sessions x sid = Some s" for sid s
    using that by (cases "find_session (manager x) sid") (auto simp: abs_sessions_def)
  ultimately show ?thesis
    using assms(2,3) by (cases c) (auto, blast)
qed

text \<open>A message is ignored, or an event of one session that may happen to it.\<close>

lemma on_message_cases:
  assumes "app_inv p"
  shows "app_on_message ll v4 ue d p = skip p \<or>
    (\<exists>i e. app_on_message ll v4 ue d p = run_session i (cs_handle ll v4 ue e) p \<and>
      (\<forall>b. sv_heap p i = Some b \<longrightarrow> cs_possible b e \<and> cs_called b e) \<and> (message_ready p d \<longrightarrow> session_ready p i e))"
proof -
  from unpackMessage_safe [OF order_refl] obtain r where r: "unpackMessage d (length d) = Inr r" by (rule safeE)
  show ?thesis
  proof (cases r)
    case None
    with r show ?thesis by (simp add: app_on_message_def)
  next
    case (Some pn)
    obtain payload n where pn: "pn = (payload, n)" by (cases pn)
    have len: "unat n \<le> length payload"
      using r Some pn by (auto simp: unpackMessage_def Let_def rd_range_def split: if_splits)
    from assms(1) have "wf_manager (manager (ap_mux p))" by (simp add: app_inv_def)
    from on_p2p_data_safe_aux [OF this len] obtain u where
      u: "on_p2p_data (ap_mux p) payload (unat n) = Inr u" by (rule safeE)
    show ?thesis
    proof (cases "\<exists>c i e. u = Some c \<and> upcall_event c = Some (i, e)")
      case True
      then obtain c i e where c: "u = Some c" "upcall_event c = Some (i, e)" by blast
      show ?thesis
      proof (intro disjI2 exI conjI allI impI)
        show "app_on_message ll v4 ue d p = run_session i (cs_handle ll v4 ue e) p"
          by (simp add: app_on_message_def r Some pn u c app_upcall_event)
        show "cs_possible b e" "cs_called b e" if b: "sv_heap p i = Some b" for b
          using message_event [OF u [unfolded c(1)] c(2) len] assms b
          by (auto simp: app_inv_def answers_ok_def)
        show "session_ready p i e" if "message_ready p d" using that c by (simp add: message_ready_def r Some pn u)
      qed
    next
      case False
      then have "app_on_message ll v4 ue d p = skip p"
        by (cases u) (auto simp: app_on_message_def r Some pn u app_upcall_event split: option.splits)
      then show ?thesis by blast
    qed
  qed
qed

lemma on_message_safe:
  assumes "app_inv p" "message_ready p d"
  shows "app_safe (app_on_message ll v4 ue d p)"
  using on_message_cases [OF assms(1), of ll v4 ue d]
proof (elim disjE exE conjE)
  fix i e assume run: "app_on_message ll v4 ue d p = run_session i (cs_handle ll v4 ue e) p"
    and e: "\<forall>b. sv_heap p i = Some b \<longrightarrow> cs_possible b e \<and> cs_called b e" "message_ready p d \<longrightarrow> session_ready p i e"
  from e assms(2) have "session_ready p i e" "\<And>b. sv_heap p i = Some b \<Longrightarrow> cs_called b e" by blast+
  from run_event_safe [OF assms(1) this] run show "app_safe (app_on_message ll v4 ue d p)" by simp
qed (simp add: assms(1))

lemma on_message_kept:
  assumes "app_inv p"
  shows "app_kept (app_on_message ll v4 ue d p)"
  using on_message_cases [OF assms, of ll v4 ue d]
proof (elim disjE exE conjE)
  fix i e assume run: "app_on_message ll v4 ue d p = run_session i (cs_handle ll v4 ue e) p"
    and e: "\<forall>b. sv_heap p i = Some b \<longrightarrow> cs_possible b e \<and> cs_called b e"
  from e have "\<And>b. sv_heap p i = Some b \<Longrightarrow> cs_possible b e \<and> cs_called b e" by blast
  from run_event_kept [OF assms this] run show "app_kept (app_on_message ll v4 ue d p)" by simp
qed (simp add: assms skip_def)

text \<open>Only the data callback hands a message over, and only sending gives one to the channel.\<close>

fun is_message :: "ctl_action \<Rightarrow> bool" where
  "is_message (Link (DcSend d)) = True"
| "is_message (Link (DataOut d)) = True"
| "is_message _ = False"

definition no_messages :: "ctl_action list \<Rightarrow> bool" where
  "no_messages acts \<longleftrightarrow> (\<forall>a\<in>set acts. \<not> is_message a)"

lemma no_messages_simps [simp]:
  "no_messages []" "no_messages (a @ b) \<longleftrightarrow> no_messages a \<and> no_messages b"
  "no_messages (x # a) \<longleftrightarrow> \<not> is_message x \<and> no_messages a"
  "no_messages (map Link (sig_send dump j s))" "no_messages (report st c)"
  "ctl_disconnect c = (c', acts) \<Longrightarrow> no_messages acts"
  by (auto simp: no_messages_def sig_send_def report_def ctl_disconnect_def sig_disconnect_def
      split: option.splits if_splits)

lemma no_messages_text:
  assumes "ctl_on_text parse dump pc_ok dc_ok t c = Inr (c', acts)"
  shows "no_messages acts"
proof -
  have ack: "no_messages acts" if "on_verifyACK pc_ok dc_ok j c = Inr (c', acts)" for j
    using that
    by (auto simp: on_verifyACK_def createPeerConnection_def createDataChannel_def cbind_eq_Inr
        split: if_splits prod.splits)
  have verify: "no_messages acts" if "on_verify dump pc_ok j c = Inr (c', acts)" for j
    using that
    by (auto simp: on_verify_def createPeerConnection_def sig_send_def cbind_eq_Inr split: if_splits option.splits)
  have other: "no_messages (map Link as)" if "handleSignalMessage j p = Inr as" for j p as
    using that
    by (auto simp: handleSignalMessage_def cbind_eq_Inr split: if_splits option.splits)
  from assms show ?thesis
    by (auto simp: ctl_on_text_def ctl_on_json_def cbind_eq_Inr intro: ack verify other split: option.splits if_splits)
qed

lemma ctl_messages:
  assumes "ctl_handle parse dump e c = Inr (c', acts)"
  shows "no_messages acts \<or> (\<exists>d. e = CevData d \<and> acts = [Link (DataOut d)])"
proof (cases e)
  case (CevText t pc_ok dc_ok)
  with assms no_messages_text show ?thesis by (metis ctl_handle.simps(2))
next
  case (CevPcState st)
  with assms show ?thesis
    by (cases st) (auto simp: ctl_on_pc_state_def split: prod.splits)
next
  case CevClosed
  with assms show ?thesis
    by (auto simp: ctl_on_ws_closed_def P2PClient_close_def split: prod.splits if_splits)
next
  case (CevCandidate a m)
  with assms show ?thesis
    by (auto simp: ctl_on_candidate_def pc_on_local_candidate_def)
next
  case (CevDescription sdp)
  with assms show ?thesis
    by (auto simp: ctl_on_description_def pc_on_local_description_def)
qed (use assms in \<open>auto simp: ctl_on_ws_open_def ctl_on_dc_message_def dc_on_message_def split: prod.splits if_splits\<close>)

lemma ctl_errors:
  assumes "ctl_handle parse dump e c = Inl er" "\<And>t pc_ok dc_ok. e = CevText t pc_ok dc_ok \<Longrightarrow> pc_ok"
  shows "no_ub er"
proof (cases e)
  case (CevText t pc_ok dc_ok)
  have str: "json_str v = Inl er \<Longrightarrow> no_ub er" for v by (cases v) (auto simp: no_ub_def)
  have type: "json_value j k d = Inl er \<Longrightarrow> no_ub er" for j k d
    by (auto simp: json_value_def dest: str split: option.splits)
  have other: "handleSignalMessage j p = Inl er \<Longrightarrow> no_ub er" for j p
    by (auto simp: handleSignalMessage_def cbind_eq_Inl dest: str type split: if_splits option.splits)
  have ack: "on_verifyACK True dc_ok j c \<noteq> Inl er" for j
    by (auto simp: on_verifyACK_def createPeerConnection_def createDataChannel_def)
  have verify: "on_verify dump True j c = Inl er \<Longrightarrow> no_ub er" for j
    by (auto simp: on_verify_def createPeerConnection_def cbind_eq_Inl dest: str split: option.splits if_splits)
  from assms(2) [OF CevText] assms(1) CevText ack show ?thesis
    by (auto simp: ctl_on_text_def ctl_on_json_def cbind_eq_Inl dest: type verify other split: option.splits if_splits)
qed (use assms(1) in auto)

lemma app_on_ctl_safe:
  assumes "app_inv p" "\<not> is_message a"
  shows "app_safe (app_on_ctl ll v4 ue bound order a p)"
  using assms on_state_safe [OF assms(1)]
  by (cases a rule: is_message.cases) (auto simp: messages_ok_def)

lemma ctl_event_cases:
  assumes "app_inv p" "app_possible p (AevLink bound order e)"
  shows "app_safe (app_ctl_event ll parse dump v4 ue bound order e p) \<or>
    (\<exists>c d. e = CevData d \<and>
      app_ctl_event ll parse dump v4 ue bound order e p = app_on_message ll v4 ue d (p\<lparr>ap_controller := c\<rparr>))"
proof (cases "ctl_handle parse dump e (ap_controller p)")
  case (Inl er)
  have "pc_ok" if "e = CevText t pc_ok dc_ok" for t pc_ok dc_ok using assms(2) that by simp
  from ctl_errors [OF Inl this] Inl show ?thesis by (simp add: app_ctl_event_def)
next
  case (Inr r)
  obtain c acts where r: "r = (c, acts)" by (cases r)
  let ?p = "p\<lparr>ap_controller := c\<rparr>"
  have inv: "app_inv ?p" using assms(1) by (simp add: app_inv_controls)
  from ctl_messages [OF Inr [unfolded r]] show ?thesis
  proof
    assume "no_messages acts"
    then have "app_safe (for_each (app_on_ctl ll v4 ue bound order) acts ?p)"
      using inv by (intro app_safe_for_each app_on_ctl_safe) (auto simp: no_messages_def)
    with Inr r show ?thesis by (simp add: app_ctl_event_def)
  next
    assume "\<exists>d. e = CevData d \<and> acts = [Link (DataOut d)]"
    then obtain d where d: "e = CevData d" "acts = [Link (DataOut d)]" by blast
    have "andThen (app_on_message ll v4 ue d) skip ?p = app_on_message ll v4 ue d ?p"
      by (cases "app_on_message ll v4 ue d ?p") (auto simp: andThen_def skip_def)
    moreover have "app_ctl_event ll parse dump v4 ue bound order e p =
        for_each (app_on_ctl ll v4 ue bound order) [Link (DataOut d)] ?p"
      by (simp only: app_ctl_event_def Inr r d(2) prod.case cbind.simps)
    ultimately have "app_ctl_event ll parse dump v4 ue bound order e p = app_on_message ll v4 ue d ?p" by simp
    with d(1) show ?thesis by blast
  qed
qed

lemma ctl_event_safe:
  assumes "app_inv p" "app_bears p (AevLink bound order e)"
  shows "app_safe (app_ctl_event ll parse dump v4 ue bound order e p)"
proof -
  from assms(2) have "app_possible p (AevLink bound order e)" by (simp add: app_bears_iff)
  moreover have "app_safe (app_on_message ll v4 ue d (p\<lparr>ap_controller := c\<rparr>))" if d: "e = CevData d" for c d
  proof (rule on_message_safe)
    have "message_ready (p\<lparr>ap_controller := c\<rparr>) d = message_ready p d"
      by (simp add: message_ready_def session_ready_def cong: option.case_cong sum.case_cong prod.case_cong)
    with assms(2) d show "message_ready (p\<lparr>ap_controller := c\<rparr>) d" by simp
  qed (simp add: assms(1) app_inv_controls)
  ultimately show ?thesis using ctl_event_cases [OF assms(1), of bound order e ll parse dump v4 ue] by metis
qed

lemma ctl_event_kept:
  assumes "app_inv p" "app_possible p (AevLink bound order e)"
  shows "app_kept (app_ctl_event ll parse dump v4 ue bound order e p)"
  using ctl_event_cases [OF assms, of ll parse dump v4 ue] on_message_kept assms(1)
  by (metis app_inv_controls(1) app_safe_kept)

text \<open>A new connection gets the next number, which nothing has used.\<close>

lemma next_session_id:
  assumes "n < 65536" "create_session_id n = (i, j)"
  shows "j = i" "n < i"
proof -
  from assms(1) have "unat n < 65536" by (simp add: word_less_nat_alt)
  moreover from assms(1) have "\<not> n > 65535" by (simp add: word_less_nat_alt)
  ultimately have "unat (n + 1) = unat n + 1" "create_session_id n = (n + 1, n + 1)"
    by (simp_all add: create_session_id_def unat_word_ariths)
  with assms(2) show "j = i" "n < i" by (auto simp: word_less_nat_alt)
qed

lemma on_accept_safe:
  assumes "app_inv p" "sv_ids p < 65536"
  shows "app_safe (on_accept ll r p)"
proof (cases r)
  case Accepted
  obtain i j where ij: "create_session_id (sv_ids p) = (i, j)" by (cases "create_session_id (sv_ids p)")
  note fresh = next_session_id [OF assms(2) ij]
  let ?c = "cs_set_on_close True (Socks5Session_new ll i)"
  let ?p = "p\<lparr>sv_ids := j, sv_heap := (sv_heap p)(i \<mapsto> ?c),
      sv_sessions := (if i \<in> set (sv_sessions p) then sv_sessions p else sv_sessions p @ [i])\<rparr>"
  have old: "k \<le> sv_ids p \<Longrightarrow> k \<le> i \<and> k \<noteq> i" for k using fresh(2) by auto
  have new: "cs_session_id ?c = i" "typed ?c" "linked (app_world ?c ?p)" "cs_sess ?c = None" "cs_tcp ?c"
    by (simp_all add: cs_set_on_close_def Socks5Session_new_def typed_def linked_def app_world_def)
  have "sessions_ok ?p"
    unfolding sessions_ok_def
  proof (intro allI impI)
    fix k b assume b: "sv_heap ?p k = Some b"
    show "k \<le> sv_ids ?p \<and> cs_session_id b = k \<and> typed b \<and> linked (app_world b ?p)"
    proof (cases "k = i")
      case True
      with b new fresh(1) show ?thesis by simp
    next
      case False
      with b assms(1) have "k \<le> sv_ids p" "cs_session_id b = k" "typed b" "linked (app_world b p)"
        by (auto simp: app_inv_def sessions_ok_def)
      with old fresh(1) show ?thesis by (simp add: app_world_def linked_def)
    qed
  qed
  moreover have "answers_ok ?p"
    using assms(1) fresh(1) old by (simp add: app_inv_def answers_ok_def)
  ultimately have "app_inv ?p" using assms(1) by (auto simp: app_inv_def)
  moreover have "sane (cs_start w) \<and> proper (cs_start w) \<and> kept w (cs_start w)"
    if "typed (cs w)" "linked w" "cs_tcp (cs w)" for w :: "'a client_world"
    using that by (auto simp: cs_start_def on_socket_def emit_def)
  ultimately have "app_safe (run_session i cs_start ?p)"
    using new by (intro run_session_safe) (auto simp: app_world_def)
  then show ?thesis
    unfolding on_accept_def Accepted accept_result.case ij prod.case Let_def
    by (intro app_safe_andThen) simp_all
qed (simp_all add: on_accept_def assms(1))

text \<open>Running a session takes no session into the map.\<close>

lemma app_send_sessions: "app_send f p = Inr (p', a) \<Longrightarrow> p' = p"
  by (auto simp: app_send_def skip_def emit_def cbind_eq_Inr split: sum.splits if_splits)

lemma app_routes_sessions:
  "for_each (app_route i) acts p = Inr (p', a) \<Longrightarrow>
     set (sv_sessions p') \<subseteq> set (sv_sessions p) \<and> sv_heap p' = sv_heap p"
proof (induction acts arbitrary: p a)
  case (Cons x acts)
  then obtain p1 a1 a2 where p1: "app_route i x p = Inr (p1, a1)" "for_each (app_route i) acts p1 = Inr (p', a2)"
    by (auto simp: andThen_Inr)
  have "set (sv_sessions p1) \<subseteq> set (sv_sessions p) \<and> sv_heap p1 = sv_heap p"
    using p1(1) by (cases "(i, x)" rule: app_route.cases) (auto simp: modify_def emit_def dest: app_send_sessions)
  with Cons.IH [OF p1(2)] show ?case by auto
qed (simp add: skip_def)

lemma run_session_sessions: "run_session i h p = Inr (p', a) \<Longrightarrow> set (sv_sessions p') \<subseteq> set (sv_sessions p)"
  by (auto simp: run_session_def skip_def cbind_eq_Inr dest!: app_routes_sessions split: option.splits)

lemma destroy_safe:
  assumes "app_inv p"
  shows "app_safe (destroy_session i p)"
proof (cases "sv_heap p i")
  case (Some c)
  have "sane (cs_destroy w) \<and> proper (cs_destroy w) \<and> kept w (cs_destroy w)"
    if "typed (cs w)" "linked w" for w :: "'a client_world"
    using that sane_closing(4) kept_destroy proper_destroy by blast
  then have run: "app_safe (run_session i cs_destroy p)"
    using assms by (intro run_session_safe) (auto simp: app_world_def)
  have drop: "app_inv (q\<lparr>sv_heap := (sv_heap q)(i := None)\<rparr>)" if "app_inv q" "i \<notin> set (sv_sessions q)" for q :: "'a app"
    using that by (auto simp: app_inv_def sessions_ok_def answers_ok_def app_world_def)
  show ?thesis
  proof (cases "i \<in> set (sv_sessions p) \<or> cs_tcp c")
    case False
    show ?thesis
    proof (cases "run_session i cs_destroy p")
      case (Inl e)
      with run Some False show ?thesis by (simp add: destroy_session_def andThen_def)
    next
      case (Inr r)
      obtain q a where r: "r = (q, a)" by (cases r)
      from run Inr r have q: "app_inv q" "messages_ok a" by simp_all
      from run_session_sessions [OF Inr [unfolded r]] False have "i \<notin> set (sv_sessions q)" by blast
      from drop [OF q(1) this] q(2) Inr r Some False show ?thesis
        by (simp add: destroy_session_def andThen_def modify_def)
    qed
  qed (use Some assms in \<open>auto simp: destroy_session_def\<close>)
qed (simp add: destroy_session_def assms)

lemma link_calls_ok:
  "messages_ok (map ApCtl acts)" if "no_messages acts"
  using that by (auto simp: messages_ok_def no_messages_def)

lemma app_handle_safe:
  assumes "app_inv p" "app_bears p e"
  shows "app_safe (app_handle E e p)"
proof (cases e)
  case (AevStart config)
  let ?c = "ctl_onStateChange (ctl_init (cc_server_password config) (ap_controller p))"
  have "messages_ok (ApConfigure (rtc_settings_of config) (ws_settings_of config) #
      map ApCtl (snd (ctl_connect_url (ws_server_ip config) ?c)))"
    by (simp add: ctl_connect_url_def sig_connect_url_def messages_ok_def)
  with assms(1) show ?thesis
    by (simp add: AevStart app_start_def app_inv_controls case_prod_beta)
next
  case (AevStop order)
  have "app_safe (case ctl_disconnect (ap_controller q) of (c, acts) \<Rightarrow> Inr (q\<lparr>ap_controller := c\<rparr>, map ApCtl acts))"
    if "app_inv q" for q :: "'a app"
    using that link_calls_ok by (auto simp: app_inv_controls split: prod.splits)
  then show ?thesis
    unfolding AevStop app_handle.simps app_stop_def by (intro app_safe_andThen socks_stop_safe assms(1))
next
  case (AevSession i ev)
  with assms show ?thesis by (auto intro: run_event_safe socket_event_called)
qed (use assms in \<open>simp_all add: on_accept_safe destroy_safe ctl_event_safe\<close>)

text \<open>Whatever may happen, the program is in order afterwards, if it survives.\<close>

lemma app_handle_kept:
  assumes "app_inv p" "app_possible p e"
  shows "app_kept (app_handle E e p)"
proof (cases "app_bears p e")
  case True
  from app_safe_kept [OF app_handle_safe [OF assms(1) this]] show ?thesis .
next
  case False
  with assms(2) consider "stray_frame p e" | "bare_datagram p e" by (auto simp: app_bears_iff)
  then show ?thesis
  proof cases
    case 1
    then obtain bound order d where "e = AevLink bound order (CevData d)"
      by (cases "(p, e)" rule: stray_frame.cases) simp_all
    with ctl_event_kept [OF assms(1)] assms(2) show ?thesis by simp
  next
    case 2
    then obtain i ev where e: "e = AevSession i ev" by (cases e) simp_all
    with assms(2) have "socket_event ev" "\<And>c. sv_heap p i = Some c \<Longrightarrow> cs_possible c ev" by simp_all
    then have "app_kept (run_session i (cs_handle (ce_llhttp E) (ce_v4 E) (ce_udp E) ev) p)"
      by (intro run_event_kept [OF assms(1)]) (simp add: socket_event_called)
    then show ?thesis by (simp add: e)
  qed
qed

lemma app_reach_inv: "app_reach E p \<Longrightarrow> app_inv p"
proof (induction rule: app_reach.induct)
  case (closable p)
  then show ?case by (simp add: app_onClose_def app_inv_controls)
next
  case (link p c)
  then show ?case by (simp add: app_inv_controls)
next
  case (step p e p' acts)
  from app_handle_kept [OF step.IH step.hyps(2), of E] step.hyps(3) show ?case by simp
qed (rule app_inv_new)

subsection \<open>Properties\<close>

text \<open>
  The condition on frames is needed: a session whose connection has closed stays until its socket's
  callbacks are gone, and meanwhile the multiplexer still knows its stream, so data of the peer goes
  through the pointer to the socket that the close callback has reset.
\<close>

lemma closed_no_socket: "on_tcp_close w = Inr (w', acts) \<Longrightarrow> \<not> cs_tcp (cs w')"
  by (auto simp: on_tcp_close_def andThen_Inr modify_def)

lemma late_data_crashes:
  assumes "sv_heap p i = Some c" "run_session i on_tcp_close p = Inr (p', acts)"
    and "prot = Socks5Connect \<or> prot = HttpsConnect" "n \<le> length d"
  shows "app_upcall ll v4 ue (CallData i d n prot) p' = Inl NullDeref"
proof -
  from assms(1,2) obtain w as where w: "on_tcp_close (app_world c p) = Inr (w, as)"
    "for_each (app_route i) as (p\<lparr>ap_mux := mux w, ap_draws := draws w, sv_heap := (sv_heap p)(i \<mapsto> cs w)\<rparr>) = Inr (p', acts)"
    by (auto simp: run_session_def cbind_eq_Inr)
  from app_routes_sessions [OF w(2)] have "sv_heap p' i = Some (cs w)" by simp
  with closed_no_socket [OF w(1)] assms(3,4) show ?thesis
    by (auto simp: run_session_def p2p_data_def sock_send_n_def rd_range_def sock_send_def on_socket_def app_world_def)
qed

text \<open>A bare datagram ends the program.\<close>

lemma bare_datagram_crashes:
  assumes "app_possible p e" "bare_datagram p e"
  shows "app_handle E e p = Inl OutOfBounds"
proof -
  from assms(2) obtain i ev c where e: "e = AevSession i ev" "sv_heap p i = Some c" "cs_bare c ev"
    by (cases e) auto
  with assms(1) have "cs_possible (cs (app_world c p)) ev" "cs_bare (cs (app_world c p)) ev"
    by (simp_all add: app_world_def)
  from bare_out_of_bounds [OF this] e show ?thesis by (simp add: run_session_def)
qed


text \<open>A program that has accepted a connection.\<close>

definition idle_env :: "unit client_env" where
  "idle_env = \<lparr>ce_llhttp = idle_llhttp, ce_parse = (\<lambda>_. None), ce_dump = (\<lambda>_. []), ce_v4 = (\<lambda>_. None),
     ce_udp = plain_udp_env\<rparr>"

lemma accepts:
  "\<exists>p acts. app_handle idle_env (AevAccept Accepted) (NetworkRtcApp_new 7 [42]) = Inr (p, acts) \<and>
     sv_sessions p = [1] \<and> (\<exists>c. sv_heap p 1 = Some c \<and> cs_tcp c)"
  by (simp add: idle_env_def on_accept_def create_session_id_def NetworkRtcApp_new_def run_session_def app_world_def
      cs_start_def on_socket_def cs_set_on_close_def Socks5Session_new_def emit_def andThen_def skip_def Let_def)


end
