(* ===== verification/PairSafety.thy ===== *)
theory PairSafety
  imports ClientProgram EndToEnd
begin

text \<open>
  The two programs with the channel between them, in every state they can reach together: what the
  client's invariant says of its messages is what the server's safety asks for.
\<close>

subsection \<open>Reachable pairs\<close>

text \<open>Messages arrive through the channel only.\<close>

fun near_event :: "app_event \<Rightarrow> bool" where
  "near_event (AevLink bound order (CevData d)) = False"
| "near_event _ = True"

fun far_event :: "ss_event \<Rightarrow> bool" where
  "far_event (SevMessage garbage d) = False"
| "far_event _ = True"

text \<open>
  The channel is opened between two programs that may have run before. Then the client's events, the
  server's and the deliveries happen in any order; the client's condition on a message is that of
  \<open>ClientProgram\<close>, and there is none on what the server is sent.
\<close>

inductive pair_reach :: "('c, 's) libs \<Rightarrow> 'c client_env \<Rightarrow> ('c, 's) pair \<Rightarrow> bool" for L E where
  opened: "app_reach E p \<Longrightarrow> ss_reach (lb_far L) s \<Longrightarrow> pair_reach L E \<lparr>near = p, far = s, up = [], down = []\<rparr>"
| client: "pair_reach L E x \<Longrightarrow> app_bears (near x) e \<Longrightarrow> near_event e \<Longrightarrow>
    at_near (app_handle E e) x = Inr (x', acts) \<Longrightarrow> pair_reach L E x'"
| server: "pair_reach L E x \<Longrightarrow> ss_bears (far x) e \<Longrightarrow> far_event e \<Longrightarrow>
    at_far (ss_handle (lb_far L) e) x = Inr (x', acts) \<Longrightarrow> pair_reach L E x'"
| server_link: "pair_reach L E x \<Longrightarrow> pair_reach L E (x\<lparr>far := (far x)\<lparr>ss_controller := c\<rparr>\<rparr>)"
| deliver_up: "pair_reach L E x \<Longrightarrow> pair_step L DeliverUp x = Inr (x', acts) \<Longrightarrow> pair_reach L E x'"
| deliver_down: "pair_reach L E x \<Longrightarrow> (\<And>d ds. down x = d # ds \<Longrightarrow> message_ready (near x) d) \<Longrightarrow>
    pair_step L DeliverDown x = Inr (x', acts) \<Longrightarrow> pair_reach L E x'"

definition pair_inv :: "('c, 's) libs \<Rightarrow> ('c, 's) pair \<Rightarrow> bool" where
  "pair_inv L x \<longleftrightarrow> app_inv (near x) \<and> ss_reach (lb_far L) (far x) \<and> (\<forall>d\<in>set (up x). ok_message d)"

text \<open>What a program does to the pair: its own end, and the messages it adds to its queue.\<close>

lemma from_near_run:
  "\<exists>outs ds. for_each from_near acts x = Inr (x\<lparr>up := up x @ ds\<rparr>, outs) \<and>
     (\<forall>d\<in>set ds. ApCtl (Link (DcSend d)) \<in> set acts)"
proof (induction acts arbitrary: x)
  case (Cons a acts)
  show ?case
  proof (cases "\<exists>d. a = ApCtl (Link (DcSend d))")
    case True
    then obtain d where d: "a = ApCtl (Link (DcSend d))" by blast
    from Cons.IH [of "x\<lparr>up := up x @ [d]\<rparr>"] obtain outs ds where
      run: "for_each from_near acts (x\<lparr>up := up x @ [d]\<rparr>) = Inr (x\<lparr>up := up x @ d # ds\<rparr>, outs)"
        "\<forall>d\<in>set ds. ApCtl (Link (DcSend d)) \<in> set acts" by auto
    then show ?thesis
      by (intro exI [of _ outs] exI [of _ "d # ds"]) (auto simp: d handler_simps)
  next
    case False
    then have "from_near a x = Inr (x, [Near a])"
      by (cases a rule: from_near.cases) (auto simp: emit_def)
    with Cons.IH [of x] show ?thesis by (fastforce simp: andThen_def)
  qed
qed (auto simp: skip_def intro!: exI [of _ "[]"])

lemma from_far_run: "\<exists>outs ds. for_each from_far acts x = Inr (x\<lparr>down := down x @ ds\<rparr>, outs)"
proof (induction acts arbitrary: x)
  case (Cons a acts)
  have "\<exists>o1 d1. from_far a x = Inr (x\<lparr>down := down x @ d1\<rparr>, o1)"
    by (cases a rule: from_far.cases) (auto simp: emit_def modify_def intro: exI [of _ "[]"])
  then obtain o1 d1 where one: "from_far a x = Inr (x\<lparr>down := down x @ d1\<rparr>, o1)" by blast
  from Cons.IH [of "x\<lparr>down := down x @ d1\<rparr>"] obtain outs ds where
    "for_each from_far acts (x\<lparr>down := down x @ d1\<rparr>) = Inr (x\<lparr>down := down x @ (d1 @ ds)\<rparr>, outs)" by auto
  with one show ?case by (auto simp: andThen_def)
qed (auto simp: skip_def intro!: exI [of _ "[]"])

lemma at_near_safe:
  assumes "app_safe (h (near x))" "ss_reach (lb_far L) (far x)" "\<forall>d\<in>set (up x). ok_message d"
    and "at_near h x = Inr (x', acts)"
  shows "pair_inv L x'"
proof -
  from assms(4) obtain p as where p: "h (near x) = Inr (p, as)" "for_each from_near as (x\<lparr>near := p\<rparr>) = Inr (x', acts)"
    by (auto simp: at_near_def cbind_eq_Inr)
  with assms(1) have "app_inv p" "messages_ok as" by simp_all
  with from_near_run [of as "x\<lparr>near := p\<rparr>"] p(2) assms(2,3) show ?thesis
    by (auto simp: pair_inv_def messages_ok_def)
qed

lemma pair_reach_inv: "pair_reach L E x \<Longrightarrow> pair_inv L x"
proof (induction rule: pair_reach.induct)
  case (opened p s)
  then show ?case by (simp add: pair_inv_def app_reach_inv)
next
  case (client x e x' acts)
  then have "app_safe (app_handle E e (near x))" by (simp add: pair_inv_def app_handle_safe)
  from at_near_safe [where L = L, OF this _ _ client.hyps(4)] client.IH show ?case by (simp add: pair_inv_def)
next
  case (server x e x' acts)
  from server.hyps(4) obtain s as where s: "ss_handle (lb_far L) e (far x) = Inr (s, as)"
    "for_each from_far as (x\<lparr>far := s\<rparr>) = Inr (x', acts)" by (auto simp: at_far_def cbind_eq_Inr)
  from server.IH have "ss_reach (lb_far L) s"
    by (auto simp: pair_inv_def intro: ss_reach.step [OF _ bears_possible [OF server.hyps(2)] s(1)])
  with server.IH s(2) from_far_run [of as "x\<lparr>far := s\<rparr>"] show ?case by (auto simp: pair_inv_def)
next
  case (server_link x c)
  then show ?case by (auto simp: pair_inv_def intro: ss_reach.link)
next
  case (deliver_up x x' acts)
  show ?case
  proof (cases "up x")
    case (Cons d ds)
    with deliver_up.hyps(2) obtain s as where
      s: "ss_handle (lb_far L) (SevMessage (lb_garbage L) d) (far x) = Inr (s, as)"
        "for_each from_far as (x\<lparr>up := ds, far := s\<rparr>) = Inr (x', acts)"
      by (auto simp: at_far_def cbind_eq_Inr)
    from deliver_up.IH Cons have inv: "app_inv (near x)" "ss_reach (lb_far L) (far x)" "\<forall>d\<in>set ds. ok_message d"
      and "ss_bears (far x) (SevMessage (lb_garbage L) d)" by (simp_all add: pair_inv_def)
    from ss_reach.step [OF inv(2) bears_possible [OF this(4)] s(1)] inv s(2) from_far_run [of as "x\<lparr>up := ds, far := s\<rparr>"] show ?thesis
      by (auto simp: pair_inv_def)
  qed (use deliver_up in \<open>simp add: skip_def\<close>)
next
  case (deliver_down x x' acts)
  show ?case
  proof (cases "down x")
    case (Cons d ds)
    from deliver_down.IH deliver_down.hyps(2) [OF Cons]
    have "app_safe (app_on_message (lb_near L) (lb_v4 L) (lb_udp L) d (near (x\<lparr>down := ds\<rparr>)))"
      by (simp add: pair_inv_def on_message_safe)
    from at_near_safe [where x = "x\<lparr>down := ds\<rparr>" and h = "app_on_message (lb_near L) (lb_v4 L) (lb_udp L) d", OF this, of L]
      deliver_down.IH deliver_down.hyps(3) Cons show ?thesis
      by (simp add: pair_inv_def)
  qed (use deliver_down in \<open>simp add: skip_def\<close>)
qed

subsection \<open>Property\<close>


text \<open>The pair of \<open>EndToEnd\<close> is one that can be reached; there a SOCKS5 request puts a SYN on the channel.\<close>

lemma demo_near_reach: "app_reach idle_env demo_near"
proof -
  let ?p = "(NetworkRtcApp_new 1 [77])\<lparr>ap_controller := link_open Controller_new\<rparr> :: unit app"
  have "app_possible ?p (AevAccept Accepted)" by (simp add: NetworkRtcApp_new_def)
  moreover have "app_handle idle_env (AevAccept Accepted) ?p = Inr (demo_near, [ApSession 1 (CsTcp EvStart), ApAccept])"
    by (simp add: idle_env_def demo_near_def on_accept_def create_session_id_def NetworkRtcApp_new_def run_session_def
        app_world_def cs_start_def on_socket_def cs_set_on_close_def Socks5Session_new_def emit_def andThen_def
        skip_def Let_def)
  ultimately show ?thesis by (rule app_reach.step [OF app_reach.link [OF app_reach.fresh]])
qed

lemma demo_pair_reach: "pair_reach demo_libs idle_env demo_pair"
proof -
  have "ss_reach (lb_far demo_libs) (far demo_pair)" by (rule demo_facts(3))
  from pair_reach.opened [OF demo_near_reach this] show ?thesis by (simp add: demo_pair_def)
qed


end
