(* ===== verification/Logger.thy ===== *)
theory Logger
  imports RtcPrelude "HOL-Library.Multiset"
begin

text \<open>
  \<open>Src/common/include/rtc_logger.h\<close>: \<open>RtcLogger\<close>, which both programs write through. Any thread may log; a
  thread of the logger takes the entries from a queue and writes them, and \<open>shutdown\<close> ends it and writes
  what is left. The threads are state machines over the shared object, which make their turns in any order.

  The queue is \<open>moodycamel::ConcurrentQueue\<close> (\<open>concurrentqueue.h\<close>, a vendored lock-free queue whose code is
  about memory order): it is an argument, with the contract of its documentation (\<open>bag\<close>), which does not
  say that a queue where nothing was found is empty.
\<close>

subsection \<open>Entries\<close>

datatype log_level = LvNone | LvFatal | LvError | LvWarning | LvInfo | LvDebug | LvVerbose | LvOther

fun logLevelToString :: "log_level \<Rightarrow> string" where
  "logLevelToString LvNone = ''NONE ''"
| "logLevelToString LvFatal = ''FATAL''"
| "logLevelToString LvError = ''ERROR''"
| "logLevelToString LvWarning = ''WARN ''"
| "logLevelToString LvInfo = ''INFO ''"
| "logLevelToString LvDebug = ''DEBUG''"
| "logLevelToString LvVerbose = ''VERB ''"
| "logLevelToString LvOther = ''?????''"

text \<open>The time is that of \<open>std::chrono::system_clock\<close>, in nanoseconds.\<close>

record log_entry =
  le_time :: nat
  le_level :: log_level
  le_message :: string

text \<open>The number in three columns; \<open>stamp\<close> is the local time of a second, in the format of \<open>put_time\<close>.\<close>

definition three_columns :: "nat \<Rightarrow> string" where
  "three_columns n = replicate (3 - length (dec_string n)) CHR ''0'' @ dec_string n"

definition log_line :: "(nat \<Rightarrow> string) \<Rightarrow> log_entry \<Rightarrow> string" where
  "log_line stamp e =
     stamp (le_time e div 10 ^ 9) @ ''.'' @ three_columns (le_time e div 10 ^ 6 mod 1000) @
     '' ['' @ logLevelToString (le_level e) @ ''] '' @ le_message e"

subsection \<open>The queue\<close>

text \<open>
  \<open>enqueue\<close> fails when there is no memory. \<open>try_dequeue\<close> fails when it finds nothing, and then the queue is
  likely but not guaranteed to be empty (\<open>concurrentqueue.h\<close>, line 1149): \<open>bag\<close> says nothing of that case.
\<close>

record 'q queue_ops =
  q_new :: 'q
  q_enqueue :: "log_entry \<Rightarrow> 'q \<Rightarrow> 'q option"
  q_dequeue :: "'q \<Rightarrow> (log_entry \<times> 'q) option"

definition bag :: "'q queue_ops \<Rightarrow> ('q \<Rightarrow> log_entry multiset) \<Rightarrow> bool" where
  "bag Q c \<longleftrightarrow> c (q_new Q) = {#} \<and>
     (\<forall>e q q'. q_enqueue Q e q = Some q' \<longrightarrow> c q' = add_mset e (c q)) \<and>
     (\<forall>q e q'. q_dequeue Q q = Some (e, q') \<longrightarrow> c q = add_mset e (c q'))"

subsection \<open>The logger\<close>

text \<open>
  Where the worker is in its loop, and where the thread is that runs \<open>shutdown\<close>. A wait on the condition
  variable ends after 50 milliseconds at the latest and is no state of its own.
\<close>

datatype worker = NoWorker | Testing | Polling | Ended

datatype closing = Idle | Joining | Draining

record 'q logger =
  lg_queue :: 'q
  lg_running :: bool
  lg_dropped :: "64 word"
  lg_worker :: worker
  lg_closing :: closing
  lg_file_open :: bool
  lg_file :: "string list"
  lg_console :: "string list"

definition RtcLogger_new :: "'q queue_ops \<Rightarrow> 'q logger" where
  "RtcLogger_new Q =
     \<lparr>lg_queue = q_new Q, lg_running = False, lg_dropped = 0, lg_worker = NoWorker, lg_closing = Idle,
      lg_file_open = False, lg_file = [], lg_console = []\<rparr>"

text \<open>
  \<open>opened\<close> says whether the file can be opened; it is emptied. Assigning to a thread that has not been
  joined ends the program (\<open>None\<close>).
\<close>

definition lg_init :: "bool \<Rightarrow> 'q logger \<Rightarrow> 'q logger option" where
  "lg_init opened l =
     (if lg_worker l \<noteq> NoWorker then None
      else Some (l\<lparr>lg_file_open := opened, lg_file := [], lg_running := True, lg_worker := Testing\<rparr>))"

definition lg_log :: "'q queue_ops \<Rightarrow> log_entry \<Rightarrow> 'q logger \<Rightarrow> 'q logger" where
  "lg_log Q e l =
     (case q_enqueue Q e (lg_queue l) of
        None \<Rightarrow> l\<lparr>lg_dropped := lg_dropped l + 1\<rparr>
      | Some q \<Rightarrow> l\<lparr>lg_queue := q\<rparr>)"

definition writeEntry :: "(nat \<Rightarrow> string) \<Rightarrow> log_entry \<Rightarrow> 'q logger \<Rightarrow> 'q logger" where
  "writeEntry stamp e l =
     l\<lparr>lg_file := (if lg_file_open l then lg_file l @ [log_line stamp e] else lg_file l),
       lg_console := lg_console l @ [log_line stamp e]\<rparr>"

text \<open>A turn of \<open>workerLoop\<close>: the test of \<open>running_\<close>, or taking an entry and writing it.\<close>

definition workerLoop :: "'q queue_ops \<Rightarrow> (nat \<Rightarrow> string) \<Rightarrow> 'q logger \<Rightarrow> 'q logger option" where
  "workerLoop Q stamp l =
     (case lg_worker l of
        Testing \<Rightarrow> Some (l\<lparr>lg_worker := (if lg_running l then Polling else Ended)\<rparr>)
      | Polling \<Rightarrow> (case q_dequeue Q (lg_queue l) of
            None \<Rightarrow> Some (l\<lparr>lg_worker := Testing\<rparr>)
          | Some (e, q) \<Rightarrow> Some (writeEntry stamp e (l\<lparr>lg_queue := q, lg_worker := Testing\<rparr>)))
      | _ \<Rightarrow> None)"

text \<open>
  A turn of \<open>shutdown\<close>: it returns at once when the logger does not run; \<open>join\<close> blocks until the worker has
  ended; then \<open>drain\<close> takes one entry after the other, and the file is closed when there is none left.
\<close>

definition lg_shutdown :: "'q queue_ops \<Rightarrow> (nat \<Rightarrow> string) \<Rightarrow> 'q logger \<Rightarrow> 'q logger option" where
  "lg_shutdown Q stamp l =
     (case lg_closing l of
        Idle \<Rightarrow> Some (if lg_running l then l\<lparr>lg_running := False, lg_closing := Joining\<rparr> else l)
      | Joining \<Rightarrow> (case lg_worker l of
            NoWorker \<Rightarrow> Some (l\<lparr>lg_closing := Draining\<rparr>)
          | Ended \<Rightarrow> Some (l\<lparr>lg_worker := NoWorker, lg_closing := Draining\<rparr>)
          | _ \<Rightarrow> None)
      | Draining \<Rightarrow> (case q_dequeue Q (lg_queue l) of
            None \<Rightarrow> Some (l\<lparr>lg_file_open := False, lg_closing := Idle\<rparr>)
          | Some (e, q) \<Rightarrow> Some (writeEntry stamp e (l\<lparr>lg_queue := q\<rparr>))))"

subsection \<open>Runs\<close>

datatype log_event = LogCall log_entry | WorkerTurn | ShutdownTurn

fun lg_step :: "'q queue_ops \<Rightarrow> (nat \<Rightarrow> string) \<Rightarrow> log_event \<Rightarrow> 'q logger \<Rightarrow> 'q logger option" where
  "lg_step Q stamp (LogCall e) l = Some (lg_log Q e l)"
| "lg_step Q stamp WorkerTurn l = workerLoop Q stamp l"
| "lg_step Q stamp ShutdownTurn l = lg_shutdown Q stamp l"

text \<open>The entries a step takes in.\<close>

fun lg_taken :: "'q queue_ops \<Rightarrow> log_event \<Rightarrow> 'q logger \<Rightarrow> log_entry multiset" where
  "lg_taken Q (LogCall e) l = (if q_enqueue Q e (lg_queue l) = None then {#} else {#e#})"
| "lg_taken Q _ l = {#}"

fun lg_run :: "'q queue_ops \<Rightarrow> (nat \<Rightarrow> string) \<Rightarrow> log_event list \<Rightarrow> 'q logger \<Rightarrow>
    ('q logger \<times> log_entry multiset) option" where
  "lg_run Q stamp [] l = Some (l, {#})"
| "lg_run Q stamp (e # es) l =
     (case lg_step Q stamp e l of None \<Rightarrow> None
      | Some l1 \<Rightarrow> (case lg_run Q stamp es l1 of None \<Rightarrow> None
         | Some (l2, taken) \<Rightarrow> Some (l2, lg_taken Q e l + taken)))"

text \<open>
  Nothing is lost and nothing written twice: what is on the console and what is in the queue are together
  what was taken in. The file has what the console has as long as it is open.
\<close>

definition lg_balance :: "('q \<Rightarrow> log_entry multiset) \<Rightarrow> (nat \<Rightarrow> string) \<Rightarrow> 'q logger \<Rightarrow> string multiset" where
  "lg_balance c stamp l = mset (lg_console l) + image_mset (log_line stamp) (c (lg_queue l))"

definition lg_inv :: "'q logger \<Rightarrow> bool" where
  "lg_inv l \<longleftrightarrow> (lg_file_open l \<longrightarrow> lg_file l = lg_console l) \<and>
     (lg_closing l \<noteq> Idle \<longrightarrow> \<not> lg_running l) \<and> (lg_closing l = Draining \<longrightarrow> lg_worker l = NoWorker) \<and>
     (lg_closing l = Idle \<longrightarrow> \<not> lg_running l \<longrightarrow> lg_worker l = NoWorker) \<and>
     (lg_running l \<longrightarrow> lg_worker l = Testing \<or> lg_worker l = Polling)"

lemma writeEntry_fields [simp]:
  "lg_queue (writeEntry stamp e l) = lg_queue l" "lg_running (writeEntry stamp e l) = lg_running l"
  "lg_worker (writeEntry stamp e l) = lg_worker l" "lg_closing (writeEntry stamp e l) = lg_closing l"
  "lg_file_open (writeEntry stamp e l) = lg_file_open l" "lg_console (writeEntry stamp e l) = lg_console l @ [log_line stamp e]"
  by (simp_all add: writeEntry_def)

lemma bag_step:
  assumes "bag Q c"
  shows "q_enqueue Q e q = Some q' \<Longrightarrow> c q' = add_mset e (c q)"
    "q_dequeue Q q = Some (e, q') \<Longrightarrow> c q = add_mset e (c q')"
  using assms unfolding bag_def by blast+

lemma lg_step_balance:
  assumes "bag Q c" "lg_step Q stamp e l = Some l'"
  shows "lg_balance c stamp l' = lg_balance c stamp l + image_mset (log_line stamp) (lg_taken Q e l)"
  using assms(2)
  by (cases e)
    (auto simp: lg_balance_def lg_log_def workerLoop_def lg_shutdown_def
      dest: bag_step [OF assms(1)] split: option.splits worker.splits closing.splits if_splits)

lemma lg_step_inv: "lg_step Q stamp e l = Some l' \<Longrightarrow> lg_inv l \<Longrightarrow> lg_inv l'"
  by (cases e)
    (auto simp: lg_inv_def lg_log_def workerLoop_def lg_shutdown_def writeEntry_def
      split: option.splits worker.splits closing.splits if_splits)

lemma lg_run_keeps:
  assumes "bag Q c"
  shows "lg_run Q stamp es l = Some (l', taken) \<Longrightarrow> lg_inv l \<Longrightarrow>
    lg_inv l' \<and> lg_balance c stamp l' = lg_balance c stamp l + image_mset (log_line stamp) taken"
proof (induction es arbitrary: l taken)
  case (Cons e es)
  from Cons.prems(1) obtain l1 t where l1: "lg_step Q stamp e l = Some l1" "lg_run Q stamp es l1 = Some (l', t)"
    "taken = lg_taken Q e l + t" by (auto split: option.splits)
  from Cons.IH [OF l1(2) lg_step_inv [OF l1(1) Cons.prems(2)]] lg_step_balance [OF assms l1(1)] l1(3) show ?case
    by simp
qed simp

lemma lg_started:
  assumes "bag Q c" "lg_init opened (RtcLogger_new Q) = Some l"
  shows "lg_inv l" "lg_balance c stamp l = {#}"
  using assms by (auto simp: lg_init_def RtcLogger_new_def lg_inv_def lg_balance_def bag_def)

text \<open>After \<open>shutdown\<close> a message is taken in and never written.\<close>

lemma late_step:
  assumes "lg_closing l = Idle" "\<not> lg_running l" "lg_worker l = NoWorker" "lg_step Q stamp e l = Some l'"
  shows "lg_file l' = lg_file l \<and> lg_console l' = lg_console l \<and> lg_closing l' = Idle \<and> \<not> lg_running l' \<and>
    lg_worker l' = NoWorker"
  using assms by (cases e) (auto simp: lg_log_def workerLoop_def lg_shutdown_def split: option.splits)

lemma late_messages_lost:
  "lg_closing l = Idle \<Longrightarrow> \<not> lg_running l \<Longrightarrow> lg_worker l = NoWorker \<Longrightarrow> lg_run Q stamp es l = Some (l', t) \<Longrightarrow>
     lg_file l' = lg_file l \<and> lg_console l' = lg_console l"
proof (induction es arbitrary: l t)
  case (Cons e es)
  from Cons.prems(4) obtain l1 t1 where l1: "lg_step Q stamp e l = Some l1" "lg_run Q stamp es l1 = Some (l', t1)"
    by (auto split: option.splits)
  from late_step [OF Cons.prems(1-3) l1(1)] Cons.IH [OF _ _ _ l1(2)] show ?case by simp
qed simp

text \<open>What is left of \<open>shutdown\<close>: the entries, and the places of the two threads.\<close>

fun worker_rank :: "worker \<Rightarrow> nat" where
  "worker_rank Polling = 2"
| "worker_rank Testing = 1"
| "worker_rank _ = 0"

fun closing_rank :: "closing \<Rightarrow> nat" where
  "closing_rank Joining = 2"
| "closing_rank Draining = 1"
| "closing_rank Idle = 0"

definition turns_left :: "('q \<Rightarrow> log_entry multiset) \<Rightarrow> 'q logger \<Rightarrow> nat" where
  "turns_left c l = size (c (lg_queue l)) + worker_rank (lg_worker l) + closing_rank (lg_closing l)"

lemma turn_decreases:
  assumes "bag Q c" "lg_inv l" "lg_closing l \<noteq> Idle" "lg_step Q stamp e l = Some l'" "\<And>x. e \<noteq> LogCall x"
  shows "turns_left c l' < turns_left c l"
  using assms(2-5)
  by (cases e)
    (auto simp: lg_inv_def turns_left_def workerLoop_def lg_shutdown_def
      dest: bag_step [OF assms(1)] split: option.splits worker.splits closing.splits if_splits)

lemma turn_possible:
  assumes "lg_inv l" "lg_closing l \<noteq> Idle"
  shows "lg_step Q stamp WorkerTurn l \<noteq> None \<or> lg_step Q stamp ShutdownTurn l \<noteq> None"
  using assms
  by (cases "lg_closing l"; cases "lg_worker l")
    (auto simp: workerLoop_def lg_shutdown_def split: option.splits)

subsection \<open>Properties\<close>

text \<open>C39: The logger writes no message twice and loses none that it has taken from its queue: whatever threads
log and however they, the worker and \<open>shutdown\<close> take turns, the lines on the console and those of the entries
still in the queue are together the lines of the entries taken in, and while the file is open it has the
lines of the console. When \<open>shutdown\<close> closes the file, what it leaves in the queue (the queue need not be
empty when a look into it finds nothing) is all that the file lacks; and from then on nothing is written
any more, so that the rest and whatever is logged later is lost.\<close>
theorem log_written_once:
  assumes "bag Q c" "lg_init opened (RtcLogger_new Q) = Some l0" "lg_run Q stamp es l0 = Some (l, taken)"
  shows "mset (lg_console l) + image_mset (log_line stamp) (c (lg_queue l)) = image_mset (log_line stamp) taken \<and>
    (lg_file_open l \<longrightarrow> lg_file l = lg_console l) \<and>
    (\<forall>l'. lg_closing l = Draining \<longrightarrow> lg_file_open l \<longrightarrow> lg_shutdown Q stamp l = Some l' \<longrightarrow> lg_closing l' = Idle \<longrightarrow>
       mset (lg_file l') + image_mset (log_line stamp) (c (lg_queue l')) = image_mset (log_line stamp) taken) \<and>
    (\<forall>es' l' t. lg_closing l = Idle \<longrightarrow> \<not> lg_running l \<longrightarrow> lg_run Q stamp es' l = Some (l', t) \<longrightarrow>
       lg_file l' = lg_file l \<and> lg_console l' = lg_console l)"
proof -
  from lg_run_keeps [OF assms(1,3) lg_started(1) [OF assms(1,2)]] lg_started(2) [OF assms(1,2), of stamp]
  have l: "lg_inv l" "lg_balance c stamp l = image_mset (log_line stamp) taken" by simp_all
  have "lg_file l' = lg_file l \<and> lg_queue l' = lg_queue l"
    if "lg_closing l = Draining" "lg_shutdown Q stamp l = Some l'" "lg_closing l' = Idle" for l'
    using that by (auto simp: lg_shutdown_def split: option.splits)
  moreover have "lg_file l' = lg_file l \<and> lg_console l' = lg_console l"
    if "lg_closing l = Idle" "\<not> lg_running l" "lg_run Q stamp es' l = Some (l', t)" for es' l' t
    using late_messages_lost [OF that(1,2) _ that(3)] l(1) that(1,2) by (simp add: lg_inv_def)
  ultimately show ?thesis using l unfolding lg_inv_def lg_balance_def by (intro conjI allI impI) simp_all
qed

text \<open>C40: \<open>shutdown\<close> ends: from the moment it has stopped the logger, as long as nothing is logged, one of the
two threads can take a turn until it has returned, and it has after at most as many turns as there are
entries in the queue and four more, whichever thread takes them.\<close>
theorem shutdown_ends:
  assumes "bag Q c" "lg_init opened (RtcLogger_new Q) = Some l0" "lg_run Q stamp es l0 = Some (l, taken)"
    and "lg_closing l \<noteq> Idle"
  shows "(lg_step Q stamp WorkerTurn l \<noteq> None \<or> lg_step Q stamp ShutdownTurn l \<noteq> None) \<and>
    (\<forall>es' l' t. lg_run Q stamp es' l = Some (l', t) \<longrightarrow> (\<forall>e\<in>set es'. e = WorkerTurn \<or> e = ShutdownTurn) \<longrightarrow>
       size (c (lg_queue l)) + 4 < length es' \<longrightarrow> (\<exists>n l1 t1. lg_run Q stamp (take n es') l = Some (l1, t1) \<and> lg_closing l1 = Idle))"
proof -
  from lg_run_keeps [OF assms(1,3) lg_started(1) [OF assms(1,2)]] have inv: "lg_inv l" by simp
  have ends: "\<exists>n l1 t1. lg_run Q stamp (take n es') l = Some (l1, t1) \<and> lg_closing l1 = Idle"
    if "lg_run Q stamp es' l = Some (l', t)" "\<forall>e\<in>set es'. e = WorkerTurn \<or> e = ShutdownTurn"
      "turns_left c l < length es'" "lg_inv l" for es' l l' t
    using that
  proof (induction es' arbitrary: l t)
    case (Cons e es')
    show ?case
    proof (cases "lg_closing l = Idle")
      case True
      then show ?thesis by (intro exI [of _ 0]) simp
    next
      case False
      from Cons.prems(1) obtain l1 t' where l1: "lg_step Q stamp e l = Some l1" "lg_run Q stamp es' l1 = Some (l', t')"
        by (auto split: option.splits)
      have "e \<noteq> LogCall x" for x using Cons.prems(2) by auto
      from turn_decreases [OF assms(1) Cons.prems(4) False l1(1) this] Cons.prems(3)
      have "turns_left c l1 < length es'" by simp
      from Cons.IH [OF l1(2) _ this lg_step_inv [OF l1(1) Cons.prems(4)]] Cons.prems(2) obtain n l2 t2 where
        "lg_run Q stamp (take n es') l1 = Some (l2, t2)" "lg_closing l2 = Idle" by auto
      with l1(1) show ?thesis by (intro exI [of _ "Suc n"]) simp
    qed
  qed simp
  have "turns_left c l \<le> size (c (lg_queue l)) + 4"
    by (cases "lg_worker l"; cases "lg_closing l") (simp_all add: turns_left_def)
  with ends [OF _ _ _ inv] have "\<exists>n l1 t1. lg_run Q stamp (take n es') l = Some (l1, t1) \<and> lg_closing l1 = Idle"
    if "lg_run Q stamp es' l = Some (l', t)" "\<forall>e\<in>set es'. e = WorkerTurn \<or> e = ShutdownTurn"
      "size (c (lg_queue l)) + 4 < length es'" for es' l' t using that le_less_trans by blast
  with turn_possible [OF inv assms(4)] show ?thesis by blast
qed

text \<open>A queue that is a list.\<close>

definition list_queue :: "log_entry list queue_ops" where
  "list_queue = \<lparr>q_new = [], q_enqueue = (\<lambda>e q. Some (q @ [e])),
     q_dequeue = (\<lambda>q. case q of [] \<Rightarrow> None | e # q' \<Rightarrow> Some (e, q'))\<rparr>"

lemma list_queue_bag: "bag list_queue mset"
  by (auto simp: bag_def list_queue_def split: list.splits)

definition demo_entry :: "string \<Rightarrow> log_entry" where
  "demo_entry text = \<lparr>le_time = 7005000000, le_level = LvInfo, le_message = text\<rparr>"

definition demo_logger :: "log_entry list logger" where
  "demo_logger = the (lg_init True (RtcLogger_new list_queue))"

definition demo_log :: "log_event list" where
  "demo_log = [LogCall (demo_entry ''a''), WorkerTurn, WorkerTurn, LogCall (demo_entry ''b''), ShutdownTurn, WorkerTurn,
     ShutdownTurn, ShutdownTurn]"

lemma demo_logger_starts: "lg_init True (RtcLogger_new list_queue) = Some demo_logger"
  by (simp add: demo_logger_def lg_init_def RtcLogger_new_def)

lemmas demo_runs = demo_logger_def lg_init_def RtcLogger_new_def list_queue_def lg_log_def workerLoop_def lg_shutdown_def
  writeEntry_def

theorem log_written_once_witness:
  "\<exists>l l'. lg_run list_queue (\<lambda>_. ''now'') demo_log demo_logger = Some (l, {#demo_entry ''a'', demo_entry ''b''#}) \<and>
     lg_shutdown list_queue (\<lambda>_. ''now'') l = Some l' \<and>
     mset (lg_file l') = {#''now.005 [INFO ] a'', ''now.005 [INFO ] b''#}"
proof -
  have line: "log_line (\<lambda>_. ''now'') (demo_entry t) = ''now.005 [INFO ] '' @ t" for t
  proof -
    have "three_columns 5 = ''005''" by code_simp
    then show ?thesis by (simp add: log_line_def demo_entry_def)
  qed
  obtain l where l: "lg_run list_queue (\<lambda>_. ''now'') demo_log demo_logger = Some (l, {#demo_entry ''a'', demo_entry ''b''#})"
    "lg_closing l = Draining" "lg_file_open l" "lg_queue l = []"
    by (simp add: demo_runs demo_log_def)
  then obtain l' where l': "lg_shutdown list_queue (\<lambda>_. ''now'') l = Some l'" "lg_closing l' = Idle" "lg_queue l' = []"
    by (simp add: lg_shutdown_def list_queue_def)
  from log_written_once [OF list_queue_bag demo_logger_starts l(1)] l(2,3) l'(1,2)
  have "mset (lg_file l') + image_mset (log_line (\<lambda>_. ''now'')) (mset (lg_queue l')) = image_mset (log_line (\<lambda>_. ''now'')) {#demo_entry ''a'', demo_entry ''b''#}" by blast
  with l(1) l'(1,3) show ?thesis by (auto simp: line)
qed

theorem shutdown_ends_witness:
  "\<exists>l t. lg_run list_queue (\<lambda>_. ''now'') [LogCall (demo_entry ''a''), ShutdownTurn] demo_logger = Some (l, t) \<and>
     (lg_step list_queue (\<lambda>_. ''now'') WorkerTurn l \<noteq> None \<or> lg_step list_queue (\<lambda>_. ''now'') ShutdownTurn l \<noteq> None)"
proof -
  obtain l t where l: "lg_run list_queue (\<lambda>_. ''now'') [LogCall (demo_entry ''a''), ShutdownTurn] demo_logger = Some (l, t)"
    "lg_closing l \<noteq> Idle"
    by (simp add: demo_runs)
  from shutdown_ends [OF list_queue_bag demo_logger_starts l] l(1) show ?thesis by blast
qed

end
