(* ===== verification/Programs.thy ===== *)
theory Programs
  imports HttpTunnel ClientProgram Logger
begin

text \<open>
  \<open>Src/client/src/main.cpp\<close> and \<open>Src/server/src/main.cpp\<close>: what the two programs do in order, the loop
  that waits for the user, and the threads that run the handlers.
\<close>

subsection \<open>Waiting for the user\<close>

text \<open>
  A turn of \<open>input_keyboard\<close>: the flag as the loop tests it (a signal or the close callback may have cleared
  it), whether standard input is a terminal (if not, the loop sleeps), and what \<open>cin.get\<close> reads, \<open>None\<close> at the
  end of the input, where it leaves the variable as it was. The variable is not initialised: its first value is
  an argument. The result says whether the user has ended the program; \<open>None\<close>: the loop still runs.
\<close>

record key_turn =
  kt_running :: bool
  kt_terminal :: bool
  kt_get :: "char option"

definition quit_key :: "char \<Rightarrow> bool" where
  "quit_key c \<longleftrightarrow> c = CHR ''q'' \<or> c = CHR ''Q''"

fun input_keyboard :: "char \<Rightarrow> key_turn list \<Rightarrow> bool option" where
  "input_keyboard c [] = None"
| "input_keyboard c (k # ks) =
     (if \<not> kt_running k then Some False
      else if \<not> kt_terminal k then input_keyboard c ks
      else let c1 = (case kt_get k of None \<Rightarrow> c | Some x \<Rightarrow> x) in
           if quit_key c1 then Some True else input_keyboard c1 ks)"

text \<open>It ends exactly when the flag is cleared or a \<open>q\<close> is read, or stands in the variable at the end of the input.\<close>

lemma flag_ends_loop: "\<not> kt_running k \<Longrightarrow> input_keyboard c (ks @ k # ks') \<noteq> None"
  by (induction ks arbitrary: c) (auto simp: Let_def)

lemma q_ends_loop: "kt_terminal k \<Longrightarrow> kt_get k = Some c' \<Longrightarrow> quit_key c' \<Longrightarrow> input_keyboard c (ks @ k # ks') \<noteq> None"
  by (induction ks arbitrary: c) (auto simp: Let_def)

lemma input_ended:
  assumes "\<not> quit_key c"
  shows "\<forall>k\<in>set ks. kt_running k \<and> kt_terminal k \<and> kt_get k = None \<Longrightarrow> input_keyboard c ks = None"
proof (induction ks)
  case (Cons k ks)
  have k: "kt_running k \<and> kt_terminal k \<and> kt_get k = None" by (rule bspec [OF Cons.prems]) simp
  have "input_keyboard c ks = None" by (rule Cons.IH, rule ballI, rule bspec [OF Cons.prems]) simp
  with k assms show ?case by (simp add: Let_def)
qed simp

lemma end_of_input:
  assumes "\<forall>k\<in>set ks. kt_running k \<and> kt_terminal k \<and> kt_get k = None" "ks \<noteq> []"
  shows "input_keyboard c ks = (if quit_key c then Some True else None)"
proof (cases "quit_key c")
  case True
  from assms(2) obtain k ks' where "ks = k # ks'" by (cases ks) simp_all
  moreover have "kt_running k \<and> kt_terminal k \<and> kt_get k = None"
    by (rule bspec [OF assms(1)]) (simp add: \<open>ks = k # ks'\<close>)
  ultimately show ?thesis using True by (simp add: Let_def)
qed (simp add: input_ended [OF _ assms(1)])

subsection \<open>The client\<close>

text \<open>
  The process: the application, the threads that run \<open>io.run()\<close>, and the logger's calls left out of it.
\<close>

record 'l client_process =
  cp_app :: "'l app"
  cp_threads :: nat

datatype main_call =
    InstallCrashHandler
  | LoggerInit string
  | HandleSignals
  | SaveFileAt string string
  | MakeThreads nat
  | AppCall app_action
  | StopServer
  | JoinThreads nat
  | LoggerShutdown

definition saved_file :: "(string \<times> string) option \<Rightarrow> main_call list" where
  "saved_file w = (case w of None \<Rightarrow> [] | Some (name, content) \<Rightarrow> [SaveFileAt name content])"

text \<open>\<open>main\<close> up to \<open>input_keyboard\<close>, and after it.\<close>

definition client_main_start ::
  "'l client_env \<Rightarrow> nat \<Rightarrow> string \<Rightarrow> config_file \<Rightarrow> string \<Rightarrow> u32 list \<Rightarrow> ('l client_process \<times> main_call list) cpp" where
  "client_main_start E lb nl file dir ds =
     (case readClientConfig lb nl file (dir @ ''/config.ini'') ClientConfig_new of (config, saved) \<Rightarrow>
      let n = nat (sint (asio_thread_count config)) in
      cbind (app_handle E (AevStart config) (app_onClose (NetworkRtcApp_new 1 ds))) (\<lambda>(p, acts).
        Inr (\<lparr>cp_app = p, cp_threads = n\<rparr>,
          [InstallCrashHandler, LoggerInit ''rtc_client.log'', HandleSignals] @ saved_file saved @
          [MakeThreads n] @ map AppCall acts)))"

definition client_main_stop :: "'l client_env \<Rightarrow> u32 list \<Rightarrow> ('l client_process, main_call) handler" where
  "client_main_stop E order x =
     cbind (app_handle E (AevStop order) (cp_app x)) (\<lambda>(p, acts).
       Inr (x\<lparr>cp_app := p\<rparr>, map AppCall acts @ [JoinThreads (cp_threads x), LoggerShutdown]))"

text \<open>
  A handler of Asio (an \<open>asio_event\<close>) runs on one of the threads. An exception leaves \<open>io.run()\<close>, is logged, and the thread
  ends; the application is left in the state the handler had got to (\<open>left\<close>). With no thread the handler
  stays in the queue.
\<close>

fun asio_event :: "app_event \<Rightarrow> bool" where
  "asio_event (AevAccept r) = True"
| "asio_event (AevSession i e) = True"
| "asio_event _ = False"

definition io_event :: "'l client_env \<Rightarrow> 'l app \<Rightarrow> app_event \<Rightarrow> ('l client_process, main_call) handler" where
  "io_event E left e x =
     (if cp_threads x = 0 then skip x
      else case app_handle E e (cp_app x) of
        Inr (p, acts) \<Rightarrow> Inr (x\<lparr>cp_app := p\<rparr>, map AppCall acts)
      | Inl er \<Rightarrow> if er = OutOfBounds \<or> er = NullDeref \<or> er = NoReturn then Inl er
          else Inr (x\<lparr>cp_app := left, cp_threads := cp_threads x - 1\<rparr>, []))"

fun io_run :: "'l client_env \<Rightarrow> ('l app \<times> app_event) list \<Rightarrow> ('l client_process, main_call) handler" where
  "io_run E [] = skip"
| "io_run E ((left, e) # es) = andThen (io_event E left e) (io_run E es)"

text \<open>The client's runs are those of \<open>ClientProgram\<close>, as long as no handler throws.\<close>

lemma client_main_reach:
  assumes "client_main_start E lb nl file dir ds = Inr (x, calls)"
  shows "app_reach E (cp_app x)"
proof -
  obtain config saved where c: "readClientConfig lb nl file (dir @ ''/config.ini'') ClientConfig_new = (config, saved)"
    by (cases "readClientConfig lb nl file (dir @ ''/config.ini'') ClientConfig_new")
  have p0: "app_reach E (app_onClose (NetworkRtcApp_new 1 ds))" by (intro app_reach.closable app_reach.fresh)
  from assms obtain p acts where p: "app_handle E (AevStart config) (app_onClose (NetworkRtcApp_new 1 ds)) = Inr (p, acts)"
    "cp_app x = p" by (auto simp: client_main_start_def c Let_def cbind_eq_Inr simp del: app_handle.simps)
  from app_reach.step [OF p0 _ p(1)] p(2) show ?thesis by simp
qed

lemma io_event_reach:
  assumes "app_reach E (cp_app x)" "app_possible (cp_app x) e" "io_event E left e x = Inr (x', calls)"
    and "cp_threads x' = cp_threads x"
  shows "app_reach E (cp_app x')"
proof (cases "cp_threads x")
  case 0
  with assms show ?thesis by (simp add: io_event_def skip_def)
next
  case (Suc n)
  with assms(3,4) obtain p acts where "app_handle E e (cp_app x) = Inr (p, acts)" "cp_app x' = p"
    by (auto simp: io_event_def split: sum.splits if_splits)
  with app_reach.step [OF assms(1,2)] show ?thesis by blast
qed

subsection \<open>The server\<close>

text \<open>\<open>rtc::WebSocketServerConfiguration\<close>, as far as \<open>main\<close> sets it.\<close>

record listen_settings =
  wl_port :: u16
  wl_timeout :: u16
  wl_max_message :: u32
  wl_address :: string
  wl_enable_tls :: bool

definition listen_settings_of :: "server_config \<Rightarrow> listen_settings" where
  "listen_settings_of c =
     \<lparr>wl_port = sc_ws_bind_port c, wl_timeout = sc_ws_connection_timeout c,
      wl_max_message = sc_ws_max_message_size c, wl_address = sc_ws_bind_address c, wl_enable_tls = sc_ws_enable_tls c\<rparr>"

record 'l server_process =
  sp_clients :: "'l ws_server"
  sp_listen :: listen_settings
  sp_threads :: nat

definition server_main_start :: "nat \<Rightarrow> string \<Rightarrow> config_file \<Rightarrow> string \<Rightarrow> 'l server_process \<times> main_call list" where
  "server_main_start lb nl file dir =
     (case readConfig lb nl file (dir @ ''/config.ini'') ServerConfig_new of (config, saved) \<Rightarrow>
      let n = nat (sint (sc_asio_thread_count config)) in
      (\<lparr>sp_clients = ProcessNewWsClient_new (sc_server_password config), sp_listen = listen_settings_of config,
        sp_threads = n\<rparr>,
       [LoggerInit ''rtc_server.log'', HandleSignals] @ saved_file saved @ [MakeThreads n]))"

text \<open>The WebSocket server hands over a client.\<close>

definition server_on_client :: "ws_state \<Rightarrow> ('l server_process, ws_action) handler" where
  "server_on_client ws x = cbind (newClient ws (sp_clients x)) (\<lambda>(v, acts). Inr (x\<lparr>sp_clients := v\<rparr>, acts))"

definition server_main_stop :: "u32 list \<Rightarrow> 'l server_process \<Rightarrow> ('l server_process \<times> ws_action list \<times> main_call list) cpp" where
  "server_main_stop order x =
     cbind (ws_stop order (sp_clients x)) (\<lambda>(v, acts).
       Inr (x\<lparr>sp_clients := v\<rparr>, acts, [StopServer, JoinThreads (sp_threads x), LoggerShutdown]))"

text \<open>The settings for the certificate and its key are read and not used.\<close>

lemma certificate_ignored:
  "listen_settings_of (c\<lparr>sc_ws_certificate_pem_file := a, sc_ws_key_pem_file := b, sc_ws_key_pem_pass := k\<rparr>) =
     listen_settings_of c"
  by (simp add: listen_settings_of_def)

subsection \<open>Requests that take a thread\<close>

text \<open>A request for a port that is no number makes the handler of the read throw.\<close>

lemma bad_port_throws:
  assumes "sv_heap p i = Some (cs_set_on_close True (Socks5Session_new ll i))" "b \<noteq> []" "hd b \<noteq> 5"
    and "ll_execute ll (ll_init ll Request) (string_of_bytes b) = (request_head ls fvs info @ rest, err, l)"
    and "\<forall>e\<in>set rest. body_event e" "\<forall>code why. err \<noteq> LlError code why"
    and "\<forall>fv\<in>set fvs. fst fv \<noteq> [] \<and> snd fv \<noteq> []"
    and "destination (request_of ls fvs info) = Inl er"
  shows "run_session i (process_data ll (b @ stale) (length b)) p = Inl er"
proof -
  let ?msg = "request_of ls fvs info"
  let ?w = "app_world (cs_set_on_close True (Socks5Session_new ll i)) p"
  have w: "cs_phase (cs ?w) = WaitGreetingVersion" "http_request_parser (cs ?w) = request_parser ll"
    by (simp_all add: app_world_def cs_set_on_close_def Socks5Session_new_def request_parser_def)
  from feed_head [OF assms(4-7)] obtain ok p1 p2 where
    fed: "feed ll (string_of_bytes b) (request_parser ll) = (ok, [(UpHeadersComplete ?msg, p1)], p2)" .
  let ?w1 = "cs_upd (\<lambda>s. s\<lparr>cs_phase := WaitHttpRequestHeaders\<rparr>) ?w"
  have "on_request_headers ?msg (cs_upd (\<lambda>s. s\<lparr>http_request_parser := p2\<rparr>) ?w1) = Inl er"
    using assms(8) by (simp add: on_request_headers_def destination_def)
  then have "feed_request ll (string_of_bytes b) ?w1 = Inl er"
    using w(2) by (simp add: feed_request_def fed andThen_def)
  then have "process_data ll (b @ stale) (length b) ?w = Inl er"
    using w(1) http_loop [OF w(1) assms(2,3), of stale]
    by (simp add: process_data_def consume_pending_def rd_range_def andThen_def)
  with assms(1) show ?thesis by (simp add: run_session_def)
qed

text \<open>A port is no number when no digit follows the colon.\<close>

lemma bad_port:
  assumes "CHR '':'' \<notin> set host" "c \<notin> set ''0123456789+- ''" "\<not> is_space c" "\<not> is_digit c"
  shows "split_host_port (host @ '':'' @ c # rest) = Inl InvalidArgument"
proof -
  have "stoi (c # rest) = Inl InvalidArgument" using assms(2-4) by (auto simp: stoi_def Let_def)
  then show ?thesis using assms(1) by (simp add: split_host_port_def str_find_def find_char_append)
qed

definition bad_request :: "'l llhttp \<Rightarrow> 'l app \<Rightarrow> app_event \<Rightarrow> bool" where
  "bad_request ll p ev \<longleftrightarrow> (\<exists>i b stale ls fvs info rest err l.
     ev = AevSession i (CevRead (b @ stale) (length b)) \<and>
     sv_heap p i = Some (cs_set_on_close True (Socks5Session_new ll i)) \<and> b \<noteq> [] \<and> hd b \<noteq> 5 \<and>
     ll_execute ll (ll_init ll Request) (string_of_bytes b) = (request_head ls fvs info @ rest, err, l) \<and>
     (\<forall>e\<in>set rest. body_event e) \<and> (\<forall>code why. err \<noteq> LlError code why) \<and>
     (\<forall>fv\<in>set fvs. fst fv \<noteq> [] \<and> snd fv \<noteq> []) \<and> destination (request_of ls fvs info) = Inl InvalidArgument)"

text \<open>One such request after another, each in the state the one before it left.\<close>

fun bad_requests :: "'l llhttp \<Rightarrow> 'l app \<Rightarrow> ('l app \<times> app_event) list \<Rightarrow> bool" where
  "bad_requests ll p [] = True"
| "bad_requests ll p ((left, ev) # es) = (bad_request ll p ev \<and> bad_requests ll left es)"

lemma bad_request_event:
  assumes "bad_request (ce_llhttp E) (cp_app x) ev" "cp_threads x = Suc n"
  shows "io_event E left ev x = Inr (x\<lparr>cp_app := left, cp_threads := n\<rparr>, [])"
proof -
  from assms(1) obtain i b stale ls fvs info rest err l where
    ev: "ev = AevSession i (CevRead (b @ stale) (length b))" and
    bad: "sv_heap (cp_app x) i = Some (cs_set_on_close True (Socks5Session_new (ce_llhttp E) i))" "b \<noteq> []" "hd b \<noteq> 5"
      "ll_execute (ce_llhttp E) (ll_init (ce_llhttp E) Request) (string_of_bytes b) = (request_head ls fvs info @ rest, err, l)"
      "\<forall>e\<in>set rest. body_event e" "\<forall>code why. err \<noteq> LlError code why" "\<forall>fv\<in>set fvs. fst fv \<noteq> [] \<and> snd fv \<noteq> []"
      "destination (request_of ls fvs info) = Inl InvalidArgument"
    unfolding bad_request_def by blast
  from bad_port_throws [OF bad, of stale] have "app_handle E ev (cp_app x) = Inl InvalidArgument" by (simp add: ev)
  then show ?thesis by (simp add: io_event_def assms(2))
qed

lemma idle_threads: "cp_threads x = 0 \<Longrightarrow> io_run E es x = Inr (x, [])"
proof (induction es)
  case (Cons e es)
  then show ?case by (cases e) (simp add: io_event_def skip_def andThen_def)
qed (simp add: skip_def)

subsection \<open>Property\<close>

text \<open>C38: A few requests stop the client: a local application that asks the HTTP proxy for a port that is no
number makes the handler of its read throw, which ends the thread that ran it; after as many such requests
as the process has threads (four by default) no handler runs any more, whatever connections are accepted
and whatever arrives on them.\<close>
theorem bad_ports_stop_client:
  assumes "bad_requests (ce_llhttp E) (cp_app x) es" "length es = cp_threads x"
  shows "\<exists>x'. io_run E es x = Inr (x', []) \<and> cp_threads x' = 0 \<and>
    (\<forall>es'. (\<forall>e\<in>set es'. asio_event (snd e)) \<longrightarrow> io_run E es' x' = Inr (x', []))"
  using assms
proof (induction es arbitrary: x)
  case Nil
  then show ?case using idle_threads by (auto simp: skip_def)
next
  case (Cons e es)
  obtain left ev where e: "e = (left, ev)" by (cases e)
  from Cons.prems obtain n where n: "cp_threads x = Suc n" "length es = n" by (metis length_Cons)
  let ?x = "x\<lparr>cp_app := left, cp_threads := n\<rparr>"
  from bad_request_event [OF _ n(1), of E ev left] Cons.prems(1) have "io_event E left ev x = Inr (?x, [])" by (simp add: e)
  moreover from Cons.IH [of ?x] Cons.prems(1) n(2) obtain x' where
    "io_run E es ?x = Inr (x', [])" "cp_threads x' = 0" "\<forall>es'. (\<forall>e\<in>set es'. asio_event (snd e)) \<longrightarrow> io_run E es' x' = Inr (x', [])" by (auto simp: e)
  ultimately show ?case by (auto simp: e andThen_def)
qed

definition bad_env :: "unit client_env" where
  "bad_env = idle_env\<lparr>ce_llhttp := scripted_llhttp [(''G'', request_head [''/''] [([''Host''], [''h:x''])] (demo_info ''GET''))]\<rparr>"

theorem bad_ports_stop_client_witness:
  "\<exists>x'. io_run bad_env (replicate 4 (demo_near, AevSession 1 (CevRead (bytes_of_string ''G'' @ []) (length (bytes_of_string ''G'')))))
      \<lparr>cp_app = demo_near, cp_threads = 4\<rparr> = Inr (x', []) \<and> cp_threads x' = 0"
proof -
  let ?ev = "AevSession 1 (CevRead (bytes_of_string ''G'' @ []) (length (bytes_of_string ''G'')))"
  have ll: "ce_llhttp bad_env = scripted_llhttp [(''G'', request_head [''/''] [([''Host''], [''h:x''])] (demo_info ''GET''))]"
    by (simp add: bad_env_def)
  have "bad_request (ce_llhttp bad_env) demo_near ?ev"
    unfolding bad_request_def
  proof (intro exI conjI)
    show "?ev = AevSession 1 (CevRead (bytes_of_string ''G'' @ []) (length (bytes_of_string ''G'')))" by simp
    show "sv_heap demo_near 1 = Some (cs_set_on_close True (Socks5Session_new (ce_llhttp bad_env) 1))"
      by (simp add: demo_near_def ll scripted_llhttp_def idle_llhttp_def Socks5Session_new_def HttpParser_new_def hp_init_def)
    show "bytes_of_string ''G'' \<noteq> []" "hd (bytes_of_string ''G'') \<noteq> 5" by (simp_all add: bytes_of_string_def byte_of_char_def)
    show "ll_execute (ce_llhttp bad_env) (ll_init (ce_llhttp bad_env) Request) (string_of_bytes (bytes_of_string ''G'')) =
        (request_head [''/''] [([''Host''], [''h:x''])] (demo_info ''GET'') @ [], LlOk, ())"
      by (simp add: ll scripted_llhttp_def)
    show "destination (request_of [''/''] [([''Host''], [''h:x''])] (demo_info ''GET'')) = Inl InvalidArgument" by code_simp
  qed simp_all
  then have "bad_requests (ce_llhttp bad_env) (cp_app \<lparr>cp_app = demo_near, cp_threads = 4\<rparr>) (replicate 4 (demo_near, ?ev))"
    by (simp add: numeral_eq_Suc)
  from bad_ports_stop_client [OF this] show ?thesis by auto
qed

end
