(* ===== verification/Spec2Isabelle.thy ===== *)
theory Spec2Isabelle
  imports RtcPrelude SessionProtocol SessionIds SessionMux TcpSocket UdpSocket HttpMessage HttpParser
    HttpRelay Signaling SessionController ClientUdpSession ClientSession ServerTargets TunnelSession
    ServerSession ClientTyping Configuration NetworkRtcApp EndToEnd HttpTunnel
    PairSafety Programs
begin

text \<open>
  \<^bold>\<open>A verification library for rtcvpn.\<close>

  The program under \<open>src/Src\<close> carries the connections of local applications over a WebRTC data
  channel. The \<^emph>\<open>client\<close> (\<open>client/\<close>) listens for SOCKS5 and HTTP proxy connections; the \<^emph>\<open>server\<close>
  (\<open>server/\<close>) opens the connections the applications asked for; \<open>common/\<close> is what both are built from.
  One data channel carries every connection: each is a stream of frames with a number of its own, opened
  by a SYN that names the target, answered by a SYNACK, and closed by a FIN.

  \<^bold>\<open>How the parts interact.\<close>
  A local connection is accepted by \<open>SocksServer\<close> and read by a client session, which recognises the
  protocol, makes a stream and sends the SYN. The multiplexer puts a frame header before a payload, the
  peer-to-peer client a length, and the library sends the message. On the other side the same classes
  take both off again, the server's multiplexer finds the stream, and a tunnel hands the payload to the
  object that talks to the target: a TCP socket, a UDP socket or an HTTP forwarder. Answers come back the
  same way. The signaling client and the controller set up the channel itself and check the password.

  \<^bold>\<open>Which theory models what\<close> (files are relative to \<open>src/Src\<close>; a definition has the name of the function
  it models, with the class or a prefix where two classes use the same name).
  \<^item> \<open>RtcPrelude\<close>: machine words as bytes, checked reads, results of code that may throw
    (\<open>cpp_error + 'a\<close>), handlers (\<open>state \<Rightarrow> (state \<times> calls made) cpp\<close>) and their sequencing, numbers as text.
  \<^item> \<open>SessionProtocol\<close>: \<open>common/include/session_protocol.h\<close>, \<open>common/src/session_protocol.cpp\<close>. The codecs:
    frame header, SYN and UDP payloads, the length prefix, the origin form of a request target.
  \<^item> \<open>SessionIds\<close>: \<open>common/src/session_id_generator.cpp\<close>, with the locale \<open>id_source\<close>.
  \<^item> \<open>SessionMux\<close>: \<open>common/src/session_mux.cpp\<close>. Session objects in a store, the table of streams, the
    frame dispatcher and the senders.
  \<^item> \<open>TcpSocket\<close>, \<open>UdpSocket\<close>: \<open>common/src/tcp_socket.cpp\<close>, \<open>common/src/udp_socket.cpp\<close>. A handler for
    every closure the strand runs; which Asio operations are in flight is an inductive step relation.
  \<^item> \<open>HttpMessage\<close>, \<open>HttpParser\<close>: \<open>common/include/http_parse.h\<close>. The message and its serialisation; the
    callbacks that assemble it and \<open>feed\<close>. \<open>HttpRelay\<close> states, as a locale, how both programs forward a message.
  \<^item> \<open>Signaling\<close>, \<open>SessionController\<close>: \<open>common/src/signaling.cpp\<close>, \<open>common/src/p2p_client.cpp\<close>,
    \<open>common/include/p2p_session_controller.h\<close>. The WebSocket, the peer connection, the password handshake.
  \<^item> \<open>ClientUdpSession\<close>, \<open>ClientSession\<close>: \<open>client/src/udp_session.cpp\<close>, \<open>client/src/tcp_session.cpp\<close>.
    The state machine of a local connection; \<open>ClientTyping\<close> says what it may be told and says in turn.
  \<^item> \<open>ServerTargets\<close>, \<open>TunnelSession\<close>, \<open>ServerSession\<close>: \<open>server/src/tcp_session.cpp\<close>, \<open>udp_session.cpp\<close>,
    \<open>http_session.cpp\<close>, \<open>tunel_session.cpp\<close>, \<open>process_new_client.cpp\<close>, and \<open>common/include/timer.h\<close>.
  \<^item> \<open>IniStore\<close>, \<open>IniText\<close>: \<open>common/include/SimpleIni.h\<close> as the programs use it. The sorted containers of
    sections and keys with the operations on them; the scanner of the text and the writer. \<open>IniFile\<close>
    shows that reading undoes writing, and states as the locale \<open>settings_store\<close> what a program relies on.
  \<^item> \<open>Configuration\<close>: \<open>client/include/client_config.h\<close>, \<open>server/include/server_config.h\<close>: the settings
    of the two programs, read from and written to the text of their files.
  \<^item> \<open>NetworkRtcApp\<close>: \<open>client/src/socks5.cpp\<close>, \<open>client/src/network_rtc_app.cpp\<close>. The client program.
  \<^item> \<open>EndToEnd\<close>, \<open>HttpTunnel\<close> and this theory: the two programs with the two directions of a data channel
    between them; \<open>HttpTunnel\<close> has the runs of an HTTP proxy request, CONNECT and plain.
  \<^item> \<open>ClientSafety\<close>, \<open>ClientProgram\<close>, \<open>PairSafety\<close>: what a client's session, the client and the pair of programs
    survive in every state they can reach.
  \<^item> \<open>Logger\<close>: \<open>common/include/rtc_logger.h\<close>. The queue of messages, the thread that writes them and the one
    that runs \<open>shutdown\<close>, taking turns in any order.
  \<^item> \<open>Programs\<close>: \<open>client/src/main.cpp\<close>, \<open>server/src/main.cpp\<close>. What the programs do in order, the loop that waits
    for the user, and the threads that run the handlers of Asio.

  \<^bold>\<open>How state is modelled.\<close>
  A class is a record. A method that changes the object is a handler: it returns the new object and, in
  order, the calls it makes of the operating system, the libraries and the objects it is bound to, so a
  composition of components runs one handler on what the other has called. An exception, a null
  dereference or a read outside a buffer is an \<open>Inl\<close>, so that a theorem that concludes \<open>Inr\<close> says the code
  returns. Objects that are shared through pointers (session objects, tunnels, client sessions) live in a
  store under an address, and a callback captures the address. Integers have the width of the source.

  \<^bold>\<open>What the lemmas show.\<close>
  \<^item> Codecs: every decoder reads only the bytes it was given, and encoding is undone by decoding
    (\<open>decoders_memory_safe\<close>, \<open>syn_payload_roundtrip\<close>, \<open>head_roundtrip\<close>, \<open>response_body_decodes\<close>).
  \<^item> Multiplexer: sending and dispatching together deliver a call to the right stream and no other
    (\<open>mux_refines_delivery\<close>, \<open>dispatch_is_grammar\<close>), and a new stream gets a number of its own
    (\<open>create_session_fresh\<close>).
  \<^item> Sockets: invariants of reachable states by rule induction (one write in flight, queue and flag agree,
    the close callback fires once) and that a close drains the queue.
  \<^item> Controller: a peer connection needs a message of the peer; a password is checked, and how it is bypassed.
  \<^item> Client session: recognition, memory safety of the handlers over the receive buffer, both HTTP
    directions and the SOCKS5 handshake; the phase of a session fixes its protocol (\<open>session_typed\<close>).
  \<^item> Client: two events can lead it outside a buffer or through a null pointer, a frame that does not find its
    socket and a UDP datagram for a domain name without data, and no others (\<open>client_program_safe\<close>,
    \<open>late_data_crashes\<close>); nothing it sends ends the server (\<open>pair_spares_server\<close>).
  \<^item> Server: three events make a client's session fail, and no others (\<open>server_session_safe\<close>,
    \<open>unserved_syn_crashes\<close>); a target's close is reported once; a closed link drains.
  \<^item> INI files: the containers behave as a map from names to values through every operation
    (\<open>ini_store_is_map\<close>), and a file the program wrote is read back as what was stored
    (\<open>ini_file_roundtrip\<close>). On top of it the settings of both programs survive a restart, up to blanks at
    the ends of a value (\<open>settings_survive_restart\<close>); numbers are cut to the width of their field.
  \<^item> Both programs: an open tunnel refines a pair of queues (\<open>tunnel_refines_pipe\<close>, through the locale
    \<open>simulation\<close>), so it delivers what was sent, in order (\<open>tunnel_transparent\<close>); a SOCKS5 request opens a
    tunnel (\<open>tunnel_opens\<close>) and closing either end closes both (\<open>tunnel_closes\<close>). An HTTP CONNECT opens one
    too (\<open>https_opens\<close>), and a plain HTTP request is sent to its target and the response back
    (\<open>http_exchange\<close>).
  \<^item> Logger: no message is written twice and none that left the queue is lost, whatever the order of turns
    (\<open>log_written_once\<close>), and \<open>shutdown\<close> returns (\<open>shutdown_ends\<close>); what it leaves in the queue, and what is
    logged after it, is lost (\<open>late_messages_lost\<close>).
  \<^item> Main programs: as many requests for a bad port as there are threads stop the client
    (\<open>bad_ports_stop_client\<close>); the keyboard loop ends when the flag is cleared or \<open>q\<close> is read.

  \<^bold>\<open>Locales.\<close> Where several parts share a contract it is a locale, interpreted on the code's own
  definitions: \<open>codec\<close> (the SYN, UDP and message formats), \<open>id_table\<close> (streams, tunnels and clients by id),
  \<open>serial_writer\<close> (the queues of both sockets), \<open>id_source\<close> (two counters), \<open>http_relay\<close> (responses in the
  client, requests in the server), \<open>settings_store\<close> (the INI file behind the settings) and \<open>simulation\<close> (the
  tunnel and its queues).

  \<^bold>\<open>Bounds and fuel.\<close>
  \<^item> Random stream numbers are a list of draws. The loop that draws until a number is free ends with the
    list as the measure; \<open>create_session_fresh\<close> shows that it returns when the list holds more distinct
    numbers than there are live streams. Running out is \<open>NoReturn\<close>, and never a normal result.
  \<^item> The recognition loop of a client session (\<open>consume_loop\<close>) ends because every handler reports at least
    one byte as consumed; the loop needs no fuel.
  \<^item> A read is the whole receive buffer (8192 bytes) with the number of bytes received, because the
    handlers look at fixed offsets of it.
  \<^item> \<open>long\<close> has 32 or 64 bits (\<open>lb\<close>): it has 32 on Windows.
  \<^item> The host is little-endian.

  \<^bold>\<open>Parameters.\<close> Code that is not under \<open>src\<close> is an argument: \<open>llhttp\<close> (the callbacks it makes for a
  buffer), JSON text (\<open>parse\<close>, \<open>dump\<close>), address parsing (\<open>inet_pton\<close>), the operating system's addresses, and
  the bytes that reading a file gives. JSON text is taken to be written
  without a failure (the library's \<open>dump\<close> throws on text that is not UTF-8). The logger's queue (\<open>queue_ops\<close>) has
  the contract \<open>bag\<close> (no element twice, none invented; nothing is said of a queue where nothing was found), and the
  format of the local time is an argument (\<open>stamp\<close>). Asio and libdatachannel appear as the calls made of them and the events they report.

  \<^bold>\<open>Not modelled.\<close>
  \<^item> In the main programs: how signal handlers, threads and the work guard of Asio are installed. A signal is a
    change of the flag that the keyboard loop tests, a thread a number of those that run handlers.
  \<^item> \<open>crash_dump.cpp\<close>, \<open>is_std_in_terminal.h\<close> and \<open>getExecutableDir\<close> in \<open>rtc_logger.h\<close>: operating system
    calls, with no state of the program's own.
  \<^item> \<open>concurrentqueue.h\<close>: the vendored lock-free queue of the logger. Its code is about memory order, which
    a sequential model of it would leave out; it is an argument with its documented contract.
  \<^item> \<open>SimpleIni.h\<close>: vendored; its option for
    multi-line values, floating-point values, wide-character conversions and the release
    of memory are left out, because neither program turns them on or calls them.
  \<^item> Threads: apart from the logger's, each object's closures run in its strand, one at a time; races between strands that the code
    does not serialise are outside the model.
\<close>

section \<open>The two programs together\<close>

text \<open>C2: An open tunnel refines a pair of queues: whatever happens to it (the local application's socket or
the target's is read, the channel hands a message over in either direction), the two programs, the
frames they build and parse included, do exactly what a queue of segments in each direction does, and
the tunnel stays open.\<close>
theorem tunnel_refines_pipe:
  assumes "carries i a sid prot x q" "pipe_event i a e"
  shows "\<exists>x'. pair_step L e x = Inr (x', snd (pipe_step i a e q)) \<and> carries i a sid prot x' (fst (pipe_step i a e q))"
  by (rule tunnel_pipe.simulates [OF assms])

text \<open>C1: The tunnel is transparent: in every interleaving of reads and deliveries no step fails, the
target is sent the segments the application sent, in order and unchanged, up to those still in the
channel, and the application those the target sent; when a direction of the channel is empty everything
has arrived.\<close>
theorem tunnel_transparent:
  assumes "carries i a sid prot x \<lparr>to_target = [], to_app = []\<rparr>" "\<forall>e\<in>set es. pipe_event i a e"
  shows "\<exists>x' acts to_t to_a. for_each (pair_step L) es x = Inr (x', acts) \<and>
    sent_to_target a acts @ to_t = app_segments es \<and> (up x' = [] \<longrightarrow> to_t = []) \<and>
    sent_to_app i acts @ to_a = target_segments es \<and> (down x' = [] \<longrightarrow> to_a = [])"
proof -
  let ?r = "arun (pipe_step i a) es \<lparr>to_target = [], to_app = []\<rparr>"
  from tunnel_pipe.runs [OF assms, of L] obtain x' where
    "for_each (pair_step L) es x = Inr (x', snd ?r)" "carries i a sid prot x' (fst ?r)" by blast
  with pipe_conserves [OF assms(2), of "\<lparr>to_target = [], to_app = []\<rparr>"] show ?thesis
    by (intro exI [of _ x'] exI [of _ "snd ?r"] exI [of _ "to_target (fst ?r)"] exI [of _ "to_app (fst ?r)"])
      (auto simp: carries_def data_msgs_def)
qed

text \<open>C3: A SOCKS5 CONNECT opens a tunnel: from the application's greeting and request the client answers the
greeting and the server connects to the host and port of the request; when the target is connected the
application is sent the success reply and the two sessions carry data on one stream of their own, and
when it is not the application is sent a failure and its connection is closed.\<close>
theorem tunnel_opens:
  assumes "near_fresh WaitGreetingVersion i prot (near x)" "wf_addr addr"
    and "gen_stream_id (manager (ap_mux (near x))) (ap_draws (near x)) = Some (sid, ds)"
    and "ss_reach (lb_far L) (far x)" "far_up (far x)" "send_func_set (ss_mux (far x))" "on_syn_set (ss_mux (far x))"
    and "up x = []" "down x = []"
  shows "\<exists>x'. for_each (pair_step L) [AppReads i ([5, 1, m] @ stale1) 3,
      AppReads i (socks_request 1 addr port @ stale2) (length (socks_request 1 addr port)),
      DeliverUp, Target (ss_next (far x)) (TevConnected ok), DeliverDown] x =
    Inr (x', [Near (ApSession i (CsTcp (EvSend [5, 0]))),
      Far (SsSock (ss_next (far x)) (SiTcp (EvConnect (addr_text addr) port))),
      Near (ApSession i (CsTcp (EvSend [5, if ok then 0 else 5, 0, 1, 0, 0, 0, 0, 0, 0])))] @
      (if ok then [] else [Near (ApSession i (CsTcp EvClose))])) \<and>
    (ok \<longrightarrow> carries i (ss_next (far x)) sid Socks5Connect x' \<lparr>to_target = [], to_app = []\<rparr>)"
  by (rule socks_opens [OF assms])

text \<open>C4: An HTTP CONNECT opens a tunnel as a SOCKS5 request does: whatever segment llhttp takes for the head of
a CONNECT to a host and a port, with whatever headers, the server connects to that host and port; when the
target is connected the application is sent "200 Connection Established" and the two sessions carry data
on one stream of their own (and nothing of the request reaches the target), and when it is not the
application is sent a failure and its connection is closed.\<close>
theorem https_opens:
  assumes "near_new (lb_near L) i (near x)" "b \<noteq> []" "hd b \<noteq> 5"
    and "ll_execute (lb_near L) (ll_init (lb_near L) Request) (string_of_bytes b) = (request_head ls fvs info @ rest, err, l)"
    and "\<forall>e\<in>set rest. body_event e" "\<forall>code why. err \<noteq> LlError code why"
    and "\<forall>fv\<in>set fvs. fst fv \<noteq> [] \<and> snd fv \<noteq> []" "ll_method info = ''CONNECT''"
    and "concat ls = host @ '':'' @ dec_string (unat port)" "CHR '':'' \<notin> set host" "host \<noteq> []" "length host < 256"
    and "gen_stream_id (manager (ap_mux (near x))) (ap_draws (near x)) = Some (sid, ds)"
    and "ss_reach (lb_far L) (far x)" "far_up (far x)" "send_func_set (ss_mux (far x))" "on_syn_set (ss_mux (far x))"
    and "up x = []" "down x = []"
  shows "\<exists>x'. for_each (pair_step L) [AppReads i (b @ stale) (length b),
      DeliverUp, Target (ss_next (far x)) (TevConnected ok), DeliverDown] x =
    Inr (x', [Far (SsSock (ss_next (far x)) (SiTcp (EvConnect host port))),
      Near (ApSession i (CsTcp (EvSend (bytes_of_string (if ok then http_ok_reply else http_fail_reply)))))] @
      (if ok then [] else [Near (ApSession i (CsTcp EvClose))])) \<and>
    (ok \<longrightarrow> carries i (ss_next (far x)) sid HttpsConnect x' \<lparr>to_target = [], to_app = []\<rparr>)"
  by (rule connect_opens [OF assms])

text \<open>C5: A plain HTTP request and its response pass through both programs: the request is kept until the
server has connected to the host and port its Host header names, then reaches the target with the path of
its target in origin form, its headers in order and its body; the response reaches the application with
its head and body, in however many segments the target sends it; nothing else is sent to either.\<close>
theorem http_exchange:
  fixes ls :: "string list" and info :: ll_info and fvs :: "(string list \<times> string list) list"
  assumes "near_new (lb_near L) i (near x)" "b \<noteq> []" "hd b \<noteq> 5" "length b \<le> 8192"
    and "ll_execute (lb_near L) (ll_init (lb_near L) Request) (string_of_bytes b) =
      (message_events Request ls fvs info parts, LlOk, l1)"
    and "ll_execute (lb_far L) (ll_init (lb_far L) Request) (string_of_bytes b) =
      (message_events Request ls fvs info parts, LlOk, l2)"
    and "\<forall>fv\<in>set fvs. fst fv \<noteq> [] \<and> snd fv \<noteq> []" "ll_method info \<noteq> ''CONNECT''"
    and "destination (request_of ls fvs info) = Inr (host, port)" "host \<noteq> []" "length host < 256"
    and "gen_stream_id (manager (ap_mux (near x))) (ap_draws (near x)) = Some (sid, ds)"
    and "ss_reach (lb_far L) (far x)" "far_up (far x)" "send_func_set (ss_mux (far x))" "on_syn_set (ss_mux (far x))"
    and "up x = []" "down x = []"
    and "ll_run (lb_near L) (ll_init (lb_near L) Response) rs = Some (message_events Response rls rfvs rinfo rparts, l3)"
    and "\<forall>fv\<in>set rfvs. fst fv \<noteq> [] \<and> snd fv \<noteq> []" "\<forall>r\<in>set rs. length r \<le> 8192"
  shows "\<exists>x' reqs resps. for_each (pair_step L) ([AppReads i (b @ stale) (length b), DeliverUp,
      Target (ss_next (far x)) (TevConnected True), DeliverDown, DeliverUp] @ response_steps (ss_next (far x)) rs) x =
    Inr (x', [Far (SsSock (ss_next (far x)) (SiTcp (EvConnect host port)))] @
      map (\<lambda>b. Far (SsSock (ss_next (far x)) (SiTcp (EvSend (bytes_of_string b))))) reqs @
      map (\<lambda>b. Near (ApSession i (CsTcp (EvSend (bytes_of_string b))))) resps) \<and>
    concat reqs = serialize_headers_only False None ((request_of ls fvs info)\<lparr>target := ToOriginForm (concat ls)\<rparr>) @
      (if flag_chunked info then concat (map chunk parts) @ last_chunk else concat parts) \<and>
    concat resps = serialize_headers_only False None (described Response rinfo (concat rls) (map whole_header rfvs)) @
      (if flag_chunked rinfo then concat (map chunk rparts) @ last_chunk else concat rparts)"
  using http_exchanged [OF assms, of stale] by (simp only: origin_head_def relayed_body_def request_of_fields)

text \<open>C6: A tunnel closes at both ends whichever end begins: the end that closes sends one FIN, the other
closes its socket and sends none back, the client's server forgets the session, and the server's tables
hold neither the stream nor the tunnel any more.\<close>
theorem tunnel_closes:
  assumes "carries i a sid prot x \<lparr>to_target = [], to_app = []\<rparr>"
  shows "(\<exists>x'. for_each (pair_step L) [Target a TevClosed, DeliverDown, AppCloses i] x =
        Inr (x', [Near (ApSession i (CsTcp EvClose))]) \<and> up x' = [] \<and> down x' = [] \<and>
      i \<notin> set (sv_sessions (near x')) \<and> abs_sessions (ss_mux (far x')) sid = None \<and>
      map_of (tunnel_sessions (far x')) sid = None \<and> \<not> live (far x') a sid) \<and>
    (\<exists>x'. for_each (pair_step L) [AppCloses i, DeliverUp, Target a TevClosed] x =
        Inr (x', [Far (SsSock a (SiTcp EvClose))]) \<and> up x' = [] \<and> down x' = [] \<and>
      i \<notin> set (sv_sessions (near x')) \<and> abs_sessions (ss_mux (far x')) sid = None \<and>
      map_of (tunnel_sessions (far x')) sid = None \<and> \<not> live (far x') a sid)"
proof (rule conjI)
  from assms have x: "raw prot" "near_side SessionProtocol.Connected i sid prot (near x)"
    "far_side a sid prot (far x)" "up x = []" "down x = []" by (simp_all add: carries_def data_msgs_def)
  let ?fin = "channel_msg (MFin sid prot)"
  from far_closes [OF x(3,1)] obtain s1 where
    s1: "ss_on_target a TevClosed (far x) = Inr (s1, [SsCtl (Link (DcSend ?fin))])"
      "abs_sessions (ss_mux s1) sid = None" "map_of (tunnel_sessions s1) sid = None" "\<not> live s1 a sid" by auto
  from near_gets_fin [OF x(2,1), of "lb_near L" "lb_v4 L" "lb_udp L"] obtain p1 where
    p1: "app_on_message (lb_near L) (lb_v4 L) (lb_udp L) ?fin (near x) = Inr (p1, [ApSession i (CsTcp EvClose)])"
      "near_session True SessionProtocol.Connected i sid prot p1" by blast
  from near_closes [OF p1(2) x(1)] obtain p2 where
    p2: "run_session i on_tcp_close p1 = Inr (p2, [])" "i \<notin> set (sv_sessions p2)" by auto
  show "\<exists>x'. for_each (pair_step L) [Target a TevClosed, DeliverDown, AppCloses i] x =
        Inr (x', [Near (ApSession i (CsTcp EvClose))]) \<and> up x' = [] \<and> down x' = [] \<and>
      i \<notin> set (sv_sessions (near x')) \<and> abs_sessions (ss_mux (far x')) sid = None \<and>
      map_of (tunnel_sessions (far x')) sid = None \<and> \<not> live (far x') a sid"
    using s1 p1(1) p2 x(4,5)
    by (intro exI [of _ "x\<lparr>near := p2, far := s1, down := []\<rparr>"])
      (simp add: at_near_def at_far_def andThen_def emit_def modify_def skip_def)
  from near_closes [OF x(2,1)] obtain p3 where
    p3: "run_session i on_tcp_close (near x) = Inr (p3, [ApCtl (Link (DcSend ?fin))])" "i \<notin> set (sv_sessions p3)"
    by auto
  from far_gets_fin [OF x(3,1), of "lb_far L" "lb_garbage L"] obtain s2 where
    s2: "ss_on_message (lb_far L) (lb_garbage L) ?fin (far x) = Inr (s2, [SsSock a (SiTcp EvClose)])"
      "far_tunnel True a sid prot s2" by blast
  from far_closes [OF s2(2) x(1)] obtain s3 where
    s3: "ss_on_target a TevClosed s2 = Inr (s3, [])" "abs_sessions (ss_mux s3) sid = None"
      "map_of (tunnel_sessions s3) sid = None" "\<not> live s3 a sid" by auto
  show "\<exists>x'. for_each (pair_step L) [AppCloses i, DeliverUp, Target a TevClosed] x =
        Inr (x', [Far (SsSock a (SiTcp EvClose))]) \<and> up x' = [] \<and> down x' = [] \<and>
      i \<notin> set (sv_sessions (near x')) \<and> abs_sessions (ss_mux (far x')) sid = None \<and>
      map_of (tunnel_sessions (far x')) sid = None \<and> \<not> live (far x') a sid"
    using p3 s2(1) s3 x(4,5)
    by (intro exI [of _ "x\<lparr>near := p3, far := s3, up := []\<rparr>"])
      (simp add: at_near_def at_far_def andThen_def emit_def modify_def skip_def)
qed

subsection \<open>Witnesses\<close>

theorem tunnel_refines_pipe_witness:
  "\<exists>x x'. pair_step demo_libs (AppReads 1 [7, 8, 9] 2) x = Inr (x', []) \<and>
     carries 1 0 77 Socks5Connect x' \<lparr>to_target = [[7, 8]], to_app = []\<rparr>"
proof -
  from demo_open obtain x :: "(unit, unit) pair" where x: "carries 1 0 77 Socks5Connect x \<lparr>to_target = [], to_app = []\<rparr>" by blast
  have "pipe_event 1 0 (AppReads 1 [7, 8, 9] 2)" by simp
  from tunnel_refines_pipe [OF x this, of demo_libs] show ?thesis by auto
qed

theorem tunnel_transparent_witness:
  "\<exists>x x' acts rest. for_each (pair_step demo_libs) [AppReads 1 [7, 8, 9] 2, Target 0 (TevData [5] 1), DeliverUp] x =
       Inr (x', acts) \<and> sent_to_target 0 acts @ rest = [[7, 8]]"
proof -
  from demo_open obtain x :: "(unit, unit) pair" where x: "carries 1 0 77 Socks5Connect x \<lparr>to_target = [], to_app = []\<rparr>" by blast
  have "\<forall>e\<in>set [AppReads 1 [7, 8, 9] 2, Target 0 (TevData [5] 1), DeliverUp]. pipe_event 1 0 e" by simp
  from tunnel_transparent [OF x this, of demo_libs] show ?thesis
    by (simp only: app_segments.simps take_Suc_Cons take_0 numeral_2_eq_2 One_nat_def) blast
qed

theorem tunnel_opens_witness:
  "\<exists>x'. for_each (pair_step demo_libs) [AppReads 1 ([5, 1, 0] @ []) 3,
      AppReads 1 (socks_request 1 (AddrDomain ''a.b'') 80 @ []) (length (socks_request 1 (AddrDomain ''a.b'') 80)),
      DeliverUp, Target 0 (TevConnected True), DeliverDown] demo_pair =
    Inr (x', [Near (ApSession 1 (CsTcp (EvSend [5, 0]))), Far (SsSock 0 (SiTcp (EvConnect ''a.b'' 80))),
      Near (ApSession 1 (CsTcp (EvSend [5, 0, 0, 1, 0, 0, 0, 0, 0, 0])))])"
proof -
  have "wf_addr (AddrDomain ''a.b'')" by simp
  from tunnel_opens [OF demo_facts(1) this demo_facts(2-8), of demo_libs 0 "[]" 80 "[]" True]
  show ?thesis unfolding demo_facts(9) by auto
qed

theorem https_opens_witness:
  "\<exists>x'. for_each (pair_step demo_http) [AppReads 1 (bytes_of_string ''C'' @ []) (length (bytes_of_string ''C'')),
      DeliverUp, Target 0 (TevConnected True), DeliverDown] demo_pair =
    Inr (x', [Far (SsSock 0 (SiTcp (EvConnect ''a.b'' 443))),
      Near (ApSession 1 (CsTcp (EvSend (bytes_of_string http_ok_reply))))])"
proof -
  have b: "bytes_of_string ''C'' \<noteq> []" "hd (bytes_of_string ''C'') \<noteq> 5"
    by (simp_all add: bytes_of_string_def byte_of_char_def)
  have run: "ll_execute (lb_near demo_http) (ll_init (lb_near demo_http) Request) (string_of_bytes (bytes_of_string ''C'')) =
      (request_head [''a.b:443''] [] (demo_info ''CONNECT'') @ [], LlOk, ())"
    by (simp add: demo_http_def scripted_llhttp_def)
  have rest: "\<forall>e\<in>set []. body_event e" "\<forall>code why. LlOk \<noteq> LlError code why"
    "\<forall>fv\<in>set []. fst fv \<noteq> [] \<and> snd fv \<noteq> []" "ll_method (demo_info ''CONNECT'') = ''CONNECT''" by (simp_all add: demo_info_def)
  have dest: "concat [''a.b:443''] = ''a.b'' @ '':'' @ dec_string (unat (443 :: 16 word))"
    "CHR '':'' \<notin> set ''a.b''" "''a.b'' \<noteq> []" "length ''a.b'' < 256" by (simp_all, code_simp)
  have far: "ss_reach (lb_far demo_http) (far demo_pair)" by (rule demo_facts(3))
  from https_opens [OF demo_http_new b run rest dest demo_facts(2) far demo_facts(4-8), of "[]" True]
  show ?thesis unfolding demo_facts(9) by auto
qed

theorem http_exchange_witness:
  "\<exists>x' reqs resps. for_each (pair_step demo_http) ([AppReads 1 (bytes_of_string ''G'' @ []) (length (bytes_of_string ''G'')),
      DeliverUp, Target 0 (TevConnected True), DeliverDown, DeliverUp] @ response_steps 0 [''R'']) demo_pair =
    Inr (x', [Far (SsSock 0 (SiTcp (EvConnect ''h'' 80)))] @
      map (\<lambda>b. Far (SsSock 0 (SiTcp (EvSend (bytes_of_string b))))) reqs @
      map (\<lambda>b. Near (ApSession 1 (CsTcp (EvSend (bytes_of_string b))))) resps) \<and>
    concat reqs = ''GET /p HTTP/1.1'' @ crlf @ ''Host: h'' @ crlf @ crlf @ ''abc'' \<and>
    concat resps = ''HTTP/1.1 200 OK'' @ crlf @ ''A: 1'' @ crlf @ crlf @ ''xyz''"
proof -
  have b: "bytes_of_string ''G'' \<noteq> []" "hd (bytes_of_string ''G'') \<noteq> 5" "length (bytes_of_string ''G'') \<le> 8192"
    by (simp_all add: bytes_of_string_def byte_of_char_def)
  let ?ls = "[''http://'', ''h/p'']" and ?fvs = "[([''Host''], [''h''])]" and ?i = "demo_info ''GET''"
  have run: "ll_execute (lb_near demo_http) (ll_init (lb_near demo_http) Request) (string_of_bytes (bytes_of_string ''G'')) =
      (message_events Request ?ls ?fvs ?i [''abc''], LlOk, ())"
    "ll_execute (lb_far demo_http) (ll_init (lb_far demo_http) Request) (string_of_bytes (bytes_of_string ''G'')) =
      (message_events Request ?ls ?fvs ?i [''abc''], LlOk, ())"
    by (simp_all add: demo_http_def scripted_llhttp_def)
  have head: "\<forall>fv\<in>set ?fvs. fst fv \<noteq> [] \<and> snd fv \<noteq> []" "ll_method ?i \<noteq> ''CONNECT''" by (simp_all add: demo_info_def)
  have dest: "destination (request_of ?ls ?fvs ?i) = Inr (''h'', 80)" "''h'' \<noteq> []" "length ''h'' < 256"
    by (simp_all, code_simp)
  have far: "ss_reach (lb_far demo_http) (far demo_pair)" by (rule demo_facts(3))
  have resp: "ll_run (lb_near demo_http) (ll_init (lb_near demo_http) Response) [''R''] =
      Some (message_events Response [''OK''] [([''A''], [''1''])] ?i [''xyz''], ())"
    "\<forall>fv\<in>set [([''A''], [''1''])]. fst fv \<noteq> [] \<and> snd fv \<noteq> []" "\<forall>r\<in>set [''R'']. length r \<le> 8192"
    by (simp_all add: demo_http_def scripted_llhttp_def)
  have bytes: "serialize_headers_only False None ((request_of ?ls ?fvs ?i)\<lparr>target := ToOriginForm (concat ?ls)\<rparr>) @
      (if flag_chunked ?i then concat (map chunk [''abc'']) @ last_chunk else concat [''abc'']) =
      ''GET /p HTTP/1.1'' @ crlf @ ''Host: h'' @ crlf @ crlf @ ''abc''"
    "serialize_headers_only False None (described Response ?i (concat [''OK'']) (map whole_header [([''A''], [''1''])])) @
      (if flag_chunked ?i then concat (map chunk [''xyz'']) @ last_chunk else concat [''xyz'']) =
      ''HTTP/1.1 200 OK'' @ crlf @ ''A: 1'' @ crlf @ crlf @ ''xyz''"
    by code_simp+
  from http_exchange [OF demo_http_new b run head dest demo_facts(2) far demo_facts(4-8) resp, of "[]"]
  show ?thesis unfolding bytes demo_facts(9) .
qed

theorem tunnel_closes_witness:
  "\<exists>x x'. for_each (pair_step demo_libs) [Target 0 TevClosed, DeliverDown, AppCloses 1] x =
     Inr (x', [Near (ApSession 1 (CsTcp EvClose))]) \<and> abs_sessions (ss_mux (far x')) 77 = None"
proof -
  from demo_open obtain x :: "(unit, unit) pair" where x: "carries 1 0 77 Socks5Connect x \<lparr>to_target = [], to_app = []\<rparr>" by blast
  from tunnel_closes [OF x, of demo_libs] show ?thesis by blast
qed

end
